(* ===== verification/Prelude.thy ===== *)
theory Prelude
  imports Main "HOL-Library.Word"
begin

text \<open>
  Shared vocabulary of the development.  Octets and the fixed-width counters of the C++ sources
  are machine words; buffers (\<open>std::span\<close>, \<open>std::vector\<close> and \<open>std::array\<close> of octets) are lists
  of octets; sizes (\<open>std::size_t\<close>) are natural numbers, because every size that occurs is the
  length of a buffer.

  A write through a \<open>std::span\<close> is \<open>write_at\<close>, which returns the buffer after the write.  It is
  defined so that a write outside the buffer makes the result longer: a theorem that an encoder
  preserves the length of its destination therefore also says that the encoder never writes out
  of bounds (\<open>write_at_out_of_bounds\<close>).

  The theory also holds the interfaces the components are stated against: \<open>packet_codec\<close> and
  \<open>canonical_codec\<close> (an encoder and a decoder over one wire format) and \<open>state_machine\<close> (an
  invariant of a step relation).
\<close>

unbundle bit_operations_syntax

type_synonym byte = "8 word"
type_synonym u16 = "16 word"
type_synonym u32 = "32 word"
type_synonym u64 = "64 word"
type_synonym bytes = "8 word list"

named_theorems wire_simps \<open>sizes and wire images of encoded fields\<close>

subsection \<open>Big-endian sixteen-bit fields\<close>

definition hi8 :: "u16 \<Rightarrow> byte" where
  "hi8 x = ucast (drop_bit 8 x)"

definition lo8 :: "u16 \<Rightarrow> byte" where
  "lo8 x = ucast (x AND 0xFF)"

definition be16 :: "byte \<Rightarrow> byte \<Rightarrow> u16" where
  "be16 h l = push_bit 8 (ucast h) OR ucast l"

lemma octet_mask: "(0xFF :: 'a::len word) = mask 8"
  by (simp add: mask_eq_exp_minus_1)

lemma bit_byte_beyond [simp]: "8 \<le> n \<Longrightarrow> \<not> bit (b :: byte) n"
  using bit_imp_le_length [of b n] by auto

lemma be16_hi_lo [simp]: "be16 (hi8 x) (lo8 x) = x"
  by (rule bit_eqI) (auto simp: be16_def hi8_def lo8_def bit_simps octet_mask)

lemma hi8_be16 [simp]: "hi8 (be16 h l) = h"
  by (rule bit_eqI) (auto simp: be16_def hi8_def lo8_def bit_simps octet_mask)

lemma lo8_be16 [simp]: "lo8 (be16 h l) = l"
  by (rule bit_eqI) (auto simp: be16_def hi8_def lo8_def bit_simps octet_mask)

lemma be16_sum: "be16 h l = 256 * ucast h + ucast l"
proof -
  have "push_bit 8 (ucast h) + ucast l = (push_bit 8 (ucast h) OR ucast l :: u16)"
    by (rule disjunctive_add) (auto simp: bit_simps)
  then show ?thesis by (simp add: be16_def push_bit_eq_mult ac_simps)
qed

lemma unat_byte_less [simp]: "unat (b :: byte) < 256"
  using unsigned_less [of b] by simp

lemma unat_byte_le [simp]: "unat (b :: byte) \<le> 255" "\<not> 255 < unat b"
  using unat_byte_less [of b] by linarith+

lemma unat_u16_less: "unat (w :: u16) < 65536"
  using unsigned_less [of w] by simp

lemma unat_take_bit_less: "w = take_bit n w \<Longrightarrow> unat w < 2 ^ n"
  by (metis take_bit_nat_less_exp unsigned_take_bit_eq)

lemma unat_ucast_byte [simp]: "unat (ucast (b :: byte) :: u16) = unat b"
proof -
  have "unat b < 65536" using unat_byte_less [of b] by linarith
  then show ?thesis by (simp add: unsigned_ucast_eq take_bit_nat_eq_self_iff)
qed

lemma word_of_nat_unat_byte [simp]:
  "word_of_nat (unat (b :: byte)) = (ucast b :: u16)" "ucast (ucast b :: u16) = b"
  by (simp_all add: of_nat_unat bit_eq_iff bit_simps)

lemma unat_byte_of_nat: "n < 256 \<Longrightarrow> unat (word_of_nat n :: byte) = n"
  by (simp add: unsigned_of_nat take_bit_nat_eq_self)

lemma unat_u16_of_nat: "n < 65536 \<Longrightarrow> unat (word_of_nat n :: u16) = n"
  by (simp add: unsigned_of_nat take_bit_nat_eq_self)

lemma unat_be16: "unat (be16 h l) = 256 * unat h + unat l"
proof -
  have "unat h < 256" "unat l < 256" by simp_all
  then have "256 * unat h + unat l < 65536" by linarith
  then show ?thesis
    by (simp add: be16_sum unat_word_ariths unsigned_ucast_eq take_bit_nat_eq_self)
qed

lemma take_bit_small: "unat w < 2 ^ n \<Longrightarrow> take_bit n w = w"
  by (simp add: word_unat_eq_iff unsigned_take_bit_eq take_bit_nat_eq_self)

lemma bit_small:
  assumes "unat w < 2 ^ n" "bit w k"
  shows "k < n"
proof -
  have "bit (take_bit n w) k" using assms by (simp only: take_bit_small)
  then show ?thesis by (simp add: bit_take_bit_iff)
qed

lemma nibble_masks: "(0x0F :: 'a::len word) = mask 4" "(0x0FFF :: 'a word) = mask 12"
  by (simp_all add: mask_eq_exp_minus_1)

subsection \<open>Spans: reads and writes on a buffer\<close>

definition write_at :: "'a list \<Rightarrow> nat \<Rightarrow> 'a list \<Rightarrow> 'a list" where
  "write_at d i bs = take i d @ bs @ drop (i + length bs) d"

definition subspan :: "'a list \<Rightarrow> nat \<Rightarrow> nat \<Rightarrow> 'a list" where
  "subspan xs i n = take n (drop i xs)"

lemma length_write_at [simp]:
  "i + length bs \<le> length d \<Longrightarrow> length (write_at d i bs) = length d"
  by (simp add: write_at_def)

lemma write_at_out_of_bounds:
  "length d < i + length bs \<Longrightarrow> bs \<noteq> [] \<Longrightarrow> length (write_at d i bs) \<noteq> length d"
  by (auto simp: write_at_def min_def)

lemma write_at_Nil [simp]: "write_at d i [] = d"
  by (simp add: write_at_def)

lemma write_at_chain [wire_simps]:
  "i = length a \<Longrightarrow> length a + length b \<le> length d \<Longrightarrow>
   write_at (write_at d 0 a) i b = write_at d 0 (a @ b)"
  by (simp add: write_at_def add.commute)

lemma write_at_whole: "length bs = length d \<Longrightarrow> write_at d 0 bs = bs"
  by (simp add: write_at_def)

lemma take_write_at [simp]: "n = length bs \<Longrightarrow> take n (write_at d 0 bs) = bs"
  by (simp add: write_at_def)

lemma drop_write_at [simp]: "n = length bs \<Longrightarrow> drop n (write_at d 0 bs) = drop n d"
  by (simp add: write_at_def)

lemma nth_write_at: "i < length bs \<Longrightarrow> write_at d 0 bs ! i = bs ! i"
  by (simp add: write_at_def nth_append)

lemma length_subspan [simp]: "i + n \<le> length xs \<Longrightarrow> length (subspan xs i n) = n"
  by (simp add: subspan_def)

lemma subspan_append [simp]:
  "i = length a \<Longrightarrow> n = length b \<Longrightarrow> subspan (a @ b @ c) i n = b"
  by (simp add: subspan_def)

lemma subspan_simps [wire_simps]:
  "0 < i \<Longrightarrow> subspan (x # xs) i n = subspan xs (i - 1) n"
  "length a \<le> i \<Longrightarrow> subspan (a @ b) i n = subspan b (i - length a) n"
  "length a = n \<Longrightarrow> subspan (a @ b) 0 n = a"
  "length a = n \<Longrightarrow> subspan a 0 n = a"
  by (cases i) (simp_all add: subspan_def)

lemma list_prefix_nth:
  "2 \<le> length bs \<Longrightarrow> bs = bs ! 0 # bs ! 1 # drop 2 bs"
  "4 \<le> length bs \<Longrightarrow> bs = bs ! 0 # bs ! 1 # bs ! 2 # bs ! 3 # drop 4 bs"
  "6 \<le> length bs \<Longrightarrow> bs = bs ! 0 # bs ! 1 # bs ! 2 # bs ! 3 # bs ! 4 # bs ! 5 # drop 6 bs"
proof -
  have step: "i < length bs \<Longrightarrow> drop i bs = bs ! i # drop (i + 1) bs" for i
    by (simp add: Cons_nth_drop_Suc)
  show "2 \<le> length bs \<Longrightarrow> bs = bs ! 0 # bs ! 1 # drop 2 bs"
    using step [of 0] step [of 1] by (cases bs; cases "tl bs") simp_all
  show "4 \<le> length bs \<Longrightarrow> bs = bs ! 0 # bs ! 1 # bs ! 2 # bs ! 3 # drop 4 bs"
    using step [of 0] step [of 1] step [of 2] step [of 3] by (cases bs; cases "tl bs") simp_all
  show "6 \<le> length bs \<Longrightarrow> bs = bs ! 0 # bs ! 1 # bs ! 2 # bs ! 3 # bs ! 4 # bs ! 5 # drop 6 bs"
    using step [of 0] step [of 1] step [of 2] step [of 3] step [of 4] step [of 5] by (cases bs; cases "tl bs") simp_all
qed

subsection \<open>Step relations and their invariants\<close>

inductive reachable_from :: "('s \<Rightarrow> bool) \<Rightarrow> ('s \<Rightarrow> 's \<Rightarrow> bool) \<Rightarrow> 's \<Rightarrow> bool"
  for init step where
  start: "init s \<Longrightarrow> reachable_from init step s"
| step: "reachable_from init step s \<Longrightarrow> step s t \<Longrightarrow> reachable_from init step t"

locale state_machine =
  fixes init :: "'s \<Rightarrow> bool" and step :: "'s \<Rightarrow> 's \<Rightarrow> bool" and inv :: "'s \<Rightarrow> bool"
  assumes inv_init: "init s \<Longrightarrow> inv s"
    and inv_step: "inv s \<Longrightarrow> step s t \<Longrightarrow> inv t"
begin

lemma reachable_inv: "reachable_from init step s \<Longrightarrow> inv s"
  by (induction rule: reachable_from.induct) (auto intro: inv_init inv_step)

end

text \<open>Sequences of labelled steps.\<close>

inductive trace :: "('e \<Rightarrow> 's \<Rightarrow> 's \<Rightarrow> bool) \<Rightarrow> 'e list \<Rightarrow> 's \<Rightarrow> 's \<Rightarrow> bool" for step where
  trace_nil: "trace step [] s s"
| trace_cons: "step e s t \<Longrightarrow> trace step es t u \<Longrightarrow> trace step (e # es) s u"

lemma trace_keeps:
  assumes "trace step es s t" "\<And>e a b. e \<in> set es \<Longrightarrow> P a \<Longrightarrow> step e a b \<Longrightarrow> P b"
  shows "P s \<Longrightarrow> P t"
  using assms by (induction rule: trace.induct) auto

text \<open>
  A machine that implements an abstract one: each of its steps is a step of the abstract machine with
  the same label, so its sequences of steps are sequences of the abstract one.
\<close>

locale simulation = state_machine init "\<lambda>s t. \<exists>e. does e s t" inv
  for init :: "'s \<Rightarrow> bool" and does :: "'e \<Rightarrow> 's \<Rightarrow> 's \<Rightarrow> bool" and inv :: "'s \<Rightarrow> bool" +
  fixes abs :: "'s \<Rightarrow> 'b" and astep :: "'e \<Rightarrow> 'b \<Rightarrow> 'b \<Rightarrow> bool"
  assumes sim: "inv s \<Longrightarrow> does e s t \<Longrightarrow> astep e (abs s) (abs t)"
begin

lemma trace_inv: "trace does es s t \<Longrightarrow> inv s \<Longrightarrow> inv t"
  by (erule trace_keeps) (auto intro: inv_step)

lemma trace_sim: "trace does es s t \<Longrightarrow> inv s \<Longrightarrow> trace astep es (abs s) (abs t)"
  by (induction rule: trace.induct) (auto intro: trace.intros sim inv_step)

lemma init_sim:
  "init s \<Longrightarrow> trace does es s t \<Longrightarrow> trace does fs t u \<Longrightarrow>
   trace astep es (abs s) (abs t) \<and> trace astep fs (abs t) (abs u)"
  using trace_sim trace_inv inv_init by blast

end

subsection \<open>Encoders and decoders of one wire format\<close>

text \<open>
  An encoder returns its outcome together with the destination after whatever it wrote;
  \<open>bind_w\<close> runs the next writing step on that destination unless the first one failed.
\<close>

definition bind_w :: "('e + unit) \<times> bytes \<Rightarrow> (bytes \<Rightarrow> ('e + unit) \<times> bytes) \<Rightarrow> ('e + unit) \<times> bytes" where
  "bind_w r k = (case fst r of Inl e \<Rightarrow> (Inl e, snd r) | Inr _ \<Rightarrow> k (snd r))"

lemma bind_w_simps [simp]:
  "bind_w (Inl e, d) k = (Inl e, d)"
  "bind_w (Inr u, d) k = k d"
  by (simp_all add: bind_w_def)

text \<open>
  A call that hands a callee the sub-span of \<open>n\<close> octets at \<open>i\<close>: the callee works on that slice
  and its octets are put back.
\<close>

definition on_subspan ::
    "bytes \<Rightarrow> nat \<Rightarrow> nat \<Rightarrow> (bytes \<Rightarrow> ('e + unit) \<times> bytes) \<Rightarrow> ('e + unit) \<times> bytes" where
  "on_subspan d i n k = (let (r, s) = k (subspan d i n) in (r, take i d @ s @ drop (i + n) d))"

lemma on_subspan_wire:
  assumes "k (subspan (write_at d 0 a) (length a) n) =
      (Inr (), write_at (subspan (write_at d 0 a) (length a) n) 0 w)"
    and "length w = n" "length a + n \<le> length d" "i = length a"
  shows "on_subspan (write_at d 0 a) i n k = (Inr (), write_at d 0 (a @ w))"
  using assms by (simp add: on_subspan_def write_at_def subspan_def add.commute)

lemma length_on_subspan:
  assumes "\<And>s. length s = n \<Longrightarrow> length (snd (k s)) = n" "length d = m" "i + n \<le> m"
  shows "length (snd (on_subspan d i n k)) = m"
  using assms(1) [of "subspan d i n"] assms(2,3) by (simp add: on_subspan_def split_beta)

text \<open>The same for a callee that cannot fail.\<close>

definition update_subspan :: "'a list \<Rightarrow> nat \<Rightarrow> nat \<Rightarrow> ('a list \<Rightarrow> 'a list) \<Rightarrow> 'a list" where
  "update_subspan d i n g = take i d @ g (subspan d i n) @ drop (i + n) d"

lemma length_update_subspan:
  assumes "\<And>s. length s = n \<Longrightarrow> length (g s) = n" "i + n \<le> length d"
  shows "length (update_subspan d i n g) = length d"
  using assms(1) [of "subspan d i n"] assms(2) by (simp add: update_subspan_def)

lemma update_subspan_wire:
  assumes "\<And>s. length s = n \<Longrightarrow> g s = write_at s 0 w" "length w = n" "i = length a" "length a + n \<le> length d"
  shows "update_subspan (write_at d 0 a) i n g = write_at d 0 (a @ w)"
  using assms(1) [of "subspan (write_at d 0 a) i n"] assms(2-4)
  by (simp add: update_subspan_def write_at_def subspan_def add.commute)

lemma drop_split: "drop i xs = subspan xs i n @ drop (i + n) xs"
  by (simp add: subspan_def) (metis add.commute append_take_drop_id drop_drop)

lemma length_bind_w:
  assumes "length (snd r) = n" "\<And>d. length d = n \<Longrightarrow> length (snd (k d)) = n"
  shows "length (snd (bind_w r k)) = n"
  using assms by (simp add: bind_w_def split: sum.split)

text \<open>
  The contract of one packet type.  \<open>wire x\<close> is the octet image of \<open>x\<close>; \<open>wf x\<close> is the
  representation invariant of the C++ value (a \<open>std::array\<close> has its declared length, a length field
  describes the buffer beside it); \<open>ok x\<close> is what the format can carry.
\<close>

locale packet_codec =
  fixes wire :: "'a \<Rightarrow> bytes"
    and wf :: "'a \<Rightarrow> bool"
    and ok :: "'a \<Rightarrow> bool"
    and encode :: "bytes \<Rightarrow> 'a \<Rightarrow> ('e + unit) \<times> bytes"
    and decode :: "bytes \<Rightarrow> 'e + 'a"
  assumes encode_wire:
      "wf x \<Longrightarrow> ok x \<Longrightarrow> length (wire x) \<le> length d \<Longrightarrow>
       encode d x = (Inr (), write_at d 0 (wire x))"
    and encode_bounds: "wf x \<Longrightarrow> length (snd (encode d x)) = length d"
    and decode_wire: "wf x \<Longrightarrow> ok x \<Longrightarrow> decode (wire x) = Inr x"
begin

lemma round_trip:
  assumes "wf x" "ok x" "length (wire x) \<le> length d"
  shows "\<exists>d'. encode d x = (Inr (), d') \<and> length d' = length d \<and>
    drop (length (wire x)) d' = drop (length (wire x)) d \<and>
    decode (take (length (wire x)) d') = Inr x"
  using assms encode_wire [of x d] decode_wire [of x] by auto

lemma wire_inject: "wf x \<Longrightarrow> ok x \<Longrightarrow> wf y \<Longrightarrow> ok y \<Longrightarrow> wire x = wire y \<longleftrightarrow> x = y"
  by (metis decode_wire sum.inject(2))

end

text \<open>A codec whose encoder refuses everything its decoder would not read back.\<close>

locale strict_codec = packet_codec +
  assumes encode_accepts: "wf x \<Longrightarrow> fst (encode d x) = Inr () \<Longrightarrow> ok x \<and> length (wire x) \<le> length d"
begin

lemma encode_ok_iff: "wf x \<Longrightarrow> fst (encode d x) = Inr () \<longleftrightarrow> ok x \<and> length (wire x) \<le> length d"
  using encode_wire [of x d] encode_accepts [of x d] by auto

lemma encoded_decodes:
  "wf x \<Longrightarrow> fst (encode d x) = Inr () \<Longrightarrow> decode (take (length (wire x)) (snd (encode d x))) = Inr x"
  using encode_accepts [of x d] encode_wire [of x d] decode_wire [of x] by auto

end

text \<open>A codec whose decoder loses nothing: what it accepts is the image of what it returns.\<close>

locale lossless_codec = packet_codec +
  assumes decode_image: "decode bs = Inr x \<Longrightarrow> wf x \<and> wire x = bs"
begin

lemma decode_inject: "decode bs = Inr x \<Longrightarrow> decode cs = Inr x \<Longrightarrow> bs = cs"
  using decode_image [of bs x] decode_image [of cs x] by simp

end

text \<open>A codec whose decoder accepts nothing but the images the encoder produces.\<close>

locale canonical_codec = packet_codec +
  assumes decode_sound: "decode bs = Inr x \<Longrightarrow> wf x \<and> ok x \<and> wire x = bs"
begin

lemma decode_iff: "decode bs = Inr x \<longleftrightarrow> wf x \<and> ok x \<and> bs = wire x"
  using decode_sound [of bs x] decode_wire [of x] by auto

lemma re_encode:
  "decode bs = Inr x \<Longrightarrow> length bs \<le> length d \<Longrightarrow> encode d x = (Inr (), write_at d 0 bs)"
  using decode_sound [of bs x] encode_wire [of x d] by auto

end

sublocale canonical_codec \<subseteq> lossless_codec
  by unfold_locales (use decode_sound in blast)

end
