(* ===== verification/Knx_Address.thy ===== *)
theory Knx_Address
  imports Prelude
begin

text \<open>
  The KNX error codes and the two KNX address types with their textual forms, after
  \<open>knx/error.hpp\<close>, \<open>knx/address.hpp\<close>, \<open>knx/individual_address.hpp\<close>, \<open>knx/group_address.hpp\<close> and
  their \<open>.cpp\<close> files.  Addresses are wrapped sixteen-bit words, as in the code, so that a group
  address cannot stand for an individual one.  Both types print and parse through the shared
  decimal helpers; the locale \<open>address_text\<close> states what a type owes its callers (the text fits
  nine characters, the buffer is not overrun, parsing undoes printing) and is interpreted for
  individual addresses and for group addresses in every style.

  \<open>read_decimal\<close> accumulates in 32 bits and stops as soon as the accumulator exceeds its limit,
  which is at most 65535; the accumulator therefore never exceeds 655359 and natural numbers
  model it without wrap-around.  The offset a caller passes by reference is returned with the
  value; after an error no caller reads it.
\<close>

subsection \<open>Error codes\<close>

datatype knx_error =
    Success | Feature_disabled | Invalid_configuration | Malformed_frame | Unsupported_service
  | Unsupported_hpai | Unsupported_connection_type | Invalid_length | Connection_failed | Timeout
  | Heartbeat_failed | Inactivity_timeout | Sequence_error | Send_queue_full | Shutdown
  | Internal_error | Invalid_address | Unsupported_message_code | Unsupported_apci
  | Payload_too_large | Unsupported_datapoint | Value_out_of_range | Secure_unsupported
  | Secure_authentication_failed | Secure_replay | Secure_session_rejected
  | Secure_session_closed | Secure_key_missing | Secure_frame_required
  | Keyring_signature_invalid | Crypto_failure

type_synonym 'a result = "knx_error + 'a"

subsection \<open>Decimal text\<close>

definition max_address_text_size :: nat where
  "max_address_text_size = 9"

definition max_decimal_digits :: nat where
  "max_decimal_digits = 5"

definition digit_char :: "nat \<Rightarrow> char" where
  "digit_char d = char_of (48 + d)"

text \<open>The \<open>do ... while\<close> loop of \<open>append_decimal\<close>: the digits, least significant first.\<close>

fun decimal_digits :: "nat \<Rightarrow> nat list" where
  "decimal_digits rest = (rest mod 10) # (if rest div 10 = 0 then [] else decimal_digits (rest div 10))"

declare decimal_digits.simps [simp del]

definition append_decimal :: "string \<Rightarrow> nat \<Rightarrow> u16 \<Rightarrow> string \<times> nat" where
  "append_decimal dest offset val =
     (let digits = map digit_char (rev (decimal_digits (unat val)))
      in (write_at dest offset digits, offset + length digits))"

definition is_decimal :: "char \<Rightarrow> bool" where
  "is_decimal c \<longleftrightarrow> of_char c \<ge> (48 :: nat) \<and> of_char c \<le> (57 :: nat)"

definition decimal_value :: "char \<Rightarrow> nat" where
  "decimal_value c = of_char c - 48"

function read_digits :: "string \<Rightarrow> nat \<Rightarrow> nat \<Rightarrow> nat \<Rightarrow> nat \<Rightarrow> (nat \<times> nat \<times> nat) result" where
  "read_digits str limit offset val digits =
     (if offset < length str \<and> is_decimal (str ! offset) then
        (let val' = val * 10 + decimal_value (str ! offset)
         in if val' > limit then Inl Invalid_address
            else read_digits str limit (offset + 1) val' (digits + 1))
      else Inr (val, offset, digits))"
  by pat_completeness auto
termination
  by (relation "measure (\<lambda>(str, limit, offset, val, digits). length str - offset)") auto

declare read_digits.simps [simp del]

definition read_decimal :: "string \<Rightarrow> nat \<Rightarrow> nat \<Rightarrow> (u16 \<times> nat) result" where
  "read_decimal str offset limit =
     (case read_digits str limit offset 0 0 of
        Inl e \<Rightarrow> Inl e
      | Inr (val, offset', digits) \<Rightarrow>
          if digits = 0 then Inl Invalid_address else Inr (word_of_nat val, offset'))"

definition expect_separator :: "string \<Rightarrow> nat \<Rightarrow> char \<Rightarrow> nat result" where
  "expect_separator str offset separator =
     (if offset \<ge> length str \<or> str ! offset \<noteq> separator then Inl Invalid_address
      else Inr (offset + 1))"

subsection \<open>Individual addresses\<close>

datatype individual_address = Individual_address (ia_value: u16)

definition max_area :: byte where "max_area = 0x0F"
definition max_line :: byte where "max_line = 0x0F"
definition max_device :: byte where "max_device = 0xFF"

definition individual_of_parts :: "byte \<Rightarrow> byte \<Rightarrow> byte \<Rightarrow> individual_address" where
  "individual_of_parts area line device =
     Individual_address (push_bit 12 (ucast (area AND max_area)) OR push_bit 8 (ucast (line AND max_line))
       OR ucast device)"

definition individual_make :: "u16 \<Rightarrow> u16 \<Rightarrow> u16 \<Rightarrow> individual_address result" where
  "individual_make area line device =
     (if area > ucast max_area \<or> line > ucast max_line \<or> device > ucast max_device
      then Inl Invalid_address
      else Inr (individual_of_parts (ucast area) (ucast line) (ucast device)))"

definition area :: "individual_address \<Rightarrow> byte" where
  "area a = ucast (drop_bit 12 (ia_value a))"

definition line :: "individual_address \<Rightarrow> byte" where
  "line a = ucast (drop_bit 8 (ia_value a) AND ucast max_line)"

definition device :: "individual_address \<Rightarrow> byte" where
  "device a = ucast (ia_value a AND ucast max_device)"

definition unset :: "individual_address \<Rightarrow> bool" where
  "unset a \<longleftrightarrow> ia_value a = 0"

definition individual_parse :: "string \<Rightarrow> individual_address result" where
  "individual_parse str =
     (case read_decimal str 0 (unat max_area) of Inl e \<Rightarrow> Inl e | Inr (area', o1) \<Rightarrow>
      case expect_separator str o1 CHR ''.'' of Inl e \<Rightarrow> Inl e | Inr o2 \<Rightarrow>
      case read_decimal str o2 (unat max_line) of Inl e \<Rightarrow> Inl e | Inr (line', o3) \<Rightarrow>
      case expect_separator str o3 CHR ''.'' of Inl e \<Rightarrow> Inl e | Inr o4 \<Rightarrow>
      case read_decimal str o4 (unat max_device) of Inl e \<Rightarrow> Inl e | Inr (device', o5) \<Rightarrow>
      if o5 \<noteq> length str then Inl Invalid_address
      else Inr (individual_of_parts (ucast area') (ucast line') (ucast device')))"

definition individual_format :: "individual_address \<Rightarrow> string \<Rightarrow> nat result \<times> string" where
  "individual_format a dest =
     (if length dest < max_address_text_size then (Inl Invalid_length, dest)
      else
        let (dest, offset) = append_decimal dest 0 (ucast (area a));
            dest = write_at dest offset ''.'';
            (dest, offset) = append_decimal dest (offset + 1) (ucast (line a));
            dest = write_at dest offset ''.'';
            (dest, offset) = append_decimal dest (offset + 1) (ucast (device a))
        in (Inr offset, dest))"

definition individual_to_string :: "individual_address \<Rightarrow> string" where
  "individual_to_string a =
     (let (size, str) = individual_format a (replicate max_address_text_size CHR 0x00)
      in take (case size of Inl _ \<Rightarrow> 0 | Inr n \<Rightarrow> n) str)"

subsection \<open>Group addresses\<close>

datatype group_address_style = Two_level | Three_level | Free

datatype group_address = Group_address (ga_value: u16)

definition max_main :: byte where "max_main = 0x1F"
definition max_middle :: byte where "max_middle = 0x07"
definition max_sub_three_level :: byte where "max_sub_three_level = 0xFF"
definition max_sub_two_level :: u16 where "max_sub_two_level = 0x07FF"

definition group_make3 :: "u16 \<Rightarrow> u16 \<Rightarrow> u16 \<Rightarrow> group_address result" where
  "group_make3 main middle sub =
     (if main > ucast max_main \<or> middle > ucast max_middle \<or> sub > ucast max_sub_three_level
      then Inl Invalid_address
      else Inr (Group_address (push_bit 11 main OR push_bit 8 middle OR sub)))"

definition group_make2 :: "u16 \<Rightarrow> u16 \<Rightarrow> group_address result" where
  "group_make2 main sub =
     (if main > ucast max_main \<or> sub > max_sub_two_level then Inl Invalid_address
      else Inr (Group_address (push_bit 11 main OR sub)))"

definition group_parse :: "string \<Rightarrow> group_address result" where
  "group_parse str =
     (case read_decimal str 0 0xFFFF of Inl e \<Rightarrow> Inl e | Inr (first, o1) \<Rightarrow>
      if o1 = length str then Inr (Group_address first) else
      case expect_separator str o1 CHR ''/'' of Inl e \<Rightarrow> Inl e | Inr o2 \<Rightarrow>
      case read_decimal str o2 (unat max_sub_two_level) of Inl e \<Rightarrow> Inl e | Inr (second, o3) \<Rightarrow>
      if o3 = length str then group_make2 first second else
      case expect_separator str o3 CHR ''/'' of Inl e \<Rightarrow> Inl e | Inr o4 \<Rightarrow>
      case read_decimal str o4 (unat max_sub_three_level) of Inl e \<Rightarrow> Inl e | Inr (third, o5) \<Rightarrow>
      if o5 \<noteq> length str then Inl Invalid_address else group_make3 first second third)"

definition main_group :: "group_address \<Rightarrow> byte" where
  "main_group g = ucast (drop_bit 11 (ga_value g))"

definition middle_group :: "group_address \<Rightarrow> byte" where
  "middle_group g = ucast (drop_bit 8 (ga_value g) AND ucast max_middle)"

definition sub_group :: "group_address \<Rightarrow> byte" where
  "sub_group g = ucast (ga_value g AND 0xFF)"

definition sub_group_two_level :: "group_address \<Rightarrow> u16" where
  "sub_group_two_level g = ga_value g AND max_sub_two_level"

definition broadcast :: "group_address \<Rightarrow> bool" where
  "broadcast g \<longleftrightarrow> ga_value g = 0"

definition group_format :: "group_address \<Rightarrow> group_address_style \<Rightarrow> string \<Rightarrow> nat result \<times> string" where
  "group_format g style dest =
     (if length dest < max_address_text_size then (Inl Invalid_length, dest)
      else if style = Free then
        (let (dest, offset) = append_decimal dest 0 (ga_value g) in (Inr offset, dest))
      else
        let (dest, offset) = append_decimal dest 0 (ucast (main_group g));
            dest = write_at dest offset ''/''
        in if style = Two_level then
             (let (dest, offset) = append_decimal dest (offset + 1) (sub_group_two_level g)
              in (Inr offset, dest))
           else
             let (dest, offset) = append_decimal dest (offset + 1) (ucast (middle_group g));
                 dest = write_at dest offset ''/'';
                 (dest, offset) = append_decimal dest (offset + 1) (ucast (sub_group g))
             in (Inr offset, dest))"

definition group_to_string :: "group_address \<Rightarrow> group_address_style \<Rightarrow> string" where
  "group_to_string g style =
     (let (size, str) = group_format g style (replicate max_address_text_size CHR 0x00)
      in take (case size of Inl _ \<Rightarrow> 0 | Inr n \<Rightarrow> n) str)"

subsection \<open>The text an address stands for\<close>

definition decimal_text :: "nat \<Rightarrow> string" where
  "decimal_text n = map digit_char (rev (decimal_digits n))"

definition individual_text :: "individual_address \<Rightarrow> string" where
  "individual_text a = decimal_text (unat (area a)) @ ''.'' @ decimal_text (unat (line a)) @ ''.'' @
     decimal_text (unat (device a))"

fun group_text :: "group_address_style \<Rightarrow> group_address \<Rightarrow> string" where
  "group_text Free g = decimal_text (unat (ga_value g))"
| "group_text Two_level g = decimal_text (unat (main_group g)) @ ''/'' @
     decimal_text (unat (sub_group_two_level g))"
| "group_text Three_level g = decimal_text (unat (main_group g)) @ ''/'' @
     decimal_text (unat (middle_group g)) @ ''/'' @ decimal_text (unat (sub_group g))"

text \<open>The defaulted three-way comparisons compare the wire values.\<close>

instantiation individual_address :: linorder
begin

definition less_eq_individual_address :: "individual_address \<Rightarrow> individual_address \<Rightarrow> bool" where
  "less_eq_individual_address a b \<longleftrightarrow> ia_value a \<le> ia_value b"

definition less_individual_address :: "individual_address \<Rightarrow> individual_address \<Rightarrow> bool" where
  "less_individual_address a b \<longleftrightarrow> ia_value a < ia_value b"

instance
  by standard (auto simp: less_eq_individual_address_def less_individual_address_def
    individual_address.expand)

end

instantiation group_address :: linorder
begin

definition less_eq_group_address :: "group_address \<Rightarrow> group_address \<Rightarrow> bool" where
  "less_eq_group_address a b \<longleftrightarrow> ga_value a \<le> ga_value b"

definition less_group_address :: "group_address \<Rightarrow> group_address \<Rightarrow> bool" where
  "less_group_address a b \<longleftrightarrow> ga_value a < ga_value b"

instance
  by standard (auto simp: less_eq_group_address_def less_group_address_def group_address.expand)

end

subsection \<open>Lemmas\<close>

lemma decimal_digits_bound: "d \<in> set (decimal_digits n) \<Longrightarrow> d < 10"
proof (induction n rule: decimal_digits.induct)
  case (1 n)
  then show ?case by (subst (asm) (2) decimal_digits.simps) (auto split: if_splits)
qed

lemma decimal_digits_nonempty [simp]: "decimal_digits n \<noteq> []"
  by (subst decimal_digits.simps) simp

lemma decimal_digits_length: "n < 10 ^ Suc k \<Longrightarrow> length (decimal_digits n) \<le> Suc k"
proof (induction k arbitrary: n)
  case 0
  then show ?case by (subst decimal_digits.simps) simp
next
  case (Suc k)
  then have "n div 10 < 10 ^ Suc k" by (simp add: less_mult_imp_div_less mult.commute)
  with Suc.IH have "length (decimal_digits (n div 10)) \<le> Suc k" by blast
  then show ?case by (subst decimal_digits.simps) simp
qed

lemma is_decimal_digit_char [simp]: "d < 10 \<Longrightarrow> is_decimal (digit_char d)"
  by (simp add: is_decimal_def digit_char_def)

lemma decimal_value_digit_char [simp]: "d < 10 \<Longrightarrow> decimal_value (digit_char d) = d"
  by (simp add: decimal_value_def digit_char_def)

lemma foldl_decimal_digits: "foldl (\<lambda>v d. v * 10 + d) 0 (rev (decimal_digits n)) = n"
proof (induction n rule: decimal_digits.induct)
  case (1 n)
  then show ?case by (subst decimal_digits.simps) auto
qed

lemma foldl_decimal_mono: "(v :: nat) \<le> foldl (\<lambda>v d. v * 10 + d) v ds"
proof (induction ds arbitrary: v)
  case (Cons d ds)
  have "v \<le> v * 10 + d" by simp
  also have "\<dots> \<le> foldl (\<lambda>v d. v * 10 + d) (v * 10 + d) ds" by (rule Cons.IH)
  finally show ?case by simp
qed simp

lemma read_digits_run:
  assumes "\<forall>d \<in> set ds. d < 10"
    and "foldl (\<lambda>v d. v * 10 + d) val ds \<le> limit"
    and "rest = [] \<or> \<not> is_decimal (hd rest)"
    and "drop offset str = map digit_char ds @ rest"
  shows "read_digits str limit offset val n =
    Inr (foldl (\<lambda>v d. v * 10 + d) val ds, offset + length ds, n + length ds)"
  using assms
proof (induction ds arbitrary: offset val n)
  case Nil
  have "\<not> (offset < length str \<and> is_decimal (str ! offset))"
  proof
    assume a: "offset < length str \<and> is_decimal (str ! offset)"
    then have "drop offset str \<noteq> []" "hd (drop offset str) = str ! offset"
      by (auto simp: hd_drop_conv_nth)
    with a Nil show False by auto
  qed
  then show ?case by (subst read_digits.simps) (simp only: if_False, simp)
next
  case (Cons d ds)
  have lt: "offset < length str"
    using Cons.prems(4) by (cases "offset < length str") auto
  have hd: "str ! offset = digit_char d" and rest: "drop (Suc offset) str = map digit_char ds @ rest"
    using Cons.prems(4) lt by (auto simp: Cons_nth_drop_Suc [symmetric])
  have "val * 10 + d \<le> limit"
    using Cons.prems(2) foldl_decimal_mono [of "val * 10 + d" ds] by simp
  with Cons lt hd rest show ?case
    by (subst read_digits.simps) (simp add: Let_def)
qed

lemma read_decimal_printed:
  assumes "drop offset str = map digit_char (rev (decimal_digits n)) @ rest"
    and "n \<le> limit" and "rest = [] \<or> \<not> is_decimal (hd rest)"
  shows "read_decimal str offset limit =
    Inr (word_of_nat n, offset + length (decimal_digits n))"
proof -
  have "read_digits str limit offset 0 0 =
    Inr (n, offset + length (decimal_digits n), length (decimal_digits n))"
    using read_digits_run [of "rev (decimal_digits n)" 0 limit rest offset str 0] assms
    by (simp add: foldl_decimal_digits decimal_digits_bound)
  then show ?thesis by (simp add: read_decimal_def)
qed

lemma length_decimal_text_le: "n < 10 ^ Suc k \<Longrightarrow> length (decimal_text n) \<le> Suc k"
  by (simp add: decimal_text_def decimal_digits_length)

lemma append_decimal_text:
  "append_decimal dest offset v =
     (write_at dest offset (decimal_text (unat v)), offset + length (decimal_text (unat v)))"
  by (simp add: append_decimal_def decimal_text_def Let_def)

lemma address_masks:
  "max_area = mask 4" "max_line = mask 4" "max_device = mask 8"
  "max_main = mask 5" "max_middle = mask 3" "max_sub_three_level = mask 8" "max_sub_two_level = mask 11"
  by (simp_all add: max_area_def max_line_def max_device_def max_main_def max_middle_def
    max_sub_three_level_def max_sub_two_level_def mask_eq_exp_minus_1)

lemma address_parts_less:
  "unat (area a) < 16" "unat (line a) < 16"
  "unat (main_group g) < 32" "unat (middle_group g) < 8" "unat (sub_group_two_level g) < 2048"
proof -
  have "area a = take_bit 4 (area a)" "line a = take_bit 4 (line a)"
    by (rule bit_word_eqI; auto simp: area_def line_def address_masks bit_simps dest: bit_imp_le_length)+
  moreover have "main_group g = take_bit 5 (main_group g)" "middle_group g = take_bit 3 (middle_group g)"
    "sub_group_two_level g = take_bit 11 (sub_group_two_level g)"
    by (rule bit_word_eqI; auto simp: main_group_def middle_group_def sub_group_two_level_def address_masks
        bit_simps dest: bit_imp_le_length)+
  ultimately show "unat (area a) < 16" "unat (line a) < 16"
    "unat (main_group g) < 32" "unat (middle_group g) < 8" "unat (sub_group_two_level g) < 2048"
    using unat_take_bit_less [of "area a" 4] unat_take_bit_less [of "line a" 4]
      unat_take_bit_less [of "main_group g" 5] unat_take_bit_less [of "middle_group g" 3]
      unat_take_bit_less [of "sub_group_two_level g" 11] by simp_all
qed

lemma individual_of_parts_parts: "individual_of_parts (area a) (line a) (device a) = a"
proof -
  have "bit (ia_value (individual_of_parts (area a) (line a) (device a))) n = bit (ia_value a) n"
    if "n < 16" for n
    using that by (cases "n < 12"; cases "n < 8")
      (simp_all add: individual_of_parts_def area_def line_def device_def address_masks bit_simps less_diff_conv2)
  then have "ia_value (individual_of_parts (area a) (line a) (device a)) = ia_value a"
    by (intro bit_word_eqI) simp
  then show ?thesis by (cases a) (simp add: individual_of_parts_def)
qed

lemma group_of_parts:
  "push_bit 11 (ucast (main_group g)) OR push_bit 8 (ucast (middle_group g)) OR ucast (sub_group g) = ga_value g"
  (is "?w = _")
proof -
  have "bit ?w n = bit (ga_value g) n" if "n < 16" for n
    using that by (cases "n < 11"; cases "n < 8")
      (simp_all add: main_group_def middle_group_def sub_group_def address_masks bit_simps less_diff_conv2
        mask_eq_exp_minus_1 [of 8, where 'a = "16 word", simplified, symmetric])
  then show ?thesis by (intro bit_word_eqI) simp
qed

lemma group_of_parts2:
  "push_bit 11 (ucast (main_group g)) OR sub_group_two_level g = ga_value g"
  (is "?w = _")
proof -
  have "bit ?w n = bit (ga_value g) n" if "n < 16" for n
    using that by (cases "n < 11")
      (simp_all add: main_group_def sub_group_two_level_def address_masks bit_simps less_diff_conv2)
  then show ?thesis by (intro bit_word_eqI) simp
qed
lemma group_make_parts:
  "group_make3 (ucast (main_group g)) (ucast (middle_group g)) (ucast (sub_group g)) = Inr g"
  "group_make2 (ucast (main_group g)) (sub_group_two_level g) = Inr g"
  using address_parts_less(3,4,5) [of g] unat_byte_less [of "sub_group g"]
  by (auto simp: group_make3_def group_make2_def group_of_parts group_of_parts2 word_less_nat_alt
    max_main_def max_middle_def max_sub_three_level_def max_sub_two_level_def)

lemma not_decimal_separators [simp]: "\<not> is_decimal CHR ''.''" "\<not> is_decimal CHR ''/''"
  by (simp_all add: is_decimal_def)

lemma read_decimal_text:
  assumes "drop offset str = decimal_text n @ rest" "n \<le> limit" "rest = [] \<or> \<not> is_decimal (hd rest)"
  shows "read_decimal str offset limit = Inr (word_of_nat n, offset + length (decimal_text n))"
  using read_decimal_printed [of offset str n rest limit] assms by (simp add: decimal_text_def)

lemma expect_separator_text:
  "drop offset str = c # rest \<Longrightarrow> expect_separator str offset c = Inr (offset + 1)"
  using hd_drop_conv_nth [of offset str]
  by (cases "offset < length str") (auto simp: expect_separator_def)

locale address_text =
  fixes shown :: "'a \<Rightarrow> string"
    and format :: "'a \<Rightarrow> string \<Rightarrow> nat result \<times> string"
    and to_string :: "'a \<Rightarrow> string"
    and parse :: "string \<Rightarrow> 'a result"
  assumes shown_fits: "length (shown a) \<le> max_address_text_size"
    and format_shown: "max_address_text_size \<le> length dest \<Longrightarrow>
      format a dest = (Inr (length (shown a)), write_at dest 0 (shown a))"
    and format_small: "length dest < max_address_text_size \<Longrightarrow> format a dest = (Inl Invalid_length, dest)"
    and to_string_format: "to_string a =
      (let (size, str) = format a (replicate max_address_text_size CHR 0x00)
       in take (case size of Inl _ \<Rightarrow> 0 | Inr n \<Rightarrow> n) str)"
    and parse_shown: "parse (shown a) = Inr a"
begin

lemma to_string_shown: "to_string a = shown a"
  by (simp add: to_string_format format_shown)

lemma parse_to_string: "parse (to_string a) = Inr a"
  by (simp add: to_string_shown parse_shown)

lemma format_in_bounds: "length (snd (format a dest)) = length dest"
  using shown_fits [of a]
  by (cases "length dest < max_address_text_size") (simp_all add: format_small format_shown)

lemma to_string_inject: "to_string a = to_string b \<longleftrightarrow> a = b"
  by (metis parse_to_string sum.inject(2))

end

interpretation individual_shown: address_text individual_text individual_format individual_to_string
  individual_parse
proof
  fix a dest
  have len: "length (individual_text a) \<le> max_address_text_size"
    using length_decimal_text_le [of "unat (area a)" 1] length_decimal_text_le [of "unat (line a)" 1]
      length_decimal_text_le [of "unat (device a)" 2] address_parts_less(1,2) [of a]
      unat_byte_less [of "device a"]
    by (simp add: individual_text_def max_address_text_size_def)
  show "length (individual_text a) \<le> max_address_text_size" by fact
  show "individual_format a dest = (Inr (length (individual_text a)), write_at dest 0 (individual_text a))"
    if "max_address_text_size \<le> length dest"
    using that len
    by (simp add: individual_format_def append_decimal_text individual_text_def write_at_chain)
  show "individual_parse (individual_text a) = Inr a"
    using address_parts_less(1,2) [of a] unat_byte_less [of "device a"]
    by (simp add: individual_parse_def individual_text_def read_decimal_text expect_separator_text 
      max_area_def max_line_def max_device_def individual_of_parts_parts
      read_decimal_text [where n = "unat (area a)" and rest = "CHR ''.'' # decimal_text (unat (line a)) @ ''.'' @ decimal_text (unat (device a))"]
 expect_separator_text [where rest = "decimal_text (unat (line a)) @ ''.'' @ decimal_text (unat (device a))"]
      read_decimal_text [where n = "unat (line a)" and rest = "CHR ''.'' # decimal_text (unat (device a))"]
 expect_separator_text [where rest = "decimal_text (unat (device a))"]
      read_decimal_text [where n = "unat (device a)" and rest = "[]"]
)
qed (simp_all add: individual_format_def individual_to_string_def)

lemma group_text_fits: "length (group_text style g) \<le> max_address_text_size"
  using length_decimal_text_le [of "unat (main_group g)" 1] length_decimal_text_le [of "unat (middle_group g)" 0]
    length_decimal_text_le [of "unat (sub_group g)" 2] length_decimal_text_le [of "unat (sub_group_two_level g)" 3]
    length_decimal_text_le [of "unat (ga_value g)" 4] address_parts_less(3,4,5) [of g]
    unat_byte_less [of "sub_group g"] unat_u16_less [of "ga_value g"]
  by (cases style) (simp_all add: max_address_text_size_def)

lemma group_parse_free: "group_parse (group_text Free g) = Inr g"
  using unat_u16_less [of "ga_value g"]
  by (simp add: group_parse_def read_decimal_text [where n = "unat (ga_value g)" and rest = "[]"])

lemma group_parse_two_level: "group_parse (group_text Two_level g) = Inr g"
  using address_parts_less(3,5) [of g]
  by (simp add: group_parse_def max_sub_two_level_def group_make_parts
    read_decimal_text [where n = "unat (main_group g)"
      and rest = "CHR ''/'' # decimal_text (unat (sub_group_two_level g))"]
    expect_separator_text [where rest = "decimal_text (unat (sub_group_two_level g))"]
    read_decimal_text [where n = "unat (sub_group_two_level g)" and rest = "[]"])

lemma group_parse_three_level: "group_parse (group_text Three_level g) = Inr g"
  using address_parts_less(3,4) [of g]
  by (simp add: group_parse_def max_sub_two_level_def max_sub_three_level_def group_make_parts
    read_decimal_text [where n = "unat (main_group g)"
      and rest = "CHR ''/'' # decimal_text (unat (middle_group g)) @ ''/'' @ decimal_text (unat (sub_group g))"]
    expect_separator_text [where rest = "decimal_text (unat (middle_group g)) @ ''/'' @ decimal_text (unat (sub_group g))"]
    read_decimal_text [where n = "unat (middle_group g)" and rest = "CHR ''/'' # decimal_text (unat (sub_group g))"]
    expect_separator_text [where rest = "decimal_text (unat (sub_group g))"]
    read_decimal_text [where n = "unat (sub_group g)" and rest = "[]"])

lemma group_parse_text: "group_parse (group_text style g) = Inr g"
  by (cases style) (simp_all only: group_parse_free group_parse_two_level group_parse_three_level)

interpretation group_shown: address_text "group_text style" "\<lambda>g. group_format g style"
  "\<lambda>g. group_to_string g style" group_parse for style
proof
  fix g dest
  show "length (group_text style g) \<le> max_address_text_size" by (rule group_text_fits)
  show "group_format g style dest = (Inr (length (group_text style g)), write_at dest 0 (group_text style g))"
    if "max_address_text_size \<le> length dest"
    using that group_text_fits [of style g]
    by (cases style) (simp_all add: group_format_def append_decimal_text write_at_chain)
  show "group_parse (group_text style g) = Inr g" by (rule group_parse_text)
qed (simp_all add: group_format_def group_to_string_def)

lemma parts_of_individual:
  "area (individual_of_parts r l d) = take_bit 4 r" "line (individual_of_parts r l d) = take_bit 4 l"
  "device (individual_of_parts r l d) = d"
proof -
  show "area (individual_of_parts r l d) = take_bit 4 r"
    by (rule bit_word_eqI) (auto simp: individual_of_parts_def area_def address_masks bit_simps less_diff_conv2)
  show "line (individual_of_parts r l d) = take_bit 4 l"
    by (rule bit_word_eqI) (auto simp: individual_of_parts_def line_def address_masks bit_simps less_diff_conv2)
  show "device (individual_of_parts r l d) = d"
    by (rule bit_word_eqI) (auto simp: individual_of_parts_def device_def address_masks bit_simps less_diff_conv2)
qed

lemma ucast_small: "(r :: u16) \<le> 15 \<Longrightarrow> ucast (take_bit 4 (ucast r :: byte)) = r"
  "r \<le> 255 \<Longrightarrow> ucast (ucast r :: byte) = r"
  by (simp_all add: word_le_nat_alt word_unat_eq_iff unsigned_ucast_eq unsigned_take_bit_eq take_bit_nat_eq_self_iff)

lemma individual_make_iff:
  "individual_make r l d = Inr a \<longleftrightarrow>
     r \<le> 15 \<and> l \<le> 15 \<and> d \<le> 255 \<and> ucast (area a) = r \<and> ucast (line a) = l \<and> ucast (device a) = d"
  (is "_ \<longleftrightarrow> ?R")
proof
  assume "individual_make r l d = Inr a"
  then show ?R
    by (auto simp: individual_make_def parts_of_individual ucast_small not_less max_area_def max_line_def
      max_device_def split: if_splits)
next
  assume ?R
  then show "individual_make r l d = Inr a"
    using individual_of_parts_parts [of a]
    by (auto simp: individual_make_def not_less max_area_def max_line_def max_device_def)
qed

subsection \<open>Properties\<close>

text \<open>
  C39: an individual address survives printing and parsing, and printing writes inside the
  caller's buffer whatever its size.
\<close>

theorem individual_address_roundtrip:
  "individual_parse (individual_to_string a) = Inr a \<and>
   length (snd (individual_format a dest)) = length dest"
  by (simp add: individual_shown.parse_to_string individual_shown.format_in_bounds)

text \<open>
  A group address survives printing and parsing in each of the three textual styles, and
  printing writes inside the caller's buffer whatever its size.
\<close>

theorem group_address_roundtrip:
  "group_parse (group_to_string g style) = Inr g \<and>
   length (snd (group_format g style dest)) = length dest"
  by (simp add: group_shown.parse_to_string group_shown.format_in_bounds)

text \<open>
  \<open>individual_address::make\<close> accepts exactly the in-range components, and the accessors of
  the address it returns give those components back.
\<close>

theorem individual_make_exact:
  "individual_make r l d = Inr a \<longleftrightarrow>
     r \<le> 15 \<and> l \<le> 15 \<and> d \<le> 255 \<and> ucast (area a) = r \<and> ucast (line a) = l \<and> ucast (device a) = d"
  by (rule individual_make_iff)

end
