(* ===== verification/Knx_Cemi.thy ===== *)
theory Knx_Cemi
  imports Knx_Address
begin

text \<open>
  The Common External Message Interface after \<open>knx/cemi.hpp\<close>, \<open>knx/cemi_frame.hpp\<close>,
  \<open>knx/apdu_payload.hpp\<close> and \<open>knx/property_frame.hpp\<close>: L_Data messages and the device management
  property services.

  \<open>cemi_message_code\<close> and \<open>apci\<close> are C++ enumerations with a fixed underlying type which the
  decoders produce by \<open>static_cast\<close> from received octets, so every value of that type can occur;
  they are words with named constants.  Enumerations that only take their named values are
  datatypes.  A decoded frame names its payload by offset and size into the buffer it was decoded
  from, exactly as in the code; \<open>cemi_payload\<close> maps it back.
\<close>

subsection \<open>Message codes, priorities, services\<close>

type_synonym cemi_message_code = byte

definition l_busmon_ind :: cemi_message_code where "l_busmon_ind = 0x2B"
definition l_raw_req :: cemi_message_code where "l_raw_req = 0x10"
definition l_raw_ind :: cemi_message_code where "l_raw_ind = 0x2D"
definition l_raw_con :: cemi_message_code where "l_raw_con = 0x2F"
definition l_data_req :: cemi_message_code where "l_data_req = 0x11"
definition l_data_con :: cemi_message_code where "l_data_con = 0x2E"
definition l_data_ind :: cemi_message_code where "l_data_ind = 0x29"
definition l_poll_data_req :: cemi_message_code where "l_poll_data_req = 0x13"
definition l_poll_data_con :: cemi_message_code where "l_poll_data_con = 0x25"
definition m_prop_read_req :: cemi_message_code where "m_prop_read_req = 0xFC"
definition m_prop_read_con :: cemi_message_code where "m_prop_read_con = 0xFB"
definition m_prop_write_req :: cemi_message_code where "m_prop_write_req = 0xF6"
definition m_prop_write_con :: cemi_message_code where "m_prop_write_con = 0xF5"
definition m_prop_info_ind :: cemi_message_code where "m_prop_info_ind = 0xF7"
definition m_reset_req :: cemi_message_code where "m_reset_req = 0xF1"
definition m_reset_ind :: cemi_message_code where "m_reset_ind = 0xF0"

datatype priority = System | Normal | Urgent | Low

primrec priority_octet :: "priority \<Rightarrow> byte" where
  "priority_octet System = 0"
| "priority_octet Normal = 1"
| "priority_octet Urgent = 2"
| "priority_octet Low = 3"

definition priority_of :: "byte \<Rightarrow> priority" where
  "priority_of b = (if b = 0 then System else if b = 1 then Normal else if b = 2 then Urgent else Low)"

datatype address_type = Individual_type | Group_type

type_synonym apci = u16

definition group_value_read :: apci where "group_value_read = 0x000"
definition group_value_response :: apci where "group_value_response = 0x040"
definition group_value_write :: apci where "group_value_write = 0x080"

subsection \<open>Decoded L_Data messages\<close>

record cemi_frame =
  cf_message_code :: cemi_message_code
  cf_additional_info_length :: byte
  cf_control_field_1 :: byte
  cf_control_field_2 :: byte
  cf_source :: individual_address
  cf_destination :: u16
  cf_data_length :: byte
  cf_transport_control :: byte
  cf_application_service :: apci
  cf_compact_value :: byte
  cf_payload_offset :: u16
  cf_payload_size :: u16

definition standard_frame_mask :: byte where "standard_frame_mask = 0x80"
definition repeat_mask :: byte where "repeat_mask = 0x20"
definition broadcast_mask :: byte where "broadcast_mask = 0x10"
definition priority_mask :: byte where "priority_mask = 0x0C"
definition acknowledge_mask :: byte where "acknowledge_mask = 0x02"
definition confirm_mask :: byte where "confirm_mask = 0x01"
definition address_type_mask :: byte where "address_type_mask = 0x80"
definition hop_count_mask :: byte where "hop_count_mask = 0x70"
definition extended_format_mask :: byte where "extended_format_mask = 0x0F"

definition standard_frame :: "cemi_frame \<Rightarrow> bool" where
  "standard_frame f \<longleftrightarrow> cf_control_field_1 f AND standard_frame_mask \<noteq> 0"

definition repeat_flag :: "cemi_frame \<Rightarrow> bool" where
  "repeat_flag f \<longleftrightarrow> cf_control_field_1 f AND repeat_mask \<noteq> 0"

definition repetition :: "cemi_frame \<Rightarrow> bool" where
  "repetition f \<longleftrightarrow> \<not> repeat_flag f"

definition frame_broadcast :: "cemi_frame \<Rightarrow> bool" where
  "frame_broadcast f \<longleftrightarrow> cf_control_field_1 f AND broadcast_mask \<noteq> 0"

definition telegram_priority :: "cemi_frame \<Rightarrow> priority" where
  "telegram_priority f = priority_of (drop_bit 2 (cf_control_field_1 f AND priority_mask))"

definition acknowledge_requested :: "cemi_frame \<Rightarrow> bool" where
  "acknowledge_requested f \<longleftrightarrow> cf_control_field_1 f AND acknowledge_mask \<noteq> 0"

definition confirm_error :: "cemi_frame \<Rightarrow> bool" where
  "confirm_error f \<longleftrightarrow> cf_control_field_1 f AND confirm_mask \<noteq> 0"

definition frame_address_type :: "cemi_frame \<Rightarrow> address_type" where
  "frame_address_type f =
     (if cf_control_field_2 f AND address_type_mask \<noteq> 0 then Group_type else Individual_type)"

definition hop_count :: "cemi_frame \<Rightarrow> byte" where
  "hop_count f = drop_bit 4 (cf_control_field_2 f AND hop_count_mask)"

definition extended_frame_format :: "cemi_frame \<Rightarrow> byte" where
  "extended_frame_format f = cf_control_field_2 f AND extended_format_mask"

definition group_addressed :: "cemi_frame \<Rightarrow> bool" where
  "group_addressed f \<longleftrightarrow> frame_address_type f = Group_type"

definition group_destination :: "cemi_frame \<Rightarrow> group_address" where
  "group_destination f = Group_address (cf_destination f)"

definition individual_destination :: "cemi_frame \<Rightarrow> individual_address" where
  "individual_destination f = Individual_address (cf_destination f)"

definition frame_compact :: "cemi_frame \<Rightarrow> bool" where
  "frame_compact f \<longleftrightarrow> cf_payload_size f = 0"

definition unnumbered :: "cemi_frame \<Rightarrow> bool" where
  "unnumbered f \<longleftrightarrow> cf_transport_control f AND 0xC0 = 0"

definition numbered :: "cemi_frame \<Rightarrow> bool" where
  "numbered f \<longleftrightarrow> cf_transport_control f AND 0xC0 = 0x40"

definition frame_sequence_number :: "cemi_frame \<Rightarrow> byte" where
  "frame_sequence_number f = drop_bit 2 (cf_transport_control f AND 0x3C)"

definition cemi_payload :: "cemi_frame \<Rightarrow> bytes \<Rightarrow> bytes" where
  "cemi_payload f bs =
     (if cf_payload_size f = 0 \<or> unat (cf_payload_offset f) + unat (cf_payload_size f) > length bs
      then [] else subspan bs (unat (cf_payload_offset f)) (unat (cf_payload_size f)))"

subsection \<open>Application payloads\<close>

record apdu_payload =
  ap_octets :: bytes
  ap_compact_value :: byte
  ap_compacted :: bool

definition max_octets :: nat where "max_octets = 254"
definition compact_mask :: byte where "compact_mask = 0x3F"

definition apdu_default :: apdu_payload where
  "apdu_default = \<lparr> ap_octets = [], ap_compact_value = 0, ap_compacted = True \<rparr>"

definition apdu_compact :: "byte \<Rightarrow> apdu_payload" where
  "apdu_compact v = apdu_default\<lparr> ap_compact_value := v AND compact_mask \<rparr>"

definition apdu_extended :: "bytes \<Rightarrow> apdu_payload result" where
  "apdu_extended octets =
     (if length octets > max_octets then Inl Payload_too_large
      else if octets = [] then Inr apdu_default
      else Inr (apdu_default\<lparr> ap_octets := octets, ap_compacted := False \<rparr>))"

definition apdu_data_length :: "apdu_payload \<Rightarrow> byte" where
  "apdu_data_length p = (if ap_compacted p then 1 else word_of_nat (length (ap_octets p) + 1))"

subsection \<open>L_Data messages\<close>

record l_data_options =
  opt_priority :: priority
  opt_hop_count :: byte
  opt_acknowledge_request :: bool
  opt_repeat :: bool
  opt_broadcast :: bool

definition default_options :: l_data_options where
  "default_options = \<lparr> opt_priority = Low, opt_hop_count = 6, opt_acknowledge_request = False,
     opt_repeat = True, opt_broadcast = True \<rparr>"

definition prologue_size :: nat where "prologue_size = 2"
definition link_header_size :: nat where "link_header_size = 7"
definition apci_size :: nat where "apci_size = 2"
definition min_l_data_size :: nat where "min_l_data_size = prologue_size + link_header_size + apci_size"
definition max_l_data_size :: nat where "max_l_data_size = min_l_data_size + max_octets"
definition max_additional_info_size :: nat where "max_additional_info_size = 0xFF"
definition max_message_size :: nat where "max_message_size = max_l_data_size + max_additional_info_size"
definition max_standard_data_length :: byte where "max_standard_data_length = 0x0F"
definition tpci_unnumbered_data :: byte where "tpci_unnumbered_data = 0"
definition tpci_mask :: byte where "tpci_mask = 0xFC"
definition apci_code_mask :: u16 where "apci_code_mask = 0x03C0"
definition apci_escape_user :: u16 where "apci_escape_user = 0x02C0"
definition apci_escape_management :: u16 where "apci_escape_management = 0x03C0"

definition encoded_size :: "nat \<Rightarrow> byte \<Rightarrow> nat" where
  "encoded_size additional_info_size data_length =
     prologue_size + additional_info_size + link_header_size + 1 + unat data_length"

definition is_l_data :: "cemi_message_code \<Rightarrow> bool" where
  "is_l_data code \<longleftrightarrow> code = l_data_req \<or> code = l_data_con \<or> code = l_data_ind"

definition service_of :: "u16 \<Rightarrow> apci" where
  "service_of raw =
     (let code = raw AND apci_code_mask;
          escaped = code = apci_escape_user \<or> code = apci_escape_management
      in if escaped then raw else code)"

definition make_control_field_1 :: "l_data_options \<Rightarrow> byte \<Rightarrow> byte" where
  "make_control_field_1 options data_length =
     (let val = (if data_length \<le> max_standard_data_length then standard_frame_mask else 0);
          val = (if opt_repeat options then val OR repeat_mask else val);
          val = (if opt_broadcast options then val OR broadcast_mask else val);
          val = val OR (push_bit 2 (priority_octet (opt_priority options)) AND priority_mask)
      in if opt_acknowledge_request options then val OR acknowledge_mask else val)"

definition make_control_field_2 :: "address_type \<Rightarrow> byte \<Rightarrow> byte" where
  "make_control_field_2 destination_type hops =
     (let val = (if destination_type = Group_type then address_type_mask else 0)
      in val OR (push_bit 4 hops AND hop_count_mask))"

record l_data_message =
  lm_code :: cemi_message_code
  lm_source :: individual_address
  lm_destination :: u16
  lm_destination_type :: address_type
  lm_service :: apci
  lm_payload :: apdu_payload
  lm_options :: l_data_options

definition default_message :: l_data_message where
  "default_message = \<lparr> lm_code = l_data_req, lm_source = Individual_address 0, lm_destination = 0,
     lm_destination_type = Group_type, lm_service = 0, lm_payload = apdu_default,
     lm_options = default_options \<rparr>"

definition write_l_data :: "bytes \<Rightarrow> l_data_message \<Rightarrow> byte \<Rightarrow> bytes" where
  "write_l_data dest message data_length =
     (let raw_service = lm_service message;
          dest = write_at dest 0
            [lm_code message, 0,
             make_control_field_1 (lm_options message) data_length,
             make_control_field_2 (lm_destination_type message) (opt_hop_count (lm_options message)),
             hi8 (ia_value (lm_source message)), lo8 (ia_value (lm_source message)),
             hi8 (lm_destination message), lo8 (lm_destination message),
             data_length,
             tpci_unnumbered_data OR ucast (drop_bit 8 raw_service AND 0x03),
             lo8 raw_service]
      in if ap_compacted (lm_payload message)
         then write_at dest 10 [dest ! 10 OR ap_compact_value (lm_payload message)]
         else write_at dest min_l_data_size (ap_octets (lm_payload message)))"

definition cemi_encode :: "bytes \<Rightarrow> l_data_message \<Rightarrow> nat result \<times> bytes" where
  "cemi_encode dest message =
     (if \<not> is_l_data (lm_code message) then (Inl Unsupported_message_code, dest)
      else if length (ap_octets (lm_payload message)) > max_octets then (Inl Payload_too_large, dest)
      else if opt_hop_count (lm_options message) > 0x07 then (Inl Invalid_configuration, dest)
      else
        let data_length = apdu_data_length (lm_payload message);
            size = encoded_size 0 data_length
        in if length dest < size then (Inl Invalid_length, dest)
           else (Inr size, write_l_data dest message data_length))"

record group_telegram =
  gt_destination :: group_address
  gt_payload :: apdu_payload
  gt_source :: individual_address
  gt_options :: l_data_options

definition encode_group_value_write :: "bytes \<Rightarrow> group_telegram \<Rightarrow> nat result \<times> bytes" where
  "encode_group_value_write dest telegram =
     cemi_encode dest (default_message\<lparr> lm_source := gt_source telegram,
       lm_destination := ga_value (gt_destination telegram), lm_service := group_value_write,
       lm_payload := gt_payload telegram, lm_options := gt_options telegram \<rparr>)"

definition encode_group_value_read ::
    "bytes \<Rightarrow> group_address \<Rightarrow> individual_address \<Rightarrow> l_data_options \<Rightarrow> nat result \<times> bytes" where
  "encode_group_value_read dest destination source options =
     cemi_encode dest (default_message\<lparr> lm_source := source,
       lm_destination := ga_value destination, lm_service := group_value_read,
       lm_options := options \<rparr>)"

definition encode_group_value_response :: "bytes \<Rightarrow> group_telegram \<Rightarrow> nat result \<times> bytes" where
  "encode_group_value_response dest telegram =
     cemi_encode dest (default_message\<lparr> lm_source := gt_source telegram,
       lm_destination := ga_value (gt_destination telegram), lm_service := group_value_response,
       lm_payload := gt_payload telegram, lm_options := gt_options telegram \<rparr>)"

definition message_code :: "bytes \<Rightarrow> cemi_message_code result" where
  "message_code bs = (if bs = [] then Inl Malformed_frame else Inr (bs ! 0))"

definition read_link_header :: "bytes \<Rightarrow> nat \<Rightarrow> cemi_message_code \<Rightarrow> byte \<Rightarrow> cemi_frame" where
  "read_link_header bs link_offset code additional_info_length =
     \<lparr> cf_message_code = code,
       cf_additional_info_length = additional_info_length,
       cf_control_field_1 = bs ! link_offset,
       cf_control_field_2 = bs ! (link_offset + 1),
       cf_source = Individual_address (be16 (bs ! (link_offset + 2)) (bs ! (link_offset + 3))),
       cf_destination = be16 (bs ! (link_offset + 4)) (bs ! (link_offset + 5)),
       cf_data_length = bs ! (link_offset + 6),
       cf_transport_control = bs ! (link_offset + 7) AND tpci_mask,
       cf_application_service = 0, cf_compact_value = 0, cf_payload_offset = 0, cf_payload_size = 0 \<rparr>"

definition cemi_decode :: "bytes \<Rightarrow> cemi_frame result" where
  "cemi_decode bs =
     (if length bs < prologue_size then Inl Malformed_frame
      else
        let code = bs ! 0
        in if \<not> is_l_data code then Inl Unsupported_message_code
           else
             let additional_info_length = bs ! 1;
                 link_offset = prologue_size + unat additional_info_length
             in if link_offset + link_header_size + apci_size > length bs then Inl Malformed_frame
                else
                  let data_length = bs ! (link_offset + 6)
                  in if data_length = 0 then Inl Unsupported_service
                     else if encoded_size (unat additional_info_length) data_length \<noteq> length bs
                     then Inl Invalid_length
                     else
                       let raw_service = be16 (bs ! (link_offset + 7) AND 0x03) (bs ! (link_offset + 8));
                           decoded = (read_link_header bs link_offset code additional_info_length)
                             \<lparr> cf_application_service := service_of raw_service \<rparr>
                       in if data_length = 1
                          then Inr (decoded\<lparr> cf_compact_value := ucast (raw_service AND ucast compact_mask) \<rparr>)
                          else Inr (decoded\<lparr>
                            cf_payload_offset := word_of_nat (link_offset + link_header_size + apci_size),
                            cf_payload_size := word_of_nat (unat data_length - 1) \<rparr>))"

definition additional_info :: "cemi_frame \<Rightarrow> bytes \<Rightarrow> bytes" where
  "additional_info decoded bs =
     (if cf_additional_info_length decoded = 0 \<or>
         prologue_size + unat (cf_additional_info_length decoded) > length bs
      then [] else subspan bs prologue_size (unat (cf_additional_info_length decoded)))"

subsection \<open>Device management property services\<close>

record property_frame =
  pf_message_code :: cemi_message_code
  pf_object_type :: u16
  pf_object_instance :: byte
  pf_property_id :: byte
  pf_element_count :: byte
  pf_start_index :: u16
  pf_data_offset :: u16
  pf_data_size :: u16

definition failed :: "property_frame \<Rightarrow> bool" where
  "failed p \<longleftrightarrow> (pf_message_code p = m_prop_read_con \<or> pf_message_code p = m_prop_write_con) \<and>
     pf_element_count p = 0"

definition property_data :: "property_frame \<Rightarrow> bytes \<Rightarrow> bytes" where
  "property_data p bs =
     (if pf_data_size p = 0 \<or> unat (pf_data_offset p) + unat (pf_data_size p) > length bs
      then [] else subspan bs (unat (pf_data_offset p)) (unat (pf_data_size p)))"

definition property_header_size :: nat where "property_header_size = 7"
definition max_property_elements :: byte where "max_property_elements = 0x0F"
definition max_property_start_index :: u16 where "max_property_start_index = 0x0FFF"

definition is_property_service :: "cemi_message_code \<Rightarrow> bool" where
  "is_property_service code \<longleftrightarrow> code = m_prop_read_req \<or> code = m_prop_read_con \<or>
     code = m_prop_write_req \<or> code = m_prop_write_con \<or> code = m_prop_info_ind"

definition is_reset :: "cemi_message_code \<Rightarrow> bool" where
  "is_reset code \<longleftrightarrow> code = m_reset_req \<or> code = m_reset_ind"

definition encode_property :: "bytes \<Rightarrow> property_frame \<Rightarrow> bytes \<Rightarrow> nat result \<times> bytes" where
  "encode_property dest p dat =
     (if \<not> is_property_service (pf_message_code p) then (Inl Unsupported_message_code, dest)
      else if pf_element_count p > max_property_elements \<or> pf_start_index p > max_property_start_index
      then (Inl Invalid_configuration, dest)
      else if length dat > max_octets then (Inl Payload_too_large, dest)
      else
        let size = property_header_size + length dat
        in if length dest < size then (Inl Invalid_length, dest)
           else
             let dest = write_at dest 0
                   [pf_message_code p, hi8 (pf_object_type p), lo8 (pf_object_type p),
                    pf_object_instance p, pf_property_id p,
                    push_bit 4 (pf_element_count p) OR ucast (drop_bit 8 (pf_start_index p) AND 0x0F),
                    lo8 (pf_start_index p)];
                 dest = write_at dest property_header_size dat
             in (Inr size, dest))"

record property_selector =
  ps_object_type :: u16
  ps_object_instance :: byte
  ps_property_id :: byte
  ps_element_count :: byte
  ps_start_index :: u16

definition property_request :: "cemi_message_code \<Rightarrow> property_selector \<Rightarrow> property_frame" where
  "property_request code p =
     \<lparr> pf_message_code = code, pf_object_type = ps_object_type p,
       pf_object_instance = ps_object_instance p, pf_property_id = ps_property_id p,
       pf_element_count = ps_element_count p, pf_start_index = ps_start_index p,
       pf_data_offset = 0, pf_data_size = 0 \<rparr>"

definition encode_property_read :: "bytes \<Rightarrow> property_selector \<Rightarrow> nat result \<times> bytes" where
  "encode_property_read dest p = encode_property dest (property_request m_prop_read_req p) []"

definition encode_property_write :: "bytes \<Rightarrow> property_selector \<Rightarrow> bytes \<Rightarrow> nat result \<times> bytes" where
  "encode_property_write dest p dat = encode_property dest (property_request m_prop_write_req p) dat"

definition encode_reset :: "bytes \<Rightarrow> cemi_message_code \<Rightarrow> nat result \<times> bytes" where
  "encode_reset dest code =
     (if \<not> is_reset code then (Inl Unsupported_message_code, dest)
      else if dest = [] then (Inl Invalid_length, dest)
      else (Inr 1, write_at dest 0 [code]))"

definition decode_property :: "bytes \<Rightarrow> property_frame result" where
  "decode_property bs =
     (if bs = [] then Inl Malformed_frame
      else
        let code = bs ! 0
        in if \<not> is_property_service code then Inl Unsupported_message_code
           else if length bs < property_header_size then Inl Malformed_frame
           else
             let decoded =
                   \<lparr> pf_message_code = code, pf_object_type = be16 (bs ! 1) (bs ! 2),
                     pf_object_instance = bs ! 3, pf_property_id = bs ! 4,
                     pf_element_count = drop_bit 4 (bs ! 5) AND 0x0F,
                     pf_start_index = be16 (bs ! 5 AND 0x0F) (bs ! 6),
                     pf_data_offset = 0, pf_data_size = 0 \<rparr>;
                 data_size = length bs - property_header_size
             in if data_size \<noteq> 0
                then Inr (decoded\<lparr> pf_data_offset := word_of_nat property_header_size,
                  pf_data_size := word_of_nat data_size \<rparr>)
                else Inr decoded)"

subsection \<open>What a message means on the wire\<close>

text \<open>
  \<open>apdu_ok\<close> is the class invariant of \<open>apdu_payload\<close>, which only its constructors build.
  \<open>message_ok\<close> is what the encoder accepts and the wire format can represent: the service is a
  ten-bit code in the form \<open>service_of\<close> returns, and a compact value rides only on a service that
  leaves the six low bits free.  \<open>delivers\<close> says that a decoded frame shows everything the
  sender put into the message.
\<close>

definition apdu_ok :: "apdu_payload \<Rightarrow> bool" where
  "apdu_ok p \<longleftrightarrow>
     (if ap_compacted p then ap_octets p = [] \<and> ap_compact_value p AND compact_mask = ap_compact_value p
      else ap_octets p \<noteq> [] \<and> length (ap_octets p) \<le> max_octets \<and> ap_compact_value p = 0)"

definition escaped_service :: "apci \<Rightarrow> bool" where
  "escaped_service s \<longleftrightarrow> s AND apci_code_mask = apci_escape_user \<or> s AND apci_code_mask = apci_escape_management"

definition message_ok :: "l_data_message \<Rightarrow> bool" where
  "message_ok m \<longleftrightarrow> is_l_data (lm_code m) \<and> apdu_ok (lm_payload m) \<and> opt_hop_count (lm_options m) \<le> 7 \<and>
     lm_service m AND 0x3FF = lm_service m \<and> service_of (lm_service m) = lm_service m \<and>
     (ap_compacted (lm_payload m) \<longrightarrow> \<not> escaped_service (lm_service m))"

definition cemi_image :: "l_data_message \<Rightarrow> bytes" where
  "cemi_image m =
     (let dl = apdu_data_length (lm_payload m)
      in [lm_code m, 0, make_control_field_1 (lm_options m) dl,
          make_control_field_2 (lm_destination_type m) (opt_hop_count (lm_options m)),
          hi8 (ia_value (lm_source m)), lo8 (ia_value (lm_source m)),
          hi8 (lm_destination m), lo8 (lm_destination m), dl,
          ucast (drop_bit 8 (lm_service m) AND 0x03),
          lo8 (lm_service m) OR ap_compact_value (lm_payload m)] @ ap_octets (lm_payload m))"

definition delivers :: "l_data_message \<Rightarrow> cemi_frame \<Rightarrow> bytes \<Rightarrow> bool" where
  "delivers m f bs \<longleftrightarrow>
     cf_message_code f = lm_code m \<and> cf_source f = lm_source m \<and> cf_destination f = lm_destination m \<and>
     frame_address_type f = lm_destination_type m \<and> hop_count f = opt_hop_count (lm_options m) \<and>
     telegram_priority f = opt_priority (lm_options m) \<and>
     acknowledge_requested f = opt_acknowledge_request (lm_options m) \<and>
     repeat_flag f = opt_repeat (lm_options m) \<and> frame_broadcast f = opt_broadcast (lm_options m) \<and>
     standard_frame f = (apdu_data_length (lm_payload m) \<le> 15) \<and> unnumbered f \<and>
     cf_application_service f = lm_service m \<and> frame_compact f = ap_compacted (lm_payload m) \<and>
     cf_compact_value f = ap_compact_value (lm_payload m) \<and> cemi_payload f bs = ap_octets (lm_payload m)"

definition frame_of :: "l_data_message \<Rightarrow> cemi_frame" where
  "frame_of m =
     \<lparr> cf_message_code = lm_code m, cf_additional_info_length = 0,
       cf_control_field_1 = make_control_field_1 (lm_options m) (apdu_data_length (lm_payload m)),
       cf_control_field_2 = make_control_field_2 (lm_destination_type m) (opt_hop_count (lm_options m)),
       cf_source = lm_source m, cf_destination = lm_destination m,
       cf_data_length = apdu_data_length (lm_payload m), cf_transport_control = 0,
       cf_application_service = lm_service m, cf_compact_value = ap_compact_value (lm_payload m),
       cf_payload_offset = (if ap_compacted (lm_payload m) then 0 else 11),
       cf_payload_size = word_of_nat (length (ap_octets (lm_payload m))) \<rparr>"

definition property_ok :: "property_frame \<Rightarrow> bytes \<Rightarrow> bool" where
  "property_ok p dat \<longleftrightarrow> is_property_service (pf_message_code p) \<and> pf_element_count p \<le> 0x0F \<and>
     pf_start_index p \<le> 0x0FFF \<and> length dat \<le> max_octets"

definition property_image :: "property_frame \<Rightarrow> bytes \<Rightarrow> bytes" where
  "property_image p dat =
     [pf_message_code p, hi8 (pf_object_type p), lo8 (pf_object_type p), pf_object_instance p, pf_property_id p,
      push_bit 4 (pf_element_count p) OR ucast (drop_bit 8 (pf_start_index p) AND 0x0F),
      lo8 (pf_start_index p)] @ dat"

text \<open>A group write of the value one, used by the witnesses.\<close>

definition sample_message :: l_data_message where
  "sample_message = default_message\<lparr> lm_destination := 0x0901, lm_service := group_value_write,
     lm_payload := apdu_compact 1 \<rparr>"

subsection \<open>Lemmas\<close>

lemma apdu_constructors_ok:
  "apdu_ok apdu_default" "apdu_ok (apdu_compact v)" "apdu_extended octets = Inr p \<Longrightarrow> apdu_ok p"
  by (auto simp: apdu_ok_def apdu_default_def apdu_compact_def apdu_extended_def ac_simps split: if_splits)

lemma apdu_data_length_octets:
  assumes "apdu_ok p"
  shows "unat (apdu_data_length p) = 1 + length (ap_octets p)"
    and "(apdu_data_length p = 1) = ap_compacted p"
proof -
  show *: "unat (apdu_data_length p) = 1 + length (ap_octets p)"
    using assms by (auto simp: apdu_ok_def apdu_data_length_def max_octets_def 
      simp del: of_nat_Suc of_nat_add intro!: unat_byte_of_nat split: if_splits)
  show "(apdu_data_length p = 1) = ap_compacted p"
    using assms * by (auto simp: apdu_ok_def word_unat_eq_iff split: if_splits)
qed

lemma length_cemi_image: "length (cemi_image m) = 11 + length (ap_octets (lm_payload m))"
  by (simp add: cemi_image_def Let_def)

lemma cemi_encode_image:
  assumes "is_l_data (lm_code m)" "apdu_ok (lm_payload m)" "opt_hop_count (lm_options m) \<le> 7"
    and "length (cemi_image m) \<le> length dest"
  shows "cemi_encode dest m = (Inr (length (cemi_image m)), write_at dest 0 (cemi_image m))"
proof -
  let ?p = "lm_payload m" and ?dl = "apdu_data_length (lm_payload m)"
  have size: "encoded_size 0 ?dl = length (cemi_image m)"
    using apdu_data_length_octets [OF assms(2)]
    by (simp add: encoded_size_def length_cemi_image prologue_size_def link_header_size_def)
  have len: "length (ap_octets ?p) \<le> max_octets"
    using assms(2) by (auto simp: apdu_ok_def split: if_splits)
  have "write_l_data dest m ?dl = write_at dest 0 (cemi_image m)"
    using assms(2,4)
    by (auto simp: write_l_data_def cemi_image_def Let_def apdu_ok_def write_at_def tpci_unnumbered_data_def
      min_l_data_size_def prologue_size_def link_header_size_def apci_size_def nth_append
      numeral_eq_Suc split: if_splits)
  with assms size len show ?thesis by (simp add: cemi_encode_def Let_def not_less)
qed

lemma control_field_1:
  fixes f :: cemi_frame
  assumes "cf_control_field_1 f = make_control_field_1 opts dl"
  shows "telegram_priority f = opt_priority opts" "acknowledge_requested f = opt_acknowledge_request opts"
    "repeat_flag f = opt_repeat opts" "frame_broadcast f = opt_broadcast opts"
    "standard_frame f = (dl \<le> 15)"
  using assms
  by (cases "opt_priority opts"; simp add: make_control_field_1_def telegram_priority_def acknowledge_requested_def
    repeat_flag_def frame_broadcast_def standard_frame_def max_standard_data_length_def
    standard_frame_mask_def repeat_mask_def broadcast_mask_def priority_mask_def acknowledge_mask_def
    priority_of_def Let_def)+

lemma hop_octets: "(h :: byte) \<le> 7 \<Longrightarrow> h \<in> {0, 1, 2, 3, 4, 5, 6, 7}"
proof -
  assume "h \<le> 7"
  then have "unat h < 8" by (simp add: word_le_nat_alt)
  then have "unat h \<in> {0, 1, 2, 3, 4, 5, 6, 7}" by auto
  then show ?thesis by (auto simp: word_unat_eq_iff)
qed

lemma control_field_2:
  fixes f :: cemi_frame
  assumes "cf_control_field_2 f = make_control_field_2 ty h" "h \<le> 7"
  shows "frame_address_type f = ty" "hop_count f = h"
  using assms(1) hop_octets [OF assms(2)]
  by (cases ty; auto simp: make_control_field_2_def frame_address_type_def hop_count_def
    address_type_mask_def hop_count_mask_def)+

lemma apci_masks: "apci_code_mask = push_bit 6 (mask 4)" "compact_mask = mask 6" "(0x3FF :: u16) = mask 10"
  "(3 :: 'a::len word) = mask 2" "(0x3F :: 'a::len word) = mask 6"
  by (simp_all add: apci_code_mask_def compact_mask_def mask_eq_exp_minus_1 push_bit_eq_mult)

lemma raw_service_octets:
  "be16 (ucast (drop_bit 8 s AND 0x03) AND 0x03) (lo8 s OR v) = (s AND 0x3FF) OR ucast v"
  by (rule bit_word_eqI) (auto simp: be16_def lo8_def apci_masks octet_mask bit_simps)

lemma service_of_compact:
  assumes "service_of s = s" "\<not> escaped_service s" "v AND compact_mask = v"
  shows "service_of (s OR ucast v) = s" "ucast ((s OR ucast v) AND ucast compact_mask) = v"
proof -
  have s: "s AND apci_code_mask = s"
    using assms(1,2) by (simp add: service_of_def escaped_service_def Let_def)
  have sb: "bit s n \<Longrightarrow> 6 \<le> n \<and> n < 10" for n
    using arg_cong [OF s, of "\<lambda>w. bit w n"] by (auto simp: apci_masks bit_simps)
  have vb: "bit v n \<Longrightarrow> n < 6" for n
    using arg_cong [OF assms(3), of "\<lambda>w. bit w n"] by (auto simp: apci_masks bit_simps)
  have "(s OR ucast v) AND apci_code_mask = s"
    by (rule bit_word_eqI) (auto simp: apci_masks bit_simps dest: sb vb)
  then show "service_of (s OR ucast v) = s"
    using assms(2) s by (simp add: service_of_def escaped_service_def Let_def)
  show "ucast ((s OR ucast v) AND ucast compact_mask) = v"
    by (rule bit_word_eqI) (auto simp: apci_masks bit_simps dest: sb vb)
qed

lemmas cemi_sizes = prologue_size_def link_header_size_def apci_size_def encoded_size_def

lemma tpci_of_service: "ucast (drop_bit 8 (s :: u16) AND 3) AND tpci_mask = 0"
proof -
  have m: "tpci_mask = push_bit 2 (mask 6)" by (simp add: tpci_mask_def mask_eq_exp_minus_1 push_bit_eq_mult)
  show ?thesis unfolding m by (intro bit_word_eqI) (auto simp: apci_masks bit_simps)
qed

lemma cemi_decode_image:
  assumes "message_ok m"
  shows "cemi_decode (cemi_image m) = Inr (frame_of m)"
proof -
  let ?p = "lm_payload m" and ?s = "lm_service m"
  have p: "apdu_ok ?p" and code: "is_l_data (lm_code m)"
    and s: "service_of ?s = ?s" "?s AND 0x3FF = ?s" "ap_compacted ?p \<Longrightarrow> \<not> escaped_service ?s"
    using assms by (auto simp: message_ok_def)
  note dl = apdu_data_length_octets [OF p]
  have dl0: "apdu_data_length ?p \<noteq> 0" using dl(1) by auto
  show ?thesis
  proof (cases "ap_compacted ?p")
    case True
    then have "ap_compact_value ?p AND compact_mask = ap_compact_value ?p" "ap_octets ?p = []"
      using p by (auto simp: apdu_ok_def)
    with service_of_compact [OF s(1) s(3) [OF True]] show ?thesis using code dl dl0 True s
      by (simp add: cemi_decode_def cemi_image_def Let_def cemi_sizes read_link_header_def frame_of_def
        raw_service_octets tpci_of_service)
  next
    case False
    then have "ap_compact_value ?p = 0" using p by (auto simp: apdu_ok_def)
    then show ?thesis using code dl dl0 False s raw_service_octets [of ?s 0]
      by (simp add: cemi_decode_def cemi_image_def Let_def cemi_sizes read_link_header_def frame_of_def
        tpci_of_service)
  qed
qed

lemma frame_of_delivers:
  assumes "message_ok m"
  shows "delivers m (frame_of m) (cemi_image m)"
proof -
  let ?p = "lm_payload m"
  have p: "apdu_ok ?p" and hop: "opt_hop_count (lm_options m) \<le> 7"
    using assms by (auto simp: message_ok_def)
  have len: "length (ap_octets ?p) \<le> 254" "(length (ap_octets ?p) = 0) = ap_compacted ?p"
    using p by (auto simp: apdu_ok_def max_octets_def split: if_splits)
  then have size: "unat (word_of_nat (length (ap_octets ?p)) :: u16) = length (ap_octets ?p)"
    by (intro unat_u16_of_nat) simp
  have "(word_of_nat (length (ap_octets ?p)) = (0 :: u16)) = ap_compacted ?p"
    using size len(2) by (metis unat_eq_zero)
  moreover have "cemi_payload (frame_of m) (cemi_image m) = ap_octets ?p"
    using size len calculation
    by (auto simp: cemi_payload_def frame_of_def cemi_image_def Let_def subspan_def)
  ultimately show ?thesis
    using control_field_1 [of "frame_of m"] control_field_2 [of "frame_of m"] hop
    by (simp add: delivers_def frame_of_def frame_compact_def unnumbered_def)
qed

lemma cemi_decode_layout:
  assumes "cemi_decode bs = Inr f"
  shows "length bs = 10 + unat (cf_additional_info_length f) + unat (cf_data_length f)"
    "cf_data_length f \<noteq> 0" "is_l_data (cf_message_code f)"
    "cf_data_length f = 1 \<Longrightarrow> cf_payload_size f = 0"
    "cf_data_length f \<noteq> 1 \<Longrightarrow>
      unat (cf_payload_offset f) = 11 + unat (cf_additional_info_length f) \<and>
      unat (cf_payload_size f) = unat (cf_data_length f) - 1"
proof -
  have small1: "unat (11 + ucast b :: u16) = 11 + unat b" for b :: byte
    using less_trans [OF unat_byte_less, of 65525 b] unat_u16_of_nat [of "11 + unat b"] by simp
  have small2: "unat (ucast b - 1 :: u16) = unat b - Suc 0" if "b \<noteq> 0" for b :: byte
  proof -
    have "1 \<le> unat b" using that by (metis Suc_leI One_nat_def neq0_conv unat_eq_zero)
    then have "word_of_nat (unat b - 1) = (ucast b - 1 :: u16)" by (simp add: of_nat_diff)
    moreover have "unat b - 1 < 65536" using unat_byte_less [of b] by linarith
    ultimately show ?thesis using unat_u16_of_nat [of "unat b - 1"] by simp
  qed
  show "length bs = 10 + unat (cf_additional_info_length f) + unat (cf_data_length f)"
    "cf_data_length f \<noteq> 0" "is_l_data (cf_message_code f)"
    "cf_data_length f = 1 \<Longrightarrow> cf_payload_size f = 0"
    "cf_data_length f \<noteq> 1 \<Longrightarrow>
      unat (cf_payload_offset f) = 11 + unat (cf_additional_info_length f) \<and>
      unat (cf_payload_size f) = unat (cf_data_length f) - 1"
    using assms
    by (auto simp: cemi_decode_def Let_def cemi_sizes read_link_header_def small1 small2 split: if_splits)
qed

lemma cemi_decode_size:
  assumes "cemi_decode bs = Inr f"
  shows "11 \<le> length bs" "length bs \<le> 520"
proof -
  have "unat (cf_data_length f) \<noteq> 0" using cemi_decode_layout(2) [OF assms] by (simp add: unat_eq_zero)
  then show "11 \<le> length bs" "length bs \<le> 520"
    using cemi_decode_layout(1) [OF assms] unat_byte_le(1) [of "cf_data_length f"]
      unat_byte_le(1) [of "cf_additional_info_length f"] by linarith+
qed

lemma length_property_image: "length (property_image p dat) = 7 + length dat"
  by (simp add: property_image_def)

lemma encode_property_image:
  assumes "property_ok p dat" "length (property_image p dat) \<le> length dest"
  shows "encode_property dest p dat =
    (Inr (length (property_image p dat)), write_at dest 0 (property_image p dat))"
  using assms
  by (simp add: encode_property_def property_ok_def length_property_image Let_def property_header_size_def
    max_property_elements_def max_property_start_index_def not_less write_at_chain)
    (simp add: property_image_def)

lemma encode_property_rejects:
  assumes "\<not> (property_ok p dat \<and> length (property_image p dat) \<le> length dest)"
  shows "\<exists>e. encode_property dest p dat = (Inl e, dest)"
  using assms
  by (simp add: encode_property_def property_ok_def length_property_image Let_def property_header_size_def
    max_property_elements_def max_property_start_index_def not_less linorder_not_le) (auto simp: not_le)

lemma property_octet5:
  assumes "n \<le> 0x0F" "(i :: u16) \<le> 0x0FFF"
  shows "drop_bit 4 (push_bit 4 n OR ucast (drop_bit 8 i AND 0x0F)) AND 0x0F = (n :: byte)"
    "be16 ((push_bit 4 n OR ucast (drop_bit 8 i AND 0x0F)) AND 0x0F) (lo8 i) = i"
proof -
  have small: "unat n < 2 ^ 4" "unat i < 2 ^ 12" using assms by (simp_all add: word_le_nat_alt)
  note n = bit_small [OF small(1)] and i = bit_small [OF small(2)]
  show "drop_bit 4 (push_bit 4 n OR ucast (drop_bit 8 i AND 0x0F)) AND 0x0F = (n :: byte)"
    by (rule bit_word_eqI) (auto simp: nibble_masks bit_simps dest: n)
  show "be16 ((push_bit 4 n OR ucast (drop_bit 8 i AND 0x0F)) AND 0x0F) (lo8 i) = i"
    by (rule bit_word_eqI) (auto simp: be16_def lo8_def octet_mask nibble_masks bit_simps less_diff_conv2 dest: n i)
qed

lemma decode_property_image:
  assumes "property_ok p dat"
  shows "decode_property (property_image p dat) = Inr (p
    \<lparr> pf_data_offset := (if dat = [] then 0 else 7), pf_data_size := word_of_nat (length dat) \<rparr>)"
  using assms property_octet5 [of "pf_element_count p" "pf_start_index p"]
  by (simp add: decode_property_def property_image_def property_ok_def property_header_size_def Let_def)

lemma property_data_image:
  assumes "property_ok p dat"
  shows "property_data (p \<lparr> pf_data_offset := (if dat = [] then 0 else 7),
    pf_data_size := word_of_nat (length dat) \<rparr>) (property_image p dat) = dat"
proof -
  have "unat (word_of_nat (length dat) :: u16) = length dat"
    using assms by (intro unat_u16_of_nat) (simp add: property_ok_def max_octets_def)
  then show ?thesis
    by (cases "dat = []") (auto simp: property_data_def property_image_def subspan_def word_unat_eq_iff)
qed

subsection \<open>Properties\<close>

text \<open>
  C34: encoding an L_Data message that the format can represent succeeds into any buffer large
  enough, touches nothing past the message, and decoding the message gives back every field:
  addresses, addressing mode, hop count, priority, flags, service and payload.
\<close>

theorem cemi_roundtrip:
  assumes "message_ok m" "length (cemi_image m) \<le> length dest"
  shows "\<exists>n dest' f. cemi_encode dest m = (Inr n, dest') \<and> length dest' = length dest \<and>
     drop n dest' = drop n dest \<and> cemi_decode (take n dest') = Inr f \<and> delivers m f (take n dest')"
  using assms cemi_encode_image [of m dest] cemi_decode_image [of m] frame_of_delivers [of m]
  by (auto simp: message_ok_def)

lemma sample_message_ok: "message_ok sample_message" "length (cemi_image sample_message) = 11"
  by code_simp+

theorem cemi_roundtrip_witness:
  "\<exists>n dest' f. cemi_encode (replicate 20 0) sample_message = (Inr n, dest') \<and>
     length dest' = length (replicate 20 (0 :: byte)) \<and> drop n dest' = drop n (replicate 20 0) \<and>
     cemi_decode (take n dest') = Inr f \<and> delivers sample_message f (take n dest')"
  by (rule cemi_roundtrip) (simp_all add: sample_message_ok)

text \<open>
  A message the decoder accepts is at least eleven and at most 520 octets long, so it fits the
  storage a tunnelling request reserves for it; its additional information and payload are mapped
  onto the buffer without running past it, and together with the fixed part account for every
  octet.
\<close>

theorem cemi_decode_bounds:
  assumes "cemi_decode bs = Inr f"
  shows "min_l_data_size \<le> length bs \<and> length bs \<le> max_message_size \<and>
    length (additional_info f bs) = unat (cf_additional_info_length f) \<and>
    cemi_payload f bs = drop (min_l_data_size + unat (cf_additional_info_length f)) bs \<and>
    length bs = min_l_data_size + length (additional_info f bs) + length (cemi_payload f bs)"
proof -
  let ?a = "unat (cf_additional_info_length f)" and ?d = "unat (cf_data_length f)"
  note lay = cemi_decode_layout [OF assms]
  have d: "1 \<le> ?d" using lay(2) by (metis Suc_leI One_nat_def neq0_conv unat_eq_zero)
  have a: "?a + ?d \<le> 510"
    using unat_byte_le(1) [of "cf_data_length f"] unat_byte_le(1) [of "cf_additional_info_length f"] by linarith
  have info: "length (additional_info f bs) = ?a"
    using lay(1) d by (auto simp: additional_info_def prologue_size_def)
  have pay: "cemi_payload f bs = drop (11 + ?a) bs"
  proof (cases "cf_data_length f = 1")
    case True
    then show ?thesis using lay(1,4) by (simp add: cemi_payload_def)
  next
    case False
    then have "?d \<noteq> 1" by (metis unsigned_1 unsigned_word_eqI)
    with False lay(1) lay(5) d show ?thesis
      by (auto simp: cemi_payload_def subspan_def)
  qed
  show ?thesis
    using info pay lay(1) d a
    by (simp add: min_l_data_size_def max_message_size_def max_l_data_size_def max_octets_def
      max_additional_info_size_def cemi_sizes)
qed

theorem cemi_decode_bounds_witness:
  "let bs = [0x29, 0, 0xBC, 0xE0, 0x11, 0x01, 0x09, 0x01, 0x03, 0x00, 0x80, 0x0C, 0x1A];
       f = (case cemi_decode bs of Inr f \<Rightarrow> f)
   in cemi_decode bs = Inr f \<and> min_l_data_size \<le> length bs \<and> length bs \<le> max_message_size \<and>
      length (additional_info f bs) = unat (cf_additional_info_length f) \<and>
      cemi_payload f bs = drop (min_l_data_size + unat (cf_additional_info_length f)) bs \<and>
      length bs = min_l_data_size + length (additional_info f bs) + length (cemi_payload f bs)"
proof -
  let ?bs = "[0x29, 0, 0xBC, 0xE0, 0x11, 0x01, 0x09, 0x01, 0x03, 0x00, 0x80, 0x0C, 0x1A] :: bytes"
  have dec: "cemi_decode ?bs = Inr (case cemi_decode ?bs of Inr f \<Rightarrow> f)" by code_simp
  show ?thesis unfolding Let_def using dec cemi_decode_bounds [OF dec] by blast
qed

text \<open>
  A device management property service that the encoder accepts decodes to the same service,
  element count and start index, with its data mapped back onto the same octets.
\<close>

theorem property_roundtrip:
  assumes "property_ok p dat" "7 + length dat \<le> length dest"
  shows "\<exists>n dest' q. encode_property dest p dat = (Inr n, dest') \<and> length dest' = length dest \<and>
    decode_property (take n dest') = Inr q \<and> property_data q (take n dest') = dat \<and>
    q\<lparr> pf_data_offset := pf_data_offset p, pf_data_size := pf_data_size p \<rparr> = p"
  using assms encode_property_image [of p dat dest] decode_property_image [of p dat] property_data_image [of p dat]
  by (simp add: length_property_image)

theorem property_roundtrip_witness:
  "let p = property_request m_prop_write_req \<lparr> ps_object_type = 11, ps_object_instance = 1,
         ps_property_id = 52, ps_element_count = 1, ps_start_index = 0xABC \<rparr>
   in \<exists>n dest' q. encode_property (replicate 9 0) p [1, 2] = (Inr n, dest') \<and>
     length dest' = length (replicate 9 (0 :: byte)) \<and>
     decode_property (take n dest') = Inr q \<and> property_data q (take n dest') = [1, 2] \<and>
     q\<lparr> pf_data_offset := pf_data_offset p, pf_data_size := pf_data_size p \<rparr> = p"
  unfolding Let_def by (rule property_roundtrip) code_simp+

end
