(* ===== verification/Knx_Frame.thy ===== *)
theory Knx_Frame
  imports Knx_Cemi
begin

text \<open>
  The KNXnet/IP framing of tunnelling and device management, after \<open>knx/frame.hpp\<close> and
  \<open>knx/frame.cpp\<close>: the communication header, tunnelling requests and acknowledgements, device
  configuration requests and acknowledgements, and the tunnelling feature services.

  \<open>cemi_bytes_storage\<close> and \<open>tunnelling_feature_value\<close> are fixed arrays of which only a prefix is
  meaningful; they are modelled by that prefix.  The decoders bound the prefix by the capacity of
  the array before they copy, which the theorems below restate.  \<open>KMX_AIO_EXPECTS\<close> repeats a guard
  that was just checked and is omitted.  \<open>make_error_code\<close> only wraps the error.
\<close>

subsection \<open>Frames\<close>

record communication_header =
  ch_protocol_version :: byte
  ch_service_type :: u16
  ch_total_length :: u16

record tunnelling_request_frame =
  tr_channel_id :: byte
  tr_sequence_number :: byte
  tr_message_length :: u16
  tr_cemi :: cemi_frame
  tr_cemi_bytes :: bytes

record device_configuration_frame =
  dc_channel_id :: byte
  dc_sequence_number :: byte
  dc_message_length :: u16
  dc_cemi_bytes :: bytes

type_synonym tunnelling_feature = byte

definition supported_emi_type :: tunnelling_feature where "supported_emi_type = 0x01"
definition host_device_descriptor :: tunnelling_feature where "host_device_descriptor = 0x02"
definition bus_connection_status :: tunnelling_feature where "bus_connection_status = 0x03"
definition manufacturer_code :: tunnelling_feature where "manufacturer_code = 0x04"
definition active_emi_type :: tunnelling_feature where "active_emi_type = 0x05"
definition feature_individual_address :: tunnelling_feature where "feature_individual_address = 0x06"
definition max_apdu_length :: tunnelling_feature where "max_apdu_length = 0x07"
definition info_service_enable :: tunnelling_feature where "info_service_enable = 0x08"

record tunnelling_feature_frame =
  tf_service_type :: u16
  tf_channel_id :: byte
  tf_sequence_number :: byte
  tf_feature :: tunnelling_feature
  tf_return_code :: byte
  tf_value :: bytes

record tunnelling_ack_frame =
  ta_channel_id :: byte
  ta_sequence_number :: byte
  ta_status :: byte

definition tunnelling_request_service :: u16 where "tunnelling_request_service = 0x0420"
definition tunnelling_ack_service :: u16 where "tunnelling_ack_service = 0x0421"
definition device_configuration_request_service :: u16 where "device_configuration_request_service = 0x0310"
definition device_configuration_ack_service :: u16 where "device_configuration_ack_service = 0x0311"
definition tunnelling_feature_get_service :: u16 where "tunnelling_feature_get_service = 0x0422"
definition tunnelling_feature_response_service :: u16 where "tunnelling_feature_response_service = 0x0423"
definition tunnelling_feature_set_service :: u16 where "tunnelling_feature_set_service = 0x0424"
definition tunnelling_feature_info_service :: u16 where "tunnelling_feature_info_service = 0x0425"
definition max_total_length :: nat where "max_total_length = 0xFFFF"
definition max_datagram_size :: nat where "max_datagram_size = 1472"
definition communication_header_size :: nat where "communication_header_size = 6"
definition cemi_min_size :: nat where "cemi_min_size = min_l_data_size"
definition cemi_max_size :: nat where "cemi_max_size = max_message_size"
definition tunnelling_request_header_size :: nat where "tunnelling_request_header_size = 4"
definition tunnelling_ack_size :: nat where "tunnelling_ack_size = 4"
definition connection_header_structure_length :: byte where "connection_header_structure_length = 0x04"
definition tunnelling_feature_header_size :: nat where "tunnelling_feature_header_size = 2"
definition feature_value_capacity :: nat where "feature_value_capacity = 16"

definition is_tunnelling_feature_service :: "u16 \<Rightarrow> bool" where
  "is_tunnelling_feature_service v \<longleftrightarrow> v = tunnelling_feature_get_service \<or>
     v = tunnelling_feature_response_service \<or> v = tunnelling_feature_set_service \<or>
     v = tunnelling_feature_info_service"

subsection \<open>The communication header\<close>

definition decode_communication_header :: "bytes \<Rightarrow> communication_header result" where
  "decode_communication_header buf =
     (if length buf < communication_header_size then Inl Malformed_frame
      else if unat (buf ! 0) \<noteq> communication_header_size then Inl Malformed_frame
      else if buf ! 1 \<noteq> 0x10 then Inl Unsupported_service
      else
        let hdr = \<lparr> ch_protocol_version = buf ! 1, ch_service_type = be16 (buf ! 2) (buf ! 3),
                    ch_total_length = be16 (buf ! 4) (buf ! 5) \<rparr>
        in if unat (ch_total_length hdr) < communication_header_size then Inl Malformed_frame
           else Inr hdr)"

definition encode_communication_header ::
    "bytes \<Rightarrow> u16 \<Rightarrow> u16 \<Rightarrow> byte \<Rightarrow> unit result \<times> bytes" where
  "encode_communication_header dest service_type total_length protocol_version =
     (if length dest < communication_header_size \<or> unat total_length < communication_header_size
      then (Inl Invalid_length, dest)
      else if protocol_version \<noteq> 0x10 then (Inl Unsupported_service, dest)
      else (Inr (), write_at dest 0
        [word_of_nat communication_header_size, protocol_version, hi8 service_type, lo8 service_type,
         hi8 total_length, lo8 total_length]))"

subsection \<open>Tunnelling requests and acknowledgements\<close>

definition decode_cemi :: "bytes \<Rightarrow> cemi_frame result" where
  "decode_cemi buf = (case cemi_decode buf of Inl e \<Rightarrow> Inl e | Inr decoded \<Rightarrow> Inr decoded)"

definition encode_tunnelling_request :: "bytes \<Rightarrow> byte \<Rightarrow> byte \<Rightarrow> bytes \<Rightarrow> unit result \<times> bytes" where
  "encode_tunnelling_request dest channel_id sequence_number cemi_bytes =
     (if channel_id = 0 then (Inl Invalid_configuration, dest)
      else if length dest < tunnelling_request_header_size + length cemi_bytes
      then (Inl Invalid_length, dest)
      else if length cemi_bytes < cemi_min_size then (Inl Malformed_frame, dest)
      else
        let dest = write_at dest 0 [connection_header_structure_length, channel_id, sequence_number, 0x00];
            dest = write_at dest tunnelling_request_header_size cemi_bytes
        in (Inr (), dest))"

definition tunnelling_cemi_span :: "bytes \<Rightarrow> bytes result" where
  "tunnelling_cemi_span buf =
     (let message_length = length buf - tunnelling_request_header_size
      in if message_length < cemi_min_size then Inl Malformed_frame
         else if message_length > cemi_max_size then Inl Invalid_length
         else Inr (subspan buf tunnelling_request_header_size message_length))"

definition decode_tunnelling_request :: "bytes \<Rightarrow> tunnelling_request_frame result" where
  "decode_tunnelling_request buf =
     (if length buf < tunnelling_request_header_size then Inl Malformed_frame
      else if buf ! 0 \<noteq> connection_header_structure_length then Inl Malformed_frame
      else if buf ! 1 = 0 then Inl Malformed_frame
      else if buf ! 3 \<noteq> 0 then Inl Malformed_frame
      else
        case tunnelling_cemi_span buf of Inl e \<Rightarrow> Inl e | Inr cemi_span \<Rightarrow>
        case decode_cemi cemi_span of Inl e \<Rightarrow> Inl e | Inr cemi \<Rightarrow>
          Inr \<lparr> tr_channel_id = buf ! 1, tr_sequence_number = buf ! 2,
                tr_message_length = word_of_nat (length cemi_span), tr_cemi = cemi,
                tr_cemi_bytes = cemi_span \<rparr>)"

definition decode_tunnelling_ack :: "bytes \<Rightarrow> tunnelling_ack_frame result" where
  "decode_tunnelling_ack buf =
     (if length buf \<noteq> tunnelling_ack_size then Inl Malformed_frame
      else if buf ! 0 \<noteq> connection_header_structure_length then Inl Malformed_frame
      else if buf ! 1 = 0 then Inl Malformed_frame
      else Inr \<lparr> ta_channel_id = buf ! 1, ta_sequence_number = buf ! 2, ta_status = buf ! 3 \<rparr>)"

definition encode_tunnelling_request_packet :: "bytes \<Rightarrow> byte \<Rightarrow> byte \<Rightarrow> bytes \<Rightarrow> unit result \<times> bytes" where
  "encode_tunnelling_request_packet dest channel_id sequence_number cemi_bytes =
     (let body_length = tunnelling_request_header_size + length cemi_bytes;
          total_length = communication_header_size + body_length
      in if total_length > max_total_length \<or> length dest < total_length then (Inl Invalid_length, dest)
         else
           bind_w (encode_communication_header dest tunnelling_request_service (word_of_nat total_length) 0x10)
             (\<lambda>dest. on_subspan dest communication_header_size body_length
               (\<lambda>body. encode_tunnelling_request body channel_id sequence_number cemi_bytes)))"

definition encode_tunnelling_ack_packet :: "bytes \<Rightarrow> byte \<Rightarrow> byte \<Rightarrow> byte \<Rightarrow> unit result \<times> bytes" where
  "encode_tunnelling_ack_packet dest channel_id sequence_number status =
     (if channel_id = 0 then (Inl Invalid_configuration, dest)
      else
        let total_length = communication_header_size + tunnelling_ack_size
        in if length dest < total_length then (Inl Invalid_length, dest)
           else
             bind_w (encode_communication_header dest tunnelling_ack_service (word_of_nat total_length) 0x10)
               (\<lambda>dest. (Inr (), write_at dest communication_header_size
                 [connection_header_structure_length, channel_id, sequence_number, status])))"

definition decode_tunnelling_request_packet :: "bytes \<Rightarrow> tunnelling_request_frame result" where
  "decode_tunnelling_request_packet buf =
     (case decode_communication_header buf of Inl e \<Rightarrow> Inl e | Inr header \<Rightarrow>
      if ch_protocol_version header \<noteq> 0x10 then Inl Unsupported_service
      else if ch_service_type header \<noteq> tunnelling_request_service then Inl Unsupported_service
      else if unat (ch_total_length header) \<noteq> length buf \<or>
        unat (ch_total_length header) < communication_header_size then Inl Malformed_frame
      else decode_tunnelling_request
        (subspan buf communication_header_size (length buf - communication_header_size)))"

definition decode_tunnelling_ack_packet :: "bytes \<Rightarrow> tunnelling_ack_frame result" where
  "decode_tunnelling_ack_packet buf =
     (case decode_communication_header buf of Inl e \<Rightarrow> Inl e | Inr header \<Rightarrow>
      if ch_protocol_version header \<noteq> 0x10 then Inl Unsupported_service
      else if ch_service_type header \<noteq> tunnelling_ack_service then Inl Unsupported_service
      else if unat (ch_total_length header) \<noteq> length buf \<or>
        length buf \<noteq> communication_header_size + tunnelling_ack_size then Inl Malformed_frame
      else decode_tunnelling_ack (subspan buf communication_header_size tunnelling_ack_size))"

subsection \<open>Device management\<close>

definition decode_connection_header :: "bytes \<Rightarrow> bool \<Rightarrow> tunnelling_ack_frame result" where
  "decode_connection_header buf expect_reserved_zero =
     (if length buf < tunnelling_request_header_size then Inl Malformed_frame
      else if buf ! 0 \<noteq> connection_header_structure_length then Inl Malformed_frame
      else if buf ! 1 = 0 then Inl Malformed_frame
      else if expect_reserved_zero \<and> buf ! 3 \<noteq> 0 then Inl Malformed_frame
      else Inr \<lparr> ta_channel_id = buf ! 1, ta_sequence_number = buf ! 2, ta_status = buf ! 3 \<rparr>)"

definition encode_connection_header :: "bytes \<Rightarrow> byte \<Rightarrow> byte \<Rightarrow> byte \<Rightarrow> bytes" where
  "encode_connection_header dest channel_id sequence_number trailing =
     write_at dest 0 [connection_header_structure_length, channel_id, sequence_number, trailing]"

definition encode_device_configuration_request_packet ::
    "bytes \<Rightarrow> byte \<Rightarrow> byte \<Rightarrow> bytes \<Rightarrow> unit result \<times> bytes" where
  "encode_device_configuration_request_packet dest channel_id sequence_number cemi_bytes =
     (if channel_id = 0 then (Inl Invalid_configuration, dest)
      else if cemi_bytes = [] \<or> length cemi_bytes > cemi_max_size then (Inl Invalid_length, dest)
      else
        let total_length = communication_header_size + tunnelling_request_header_size + length cemi_bytes
        in if length dest < total_length then (Inl Invalid_length, dest)
           else
             bind_w (encode_communication_header dest device_configuration_request_service
                 (word_of_nat total_length) 0x10)
               (\<lambda>dest. bind_w (on_subspan dest communication_header_size tunnelling_request_header_size
                   (\<lambda>body. (Inr (), encode_connection_header body channel_id sequence_number 0x00)))
                 (\<lambda>dest. (Inr (), write_at dest
                   (communication_header_size + tunnelling_request_header_size) cemi_bytes))))"

definition decode_device_configuration_request_packet :: "bytes \<Rightarrow> device_configuration_frame result" where
  "decode_device_configuration_request_packet buf =
     (case decode_communication_header buf of Inl e \<Rightarrow> Inl e | Inr header \<Rightarrow>
      if ch_service_type header \<noteq> device_configuration_request_service then Inl Unsupported_service
      else if unat (ch_total_length header) \<noteq> length buf then Inl Malformed_frame
      else
        let body = drop communication_header_size buf
        in case decode_connection_header body True of Inl e \<Rightarrow> Inl e | Inr connection \<Rightarrow>
          let message_length = length body - tunnelling_request_header_size
          in if message_length = 0 \<or> message_length > cemi_max_size then Inl Invalid_length
             else Inr \<lparr> dc_channel_id = ta_channel_id connection,
               dc_sequence_number = ta_sequence_number connection,
               dc_message_length = word_of_nat message_length,
               dc_cemi_bytes = subspan body tunnelling_request_header_size message_length \<rparr>)"

definition encode_device_configuration_ack_packet ::
    "bytes \<Rightarrow> byte \<Rightarrow> byte \<Rightarrow> byte \<Rightarrow> unit result \<times> bytes" where
  "encode_device_configuration_ack_packet dest channel_id sequence_number status =
     (if channel_id = 0 then (Inl Invalid_configuration, dest)
      else
        let total_length = communication_header_size + tunnelling_ack_size
        in if length dest < total_length then (Inl Invalid_length, dest)
           else
             bind_w (encode_communication_header dest device_configuration_ack_service
                 (word_of_nat total_length) 0x10)
               (\<lambda>dest. on_subspan dest communication_header_size tunnelling_ack_size
                 (\<lambda>body. (Inr (), encode_connection_header body channel_id sequence_number status))))"

definition decode_device_configuration_ack_packet :: "bytes \<Rightarrow> tunnelling_ack_frame result" where
  "decode_device_configuration_ack_packet buf =
     (case decode_communication_header buf of Inl e \<Rightarrow> Inl e | Inr header \<Rightarrow>
      if ch_service_type header \<noteq> device_configuration_ack_service then Inl Unsupported_service
      else if unat (ch_total_length header) \<noteq> length buf \<or>
        length buf \<noteq> communication_header_size + tunnelling_ack_size then Inl Malformed_frame
      else decode_connection_header (drop communication_header_size buf) False)"

subsection \<open>Tunnelling features\<close>

definition valid_feature :: "byte \<Rightarrow> bool" where
  "valid_feature v \<longleftrightarrow> v = supported_emi_type \<or> v = host_device_descriptor \<or>
     v = bus_connection_status \<or> v = manufacturer_code \<or> v = active_emi_type \<or>
     v = feature_individual_address \<or> v = max_apdu_length \<or> v = info_service_enable"

definition feature_service_carries_value :: "u16 \<Rightarrow> byte \<Rightarrow> bool" where
  "feature_service_carries_value service return_code =
     (if service = tunnelling_feature_set_service \<or> service = tunnelling_feature_info_service then True
      else if service = tunnelling_feature_response_service then return_code = 0
      else False)"

definition validate_feature :: "tunnelling_feature_frame \<Rightarrow> bytes \<Rightarrow> unit result" where
  "validate_feature v feature_value =
     (if \<not> is_tunnelling_feature_service (tf_service_type v) then Inl Unsupported_service
      else if tf_channel_id v = 0 then Inl Invalid_configuration
      else if \<not> valid_feature (tf_feature v) then Inl Invalid_configuration
      else if length feature_value > feature_value_capacity then Inl Invalid_length
      else if feature_service_carries_value (tf_service_type v) (tf_return_code v) = (feature_value = [])
      then Inl Malformed_frame
      else Inr ())"

definition encode_tunnelling_feature_packet ::
    "bytes \<Rightarrow> tunnelling_feature_frame \<Rightarrow> bytes \<Rightarrow> unit result \<times> bytes" where
  "encode_tunnelling_feature_packet dest v feature_value =
     (case validate_feature v feature_value of Inl e \<Rightarrow> (Inl e, dest) | Inr _ \<Rightarrow>
        let total_length = communication_header_size + tunnelling_request_header_size +
              tunnelling_feature_header_size + length feature_value
        in if length dest < total_length then (Inl Invalid_length, dest)
           else
             bind_w (encode_communication_header dest (tf_service_type v) (word_of_nat total_length) 0x10)
               (\<lambda>dest. bind_w (on_subspan dest communication_header_size tunnelling_request_header_size
                   (\<lambda>body. (Inr (), encode_connection_header body (tf_channel_id v) (tf_sequence_number v) 0x00)))
                 (\<lambda>dest.
                   let body = communication_header_size + tunnelling_request_header_size;
                       dest = write_at dest body
                         [tf_feature v,
                          if tf_service_type v = tunnelling_feature_response_service
                          then tf_return_code v else 0];
                       dest = write_at dest (body + tunnelling_feature_header_size) feature_value
                   in (Inr (), dest))))"

definition decode_feature_prologue :: "bytes \<Rightarrow> communication_header \<Rightarrow> tunnelling_feature_frame result" where
  "decode_feature_prologue buf header =
     (case decode_connection_header (drop communication_header_size buf) True of Inl e \<Rightarrow> Inl e
      | Inr connection \<Rightarrow>
        let body = communication_header_size + tunnelling_request_header_size
        in if \<not> valid_feature (buf ! body) then Inl Unsupported_service
           else
             let is_response = ch_service_type header = tunnelling_feature_response_service
             in if \<not> is_response \<and> buf ! (body + 1) \<noteq> 0 then Inl Malformed_frame
                else Inr \<lparr> tf_service_type = ch_service_type header,
                  tf_channel_id = ta_channel_id connection,
                  tf_sequence_number = ta_sequence_number connection,
                  tf_feature = buf ! body,
                  tf_return_code = (if is_response then buf ! (body + 1) else 0),
                  tf_value = [] \<rparr>)"

definition decode_feature_value :: "bytes \<Rightarrow> nat \<Rightarrow> tunnelling_feature_frame \<Rightarrow> tunnelling_feature_frame result" where
  "decode_feature_value buf minimum decoded =
     (let value_size = length buf - minimum
      in if value_size > feature_value_capacity then Inl Invalid_length
         else if feature_service_carries_value (tf_service_type decoded) (tf_return_code decoded) \<noteq>
           (value_size \<noteq> 0) then Inl Malformed_frame
         else Inr (decoded\<lparr> tf_value := subspan buf minimum value_size \<rparr>))"

definition decode_tunnelling_feature_packet :: "bytes \<Rightarrow> tunnelling_feature_frame result" where
  "decode_tunnelling_feature_packet buf =
     (case decode_communication_header buf of Inl e \<Rightarrow> Inl e | Inr header \<Rightarrow>
      if \<not> is_tunnelling_feature_service (ch_service_type header) then Inl Unsupported_service
      else if unat (ch_total_length header) \<noteq> length buf then Inl Malformed_frame
      else
        let minimum = communication_header_size + tunnelling_request_header_size +
              tunnelling_feature_header_size
        in if length buf < minimum then Inl Malformed_frame
           else
             case decode_feature_prologue buf header of Inl e \<Rightarrow> Inl e | Inr decoded \<Rightarrow>
               decode_feature_value buf minimum decoded)"

subsection \<open>Wire formats\<close>

text \<open>
  \<open>knx_packet\<close> is a body behind a communication header whose total length is the packet's own;
  \<open>connection_wire\<close> is the four-octet connection header.  For every packet type, \<open>..._wire\<close> is
  its image, \<open>..._wf\<close> the representation invariant of the C++ struct (the message length describes
  the octets held; a return code is set only in a response) and \<open>..._ok\<close> what the format carries.
  The encoders take the fields of a frame as separate arguments; \<open>encode_ack\<close> and its relatives
  pass them from the struct.
\<close>

definition header_wire :: "u16 \<Rightarrow> nat \<Rightarrow> bytes" where
  "header_wire service n =
     [6, 0x10, hi8 service, lo8 service, hi8 (word_of_nat n), lo8 (word_of_nat n)]"

definition knx_packet :: "u16 \<Rightarrow> bytes \<Rightarrow> bytes" where
  "knx_packet service body = header_wire service (6 + length body) @ body"

definition connection_wire :: "byte \<Rightarrow> byte \<Rightarrow> byte \<Rightarrow> bytes" where
  "connection_wire channel sequence trailing = [4, channel, sequence, trailing]"

definition tunnelling_ack_wire :: "tunnelling_ack_frame \<Rightarrow> bytes" where
  "tunnelling_ack_wire f =
     knx_packet tunnelling_ack_service
       (connection_wire (ta_channel_id f) (ta_sequence_number f) (ta_status f))"

definition device_configuration_ack_wire :: "tunnelling_ack_frame \<Rightarrow> bytes" where
  "device_configuration_ack_wire f =
     knx_packet device_configuration_ack_service
       (connection_wire (ta_channel_id f) (ta_sequence_number f) (ta_status f))"

definition encode_ack :: "bytes \<Rightarrow> tunnelling_ack_frame \<Rightarrow> unit result \<times> bytes" where
  "encode_ack d f = encode_tunnelling_ack_packet d (ta_channel_id f) (ta_sequence_number f) (ta_status f)"

definition encode_configuration_ack :: "bytes \<Rightarrow> tunnelling_ack_frame \<Rightarrow> unit result \<times> bytes" where
  "encode_configuration_ack d f =
     encode_device_configuration_ack_packet d (ta_channel_id f) (ta_sequence_number f) (ta_status f)"

definition tunnelling_request_wire :: "tunnelling_request_frame \<Rightarrow> bytes" where
  "tunnelling_request_wire f =
     knx_packet tunnelling_request_service
       (connection_wire (tr_channel_id f) (tr_sequence_number f) 0 @ tr_cemi_bytes f)"

definition tunnelling_request_wf :: "tunnelling_request_frame \<Rightarrow> bool" where
  "tunnelling_request_wf f \<longleftrightarrow> tr_message_length f = word_of_nat (length (tr_cemi_bytes f))"

definition tunnelling_request_ok :: "tunnelling_request_frame \<Rightarrow> bool" where
  "tunnelling_request_ok f \<longleftrightarrow> tr_channel_id f \<noteq> 0 \<and> cemi_decode (tr_cemi_bytes f) = Inr (tr_cemi f)"

definition encode_request :: "bytes \<Rightarrow> tunnelling_request_frame \<Rightarrow> unit result \<times> bytes" where
  "encode_request d f =
     encode_tunnelling_request_packet d (tr_channel_id f) (tr_sequence_number f) (tr_cemi_bytes f)"

definition device_configuration_wire :: "device_configuration_frame \<Rightarrow> bytes" where
  "device_configuration_wire f =
     knx_packet device_configuration_request_service
       (connection_wire (dc_channel_id f) (dc_sequence_number f) 0 @ dc_cemi_bytes f)"

definition device_configuration_wf :: "device_configuration_frame \<Rightarrow> bool" where
  "device_configuration_wf f \<longleftrightarrow> dc_message_length f = word_of_nat (length (dc_cemi_bytes f))"

definition device_configuration_ok :: "device_configuration_frame \<Rightarrow> bool" where
  "device_configuration_ok f \<longleftrightarrow> dc_channel_id f \<noteq> 0 \<and> dc_cemi_bytes f \<noteq> [] \<and>
     length (dc_cemi_bytes f) \<le> cemi_max_size"

definition encode_configuration :: "bytes \<Rightarrow> device_configuration_frame \<Rightarrow> unit result \<times> bytes" where
  "encode_configuration d f =
     encode_device_configuration_request_packet d (dc_channel_id f) (dc_sequence_number f) (dc_cemi_bytes f)"

definition tunnelling_feature_wire :: "tunnelling_feature_frame \<Rightarrow> bytes" where
  "tunnelling_feature_wire f =
     knx_packet (tf_service_type f)
       (connection_wire (tf_channel_id f) (tf_sequence_number f) 0 @ [tf_feature f, tf_return_code f] @ tf_value f)"

definition tunnelling_feature_wf :: "tunnelling_feature_frame \<Rightarrow> bool" where
  "tunnelling_feature_wf f \<longleftrightarrow> tf_service_type f = tunnelling_feature_response_service \<or> tf_return_code f = 0"

definition tunnelling_feature_ok :: "tunnelling_feature_frame \<Rightarrow> bool" where
  "tunnelling_feature_ok f \<longleftrightarrow> is_tunnelling_feature_service (tf_service_type f) \<and> tf_channel_id f \<noteq> 0 \<and>
     valid_feature (tf_feature f) \<and> length (tf_value f) \<le> feature_value_capacity \<and>
     (tf_value f \<noteq> []) = feature_service_carries_value (tf_service_type f) (tf_return_code f)"

definition encode_feature :: "bytes \<Rightarrow> tunnelling_feature_frame \<Rightarrow> unit result \<times> bytes" where
  "encode_feature d f = encode_tunnelling_feature_packet d f (tf_value f)"

definition sample_request :: tunnelling_request_frame where
  "sample_request = \<lparr> tr_channel_id = 7, tr_sequence_number = 255, tr_message_length = 11,
     tr_cemi = (case cemi_decode (cemi_image sample_message) of Inr f \<Rightarrow> f),
     tr_cemi_bytes = cemi_image sample_message \<rparr>"

subsection \<open>Lemmas\<close>

lemmas frame_sizes = communication_header_size_def tunnelling_request_header_size_def
  tunnelling_ack_size_def connection_header_structure_length_def tunnelling_feature_header_size_def
  feature_value_capacity_def max_total_length_def

lemma length_header_wire [simp]: "length (header_wire s n) = 6"
  by (simp add: header_wire_def)

lemma length_knx_packet [simp]: "length (knx_packet s b) = 6 + length b"
  by (simp add: knx_packet_def)

lemma drop_knx_packet [simp]: "drop 6 (knx_packet s b) = b"
  by (simp add: knx_packet_def)

lemma length_connection_wire [simp]: "length (connection_wire c s t) = 4"
  by (simp add: connection_wire_def)

lemma length_encode_communication_header [simp]:
  "length (snd (encode_communication_header d s t v)) = length d"
  by (simp add: encode_communication_header_def communication_header_size_def)

lemma encode_header_wire:
  assumes "6 \<le> length d" "6 \<le> n" "n < 65536"
  shows "encode_communication_header d s (word_of_nat n) 0x10 = (Inr (), write_at d 0 (header_wire s n))"
  using assms by (simp add: encode_communication_header_def header_wire_def unat_u16_of_nat frame_sizes)

lemma decode_header_wire:
  assumes "6 + length b < 65536"
  shows "decode_communication_header (knx_packet s b) =
    Inr \<lparr> ch_protocol_version = 0x10, ch_service_type = s, ch_total_length = word_of_nat (6 + length b) \<rparr>"
  using assms unat_u16_of_nat [of "6 + length b"]
  by (simp add: decode_communication_header_def knx_packet_def header_wire_def frame_sizes)

lemma decode_header_fields:
  assumes "decode_communication_header buf = Inr h"
  shows "6 \<le> length buf" "ch_protocol_version h = 0x10" "6 \<le> unat (ch_total_length h)"
  using assms by (auto simp: decode_communication_header_def Let_def frame_sizes split: if_splits)

lemma decode_header_sound:
  assumes "decode_communication_header buf = Inr h" "unat (ch_total_length h) = length buf"
  shows "buf = knx_packet (ch_service_type h) (drop 6 buf)" "6 \<le> length buf"
proof -
  show len: "6 \<le> length buf" using decode_header_fields [OF assms(1)] by simp
  have tot: "ch_total_length h = word_of_nat (length buf)"
    by (simp add: assms(2) [symmetric])
  have "unat (buf ! 0) = unat (6 :: byte)"
    using assms(1) by (auto simp: decode_communication_header_def Let_def frame_sizes split: if_splits)
  then have "buf ! 0 = 6" by (simp only: word_unat_eq_iff)
  moreover have "buf ! 1 = 0x10" "hi8 (ch_service_type h) = buf ! 2" "lo8 (ch_service_type h) = buf ! 3"
    "hi8 (ch_total_length h) = buf ! 4" "lo8 (ch_total_length h) = buf ! 5"
    using assms(1) by (auto simp: decode_communication_header_def Let_def frame_sizes split: if_splits)
  ultimately show "buf = knx_packet (ch_service_type h) (drop 6 buf)"
    using len list_prefix_nth(3) [OF len] tot by (simp add: knx_packet_def header_wire_def)
qed

lemma list4: "length b = 4 \<Longrightarrow> b = [b ! 0, b ! 1, b ! 2, b ! 3]"
  using list_prefix_nth(2) [of b] by simp

interpretation tunnelling_ack: strict_codec tunnelling_ack_wire "\<lambda>_. True" "\<lambda>f. ta_channel_id f \<noteq> 0"
  encode_ack decode_tunnelling_ack_packet
proof
  fix d :: bytes and f
  show "encode_ack d f = (Inr (), write_at d 0 (tunnelling_ack_wire f))"
    if "ta_channel_id f \<noteq> 0" "length (tunnelling_ack_wire f) \<le> length d"
    using that encode_header_wire [of d 10 tunnelling_ack_service]
    by (simp add: encode_ack_def encode_tunnelling_ack_packet_def tunnelling_ack_wire_def Let_def
      frame_sizes wire_simps knx_packet_def connection_wire_def)
  show "length (snd (encode_ack d f)) = length d"
    using encode_header_wire [of d 10 tunnelling_ack_service]
    by (simp add: encode_ack_def encode_tunnelling_ack_packet_def Let_def frame_sizes)
  show "decode_tunnelling_ack_packet (tunnelling_ack_wire f) = Inr f" if "ta_channel_id f \<noteq> 0"
    using that decode_header_wire [of "connection_wire (ta_channel_id f) (ta_sequence_number f) (ta_status f)" tunnelling_ack_service]
    by (simp add: decode_tunnelling_ack_packet_def tunnelling_ack_wire_def frame_sizes decode_tunnelling_ack_def
      subspan_def) (simp add: connection_wire_def)
  show "ta_channel_id f \<noteq> 0 \<and> length (tunnelling_ack_wire f) \<le> length d" if "fst (encode_ack d f) = Inr ()"
    using that by (auto simp: encode_ack_def encode_tunnelling_ack_packet_def tunnelling_ack_wire_def Let_def
      frame_sizes split: if_splits)
qed

lemma knx_packet_eqI:
  assumes "decode_communication_header buf = Inr h" "unat (ch_total_length h) = length buf"
    and "ch_service_type h = s" "drop 6 buf = b"
  shows "buf = knx_packet s b"
  using decode_header_sound(1) [OF assms(1,2)] assms(3,4) by simp

lemma decode_tunnelling_ack_packet_sound:
  assumes "decode_tunnelling_ack_packet buf = Inr f"
  shows "ta_channel_id f \<noteq> 0" "tunnelling_ack_wire f = buf"
proof -
  obtain h where h: "decode_communication_header buf = Inr h" "unat (ch_total_length h) = length buf"
    "ch_service_type h = tunnelling_ack_service" "length buf = 10"
    and b: "decode_tunnelling_ack (subspan buf 6 4) = Inr f"
    using assms by (auto simp: decode_tunnelling_ack_packet_def frame_sizes split: sum.splits if_splits)
  have sub: "subspan buf 6 4 = drop 6 buf" using h(4) by (simp add: subspan_def)
  have l: "length (drop 6 buf) = 4" using h(4) by simp
  show "ta_channel_id f \<noteq> 0"
    using b by (auto simp: decode_tunnelling_ack_def split: if_splits)
  have "drop 6 buf = connection_wire (ta_channel_id f) (ta_sequence_number f) (ta_status f)"
    using b list4 [OF l] by (auto simp: sub decode_tunnelling_ack_def connection_wire_def frame_sizes split: if_splits)
  from knx_packet_eqI [OF h(1-3) this] show "tunnelling_ack_wire f = buf"
    by (simp add: tunnelling_ack_wire_def)
qed

interpretation tunnelling_ack_canonical: canonical_codec tunnelling_ack_wire "\<lambda>_. True"
  "\<lambda>f. ta_channel_id f \<noteq> 0" encode_ack decode_tunnelling_ack_packet
  by unfold_locales (use decode_tunnelling_ack_packet_sound in blast)

lemma decode_connection_header_sound:
  assumes "decode_connection_header b r = Inr f"
  shows "ta_channel_id f \<noteq> 0" "4 \<le> length b" "r \<Longrightarrow> ta_status f = 0"
    "b = connection_wire (ta_channel_id f) (ta_sequence_number f) (ta_status f) @ drop 4 b"
proof -
  show l: "4 \<le> length b"
    using assms by (auto simp: decode_connection_header_def frame_sizes split: if_splits)
  show "ta_channel_id f \<noteq> 0" "r \<Longrightarrow> ta_status f = 0"
    "b = connection_wire (ta_channel_id f) (ta_sequence_number f) (ta_status f) @ drop 4 b"
    using assms list_prefix_nth(2) [OF l]
    by (auto simp: decode_connection_header_def connection_wire_def frame_sizes split: if_splits)
qed

lemma decode_connection_header_wire:
  "c \<noteq> 0 \<Longrightarrow> (r \<Longrightarrow> t = 0) \<Longrightarrow> decode_connection_header (connection_wire c s t @ rest) r =
     Inr \<lparr> ta_channel_id = c, ta_sequence_number = s, ta_status = t \<rparr>"
  by (auto simp: decode_connection_header_def connection_wire_def frame_sizes)

lemma encode_connection_header_wire:
  "encode_connection_header d c s t = write_at d 0 (connection_wire c s t)"
  by (simp add: encode_connection_header_def connection_wire_def frame_sizes)

interpretation configuration_ack: strict_codec device_configuration_ack_wire "\<lambda>_. True"
  "\<lambda>f. ta_channel_id f \<noteq> 0" encode_configuration_ack decode_device_configuration_ack_packet
proof
  fix d :: bytes and f :: tunnelling_ack_frame
  let ?c = "connection_wire (ta_channel_id f) (ta_sequence_number f) (ta_status f)"
  show "encode_configuration_ack d f = (Inr (), write_at d 0 (device_configuration_ack_wire f))"
    if "ta_channel_id f \<noteq> 0" "length (device_configuration_ack_wire f) \<le> length d"
    using that encode_header_wire [of d 10 device_configuration_ack_service]
    by (simp add: encode_configuration_ack_def encode_device_configuration_ack_packet_def
      device_configuration_ack_wire_def Let_def frame_sizes knx_packet_def encode_connection_header_wire
      on_subspan_wire [where w = ?c])
  show "length (snd (encode_configuration_ack d f)) = length d"
    using encode_header_wire [of d 10 device_configuration_ack_service]
    by (simp add: encode_configuration_ack_def encode_device_configuration_ack_packet_def Let_def frame_sizes
      encode_connection_header_wire length_on_subspan)
  show "decode_device_configuration_ack_packet (device_configuration_ack_wire f) = Inr f"
    if "ta_channel_id f \<noteq> 0"
    using that decode_header_wire [of ?c device_configuration_ack_service]
      decode_connection_header_wire [of "ta_channel_id f" False "ta_status f" "ta_sequence_number f" "[]"]
    by (simp add: decode_device_configuration_ack_packet_def device_configuration_ack_wire_def frame_sizes)
  show "ta_channel_id f \<noteq> 0 \<and> length (device_configuration_ack_wire f) \<le> length d"
    if "fst (encode_configuration_ack d f) = Inr ()"
    using that by (auto simp: encode_configuration_ack_def encode_device_configuration_ack_packet_def
      device_configuration_ack_wire_def Let_def frame_sizes split: if_splits)
qed

interpretation configuration_ack_canonical: canonical_codec device_configuration_ack_wire "\<lambda>_. True"
  "\<lambda>f. ta_channel_id f \<noteq> 0" encode_configuration_ack decode_device_configuration_ack_packet
proof unfold_locales
  fix buf :: bytes and f :: tunnelling_ack_frame
  assume "decode_device_configuration_ack_packet buf = Inr f"
  then obtain h where h: "decode_communication_header buf = Inr h" "unat (ch_total_length h) = length buf"
    "ch_service_type h = device_configuration_ack_service" "length buf = 10"
    and b: "decode_connection_header (drop 6 buf) False = Inr f"
    by (auto simp: decode_device_configuration_ack_packet_def frame_sizes split: sum.splits if_splits)
  note c = decode_connection_header_sound [OF b]
  have "drop 6 buf = connection_wire (ta_channel_id f) (ta_sequence_number f) (ta_status f)"
    using c(4) h(4) by simp
  from knx_packet_eqI [OF h(1-3) this] c(1)
  show "True \<and> ta_channel_id f \<noteq> 0 \<and> device_configuration_ack_wire f = buf"
    by (simp add: device_configuration_ack_wire_def)
qed

lemma cemi_min_max: "cemi_min_size = 11" "cemi_max_size = 520"
  by code_simp+

lemma decode_tunnelling_request_wire:
  assumes "tunnelling_request_wf f" "tunnelling_request_ok f"
  shows "decode_tunnelling_request (connection_wire (tr_channel_id f) (tr_sequence_number f) 0 @ tr_cemi_bytes f) =
    Inr f"
  using assms cemi_decode_size [of "tr_cemi_bytes f" "tr_cemi f"]
  by (simp add: decode_tunnelling_request_def tunnelling_request_ok_def tunnelling_request_wf_def
    tunnelling_cemi_span_def Let_def frame_sizes cemi_min_max subspan_def decode_cemi_def)
    (simp add: connection_wire_def)

lemma length_encode_tunnelling_request: "length (snd (encode_tunnelling_request d c s b)) = length d"
  by (simp add: encode_tunnelling_request_def Let_def frame_sizes)

interpretation tunnelling_request: packet_codec tunnelling_request_wire tunnelling_request_wf
  tunnelling_request_ok encode_request decode_tunnelling_request_packet
proof
  fix d :: bytes and f :: tunnelling_request_frame
  let ?c = "connection_wire (tr_channel_id f) (tr_sequence_number f) 0 @ tr_cemi_bytes f"
  show "encode_request d f = (Inr (), write_at d 0 (tunnelling_request_wire f))"
    if "tunnelling_request_ok f" "length (tunnelling_request_wire f) \<le> length d"
  proof -
    have len: "11 \<le> length (tr_cemi_bytes f)" "length (tr_cemi_bytes f) \<le> 520"
      using that(1) cemi_decode_size [of "tr_cemi_bytes f"] by (auto simp: tunnelling_request_ok_def)
    have "encode_tunnelling_request b (tr_channel_id f) (tr_sequence_number f) (tr_cemi_bytes f) =
      (Inr (), write_at b 0 ?c)" if "length b = 4 + length (tr_cemi_bytes f)" for b
      using that len \<open>tunnelling_request_ok f\<close>
      by (simp add: encode_tunnelling_request_def Let_def frame_sizes cemi_min_max tunnelling_request_ok_def
        wire_simps) (simp add: connection_wire_def)
    with len that(2) encode_header_wire [of d "6 + length ?c" tunnelling_request_service] show ?thesis
      by (simp add: encode_request_def encode_tunnelling_request_packet_def Let_def frame_sizes
        tunnelling_request_wire_def knx_packet_def on_subspan_wire [where w = ?c] add.assoc)
  qed
  show "length (snd (encode_request d f)) = length d"
    by (auto simp: encode_request_def encode_tunnelling_request_packet_def Let_def frame_sizes
      length_encode_tunnelling_request intro!: length_bind_w length_on_subspan)
  show "decode_tunnelling_request_packet (tunnelling_request_wire f) = Inr f"
    if "tunnelling_request_wf f" "tunnelling_request_ok f"
    using cemi_decode_size [of "tr_cemi_bytes f" "tr_cemi f"] that decode_tunnelling_request_wire [OF that]
      decode_header_wire [of ?c tunnelling_request_service] unat_u16_of_nat [of "6 + length ?c"]
    by (simp add: decode_tunnelling_request_packet_def tunnelling_request_wire_def frame_sizes subspan_def
      tunnelling_request_ok_def)
qed

lemma decode_tunnelling_request_sound:
  assumes "decode_tunnelling_request b = Inr f"
  shows "tunnelling_request_wf f" "tunnelling_request_ok f"
    "b = connection_wire (tr_channel_id f) (tr_sequence_number f) 0 @ tr_cemi_bytes f"
proof -
  have l: "4 \<le> length b"
    using assms by (auto simp: decode_tunnelling_request_def frame_sizes split: if_splits)
  note pre = list_prefix_nth(2) [OF l]
  show "tunnelling_request_wf f" "tunnelling_request_ok f"
    "b = connection_wire (tr_channel_id f) (tr_sequence_number f) 0 @ tr_cemi_bytes f"
    using assms l pre
    by (auto simp: decode_tunnelling_request_def tunnelling_request_ok_def tunnelling_request_wf_def
      tunnelling_cemi_span_def Let_def frame_sizes subspan_def decode_cemi_def connection_wire_def
      split: if_splits sum.splits)
qed

interpretation tunnelling_request_canonical: canonical_codec tunnelling_request_wire tunnelling_request_wf
  tunnelling_request_ok encode_request decode_tunnelling_request_packet
proof unfold_locales
  fix buf :: bytes and f :: tunnelling_request_frame
  assume "decode_tunnelling_request_packet buf = Inr f"
  then obtain h where h: "decode_communication_header buf = Inr h" "unat (ch_total_length h) = length buf"
    "ch_service_type h = tunnelling_request_service"
    and b: "decode_tunnelling_request (drop 6 buf) = Inr f"
    by (auto simp: decode_tunnelling_request_packet_def frame_sizes subspan_def split: sum.splits if_splits)
  note c = decode_tunnelling_request_sound [OF b]
  from knx_packet_eqI [OF h c(3)] c(1,2)
  show "tunnelling_request_wf f \<and> tunnelling_request_ok f \<and> tunnelling_request_wire f = buf"
    by (simp add: tunnelling_request_wire_def)
qed

interpretation device_configuration: strict_codec device_configuration_wire device_configuration_wf
  device_configuration_ok encode_configuration decode_device_configuration_request_packet
proof
  fix d :: bytes and f :: device_configuration_frame
  let ?h = "connection_wire (dc_channel_id f) (dc_sequence_number f) 0" and ?b = "dc_cemi_bytes f"
  show "encode_configuration d f = (Inr (), write_at d 0 (device_configuration_wire f))"
    if "device_configuration_ok f" "length (device_configuration_wire f) \<le> length d"
    using that encode_header_wire [of d "10 + length ?b" device_configuration_request_service]
    by (simp add: encode_configuration_def encode_device_configuration_request_packet_def Let_def frame_sizes
      device_configuration_ok_def cemi_min_max device_configuration_wire_def knx_packet_def
      encode_connection_header_wire on_subspan_wire [where w = ?h] wire_simps)
  show "length (snd (encode_configuration d f)) = length d"
    by (auto simp: encode_configuration_def encode_device_configuration_request_packet_def Let_def frame_sizes
      encode_connection_header_wire intro!: length_bind_w length_on_subspan)
  show "decode_device_configuration_request_packet (device_configuration_wire f) = Inr f"
    if "device_configuration_wf f" "device_configuration_ok f"
    using that decode_header_wire [of "?h @ ?b" device_configuration_request_service]
      unat_u16_of_nat [of "10 + length ?b"]
      decode_connection_header_wire [of "dc_channel_id f" True 0 "dc_sequence_number f" ?b]
    by (simp add: decode_device_configuration_request_packet_def device_configuration_wire_def frame_sizes
      device_configuration_ok_def device_configuration_wf_def cemi_min_max subspan_def)
  show "device_configuration_ok f \<and> length (device_configuration_wire f) \<le> length d"
    if "fst (encode_configuration d f) = Inr ()"
    using that by (auto simp: encode_configuration_def encode_device_configuration_request_packet_def
      device_configuration_wire_def device_configuration_ok_def Let_def frame_sizes split: if_splits)
qed

interpretation device_configuration_canonical: canonical_codec device_configuration_wire
  device_configuration_wf device_configuration_ok encode_configuration
  decode_device_configuration_request_packet
proof unfold_locales
  fix buf :: bytes and f :: device_configuration_frame
  assume "decode_device_configuration_request_packet buf = Inr f"
  then obtain h c where h: "decode_communication_header buf = Inr h" "unat (ch_total_length h) = length buf"
    "ch_service_type h = device_configuration_request_service"
    and b: "decode_connection_header (drop 6 buf) True = Inr c"
    and f: "f = \<lparr> dc_channel_id = ta_channel_id c, dc_sequence_number = ta_sequence_number c,
      dc_message_length = word_of_nat (length (drop 6 buf) - 4),
      dc_cemi_bytes = subspan (drop 6 buf) 4 (length (drop 6 buf) - 4) \<rparr>"
      "length (drop 6 buf) - 4 \<noteq> 0" "length (drop 6 buf) - 4 \<le> cemi_max_size"
    by (auto simp: decode_device_configuration_request_packet_def frame_sizes Let_def split: sum.splits if_splits)
  note c = decode_connection_header_sound [OF b]
  have "drop 6 buf = connection_wire (dc_channel_id f) (dc_sequence_number f) 0 @ dc_cemi_bytes f"
    using c(3,4) f(1) by (simp add: subspan_def)
  from knx_packet_eqI [OF h this] c(1) f
  show "device_configuration_wf f \<and> device_configuration_ok f \<and> device_configuration_wire f = buf"
    by (auto simp: device_configuration_wire_def device_configuration_wf_def device_configuration_ok_def subspan_def)
qed

lemma validate_feature_ok:
  "validate_feature f (tf_value f) = Inr () \<longleftrightarrow> tunnelling_feature_ok f"
  by (auto simp: validate_feature_def tunnelling_feature_ok_def split: if_splits)

lemma validate_feature_cases: "\<exists>e. validate_feature f v = Inl e \<or> validate_feature f v = Inr ()"
  by (cases "validate_feature f v") auto

interpretation tunnelling_features: strict_codec tunnelling_feature_wire tunnelling_feature_wf
  tunnelling_feature_ok encode_feature decode_tunnelling_feature_packet
proof
  fix d :: bytes and f :: tunnelling_feature_frame
  let ?h = "connection_wire (tf_channel_id f) (tf_sequence_number f) 0" and ?v = "tf_value f"
  let ?b = "?h @ [tf_feature f, tf_return_code f] @ ?v"
  show "encode_feature d f = (Inr (), write_at d 0 (tunnelling_feature_wire f))"
    if "tunnelling_feature_wf f" "tunnelling_feature_ok f" "length (tunnelling_feature_wire f) \<le> length d"
  proof -
    have "(if tf_service_type f = tunnelling_feature_response_service then tf_return_code f else 0) =
      tf_return_code f"
      using that(1) by (auto simp: tunnelling_feature_wf_def)
    moreover have "validate_feature f ?v = Inr ()" using that(2) by (simp add: validate_feature_ok)
    moreover have "length ?v \<le> 16" using that(2) by (simp add: tunnelling_feature_ok_def frame_sizes)
    ultimately show ?thesis
      using that(3) encode_header_wire [of d "12 + length ?v" "tf_service_type f"]
      by (simp add: encode_feature_def encode_tunnelling_feature_packet_def Let_def frame_sizes
        tunnelling_feature_wire_def knx_packet_def encode_connection_header_wire
        on_subspan_wire [where w = ?h] wire_simps)
  qed
  show "length (snd (encode_feature d f)) = length d"
    by (auto simp: encode_feature_def encode_tunnelling_feature_packet_def Let_def frame_sizes
      encode_connection_header_wire split: sum.split intro!: length_bind_w length_on_subspan)
  show "decode_tunnelling_feature_packet (tunnelling_feature_wire f) = Inr f"
    if "tunnelling_feature_wf f" "tunnelling_feature_ok f"
  proof -
    have v: "length ?v \<le> 16" using that(2) by (simp add: tunnelling_feature_ok_def frame_sizes)
    have nth: "tunnelling_feature_wire f ! 10 = tf_feature f" "tunnelling_feature_wire f ! 11 = tf_return_code f"
      "drop 12 (tunnelling_feature_wire f) = ?v" "length (tunnelling_feature_wire f) = 12 + length ?v"
      by (simp_all add: tunnelling_feature_wire_def knx_packet_def header_wire_def connection_wire_def)
    have dec: "decode_communication_header (tunnelling_feature_wire f) = Inr \<lparr> ch_protocol_version = 0x10,
        ch_service_type = tf_service_type f, ch_total_length = word_of_nat (12 + length ?v) \<rparr>"
      using decode_header_wire [of ?b "tf_service_type f"] v by (simp add: tunnelling_feature_wire_def)
    have con: "decode_connection_header (drop 6 (tunnelling_feature_wire f)) True = Inr \<lparr>
        ta_channel_id = tf_channel_id f, ta_sequence_number = tf_sequence_number f, ta_status = 0 \<rparr>"
      using that(2) by (simp add: tunnelling_feature_wire_def decode_connection_header_wire tunnelling_feature_ok_def)
    have tot: "unat (word_of_nat (12 + length ?v) :: u16) = 12 + length ?v"
      using v by (intro unat_u16_of_nat) simp
    show ?thesis
      using that v by (auto simp: decode_tunnelling_feature_packet_def decode_feature_prologue_def
        decode_feature_value_def dec con nth tot frame_sizes tunnelling_feature_ok_def tunnelling_feature_wf_def
        subspan_def Let_def simp del: of_nat_add)
  qed
  show "tunnelling_feature_ok f \<and> length (tunnelling_feature_wire f) \<le> length d"
    if "fst (encode_feature d f) = Inr ()"
    using that validate_feature_ok [of f]
    by (auto simp: encode_feature_def encode_tunnelling_feature_packet_def
      tunnelling_feature_wire_def Let_def frame_sizes split: if_splits sum.splits)
qed

lemma decode_feature_prologue_sound:
  assumes "decode_feature_prologue buf h = Inr g" "12 \<le> length buf"
  shows "tf_channel_id g \<noteq> 0" "tf_service_type g = ch_service_type h" "valid_feature (tf_feature g)"
    "tunnelling_feature_wf g"
    "drop 6 buf = connection_wire (tf_channel_id g) (tf_sequence_number g) 0 @
       [tf_feature g, tf_return_code g] @ drop 12 buf"
proof -
  obtain c where con: "decode_connection_header (drop 6 buf) True = Inr c"
    and g: "valid_feature (buf ! 10)"
      "g = \<lparr> tf_service_type = ch_service_type h, tf_channel_id = ta_channel_id c,
        tf_sequence_number = ta_sequence_number c, tf_feature = buf ! 10,
        tf_return_code = (if ch_service_type h = tunnelling_feature_response_service then buf ! 11 else 0),
        tf_value = [] \<rparr>"
      "ch_service_type h = tunnelling_feature_response_service \<or> buf ! 11 = 0"
    using assms(1) by (auto simp: decode_feature_prologue_def Let_def frame_sizes split: sum.splits if_splits)
  note c = decode_connection_header_sound [OF con]
  have "drop 4 (drop 6 buf) = buf ! 10 # buf ! 11 # drop 12 buf"
    using list_prefix_nth(1) [of "drop 10 buf"] assms(2) by simp
  then show "drop 6 buf = connection_wire (tf_channel_id g) (tf_sequence_number g) 0 @
       [tf_feature g, tf_return_code g] @ drop 12 buf"
    using c(3,4) g(2,3) by auto
  show "tf_channel_id g \<noteq> 0" "tf_service_type g = ch_service_type h" "valid_feature (tf_feature g)"
    "tunnelling_feature_wf g"
    using c(1) g by (auto simp: tunnelling_feature_wf_def)
qed

interpretation tunnelling_features_canonical: canonical_codec tunnelling_feature_wire
  tunnelling_feature_wf tunnelling_feature_ok encode_feature decode_tunnelling_feature_packet
proof unfold_locales
  fix buf :: bytes and f :: tunnelling_feature_frame
  assume "decode_tunnelling_feature_packet buf = Inr f"
  then obtain h g where h: "decode_communication_header buf = Inr h" "unat (ch_total_length h) = length buf"
    "is_tunnelling_feature_service (ch_service_type h)" "12 \<le> length buf"
    and g: "decode_feature_prologue buf h = Inr g"
    and f: "length buf - 12 \<le> feature_value_capacity" "f = g\<lparr> tf_value := drop 12 buf \<rparr>"
      "feature_service_carries_value (tf_service_type g) (tf_return_code g) = (length buf - 12 \<noteq> 0)"
    by (auto simp: decode_tunnelling_feature_packet_def decode_feature_value_def Let_def frame_sizes subspan_def
      split: sum.splits if_splits)
  note s = decode_feature_prologue_sound [OF g h(4)]
  have "drop 6 buf = connection_wire (tf_channel_id f) (tf_sequence_number f) 0 @
       [tf_feature f, tf_return_code f] @ tf_value f"
    using s(5) f(2) by simp
  from knx_packet_eqI [OF h(1,2) refl this] s f h(3,4)
  show "tunnelling_feature_wf f \<and> tunnelling_feature_ok f \<and> tunnelling_feature_wire f = buf"
    by (auto simp: tunnelling_feature_wire_def tunnelling_feature_wf_def tunnelling_feature_ok_def)
qed

lemma encode_request_bounds: "length (snd (encode_tunnelling_request_packet d c s b)) = length d"
  by (auto simp: encode_tunnelling_request_packet_def Let_def frame_sizes length_encode_tunnelling_request
    intro!: length_bind_w length_on_subspan)

lemma encode_ack_bounds:
  "length (snd (encode_tunnelling_ack_packet d c s t)) = length d"
  "length (snd (encode_device_configuration_ack_packet d c s t)) = length d"
  by (auto simp: encode_tunnelling_ack_packet_def encode_device_configuration_ack_packet_def Let_def frame_sizes
    encode_connection_header_wire intro!: length_bind_w length_on_subspan)

lemma encode_configuration_bounds:
  "length (snd (encode_device_configuration_request_packet d c s b)) = length d"
  by (auto simp: encode_device_configuration_request_packet_def Let_def frame_sizes
    encode_connection_header_wire intro!: length_bind_w length_on_subspan)

lemma encode_feature_bounds: "length (snd (encode_tunnelling_feature_packet d f v)) = length d"
  by (auto simp: encode_tunnelling_feature_packet_def Let_def frame_sizes
    encode_connection_header_wire split: sum.split intro!: length_bind_w length_on_subspan)

lemma encode_feature_ok_iff:
  "fst (encode_feature d f) = Inr () \<longleftrightarrow>
     tunnelling_feature_ok f \<and> length (tunnelling_feature_wire f) \<le> length d"
proof (cases "tunnelling_feature_wf f")
  case True
  then show ?thesis by (rule tunnelling_features.encode_ok_iff)
next
  case False
  let ?g = "f\<lparr> tf_return_code := 0 \<rparr>"
  have svc: "tf_service_type f \<noteq> tunnelling_feature_response_service"
    using False by (simp add: tunnelling_feature_wf_def)
  then have val: "validate_feature ?g (tf_value f) = validate_feature f (tf_value f)"
    by (simp add: validate_feature_def feature_service_carries_value_def)
  have "encode_feature d ?g = encode_feature d f"
    using svc by (cases "validate_feature f (tf_value f)")
      (simp_all add: encode_feature_def encode_tunnelling_feature_packet_def val Let_def)
  moreover have "tunnelling_feature_ok ?g = tunnelling_feature_ok f"
    using val validate_feature_ok [of ?g] validate_feature_ok [of f] by simp
  moreover have "tunnelling_feature_wf ?g" by (simp add: tunnelling_feature_wf_def)
  ultimately show ?thesis
    using tunnelling_features.encode_ok_iff [of ?g d] by (simp add: tunnelling_feature_wire_def)
qed

subsection \<open>Properties\<close>

text \<open>
  C35: the decoder of tunnelling request packets accepts exactly the octets of the requests with a
  non-zero channel and a cEMI message the cEMI decoder accepts: header and connection header as specified
  and a total length equal to the datagram's.  The frame's \<open>message_length\<close> is the number of cEMI octets, ten
  less than the length of the datagram, although \<open>frame.hpp\<close> documents it as the length the header
  declared for the whole datagram.
\<close>

theorem tunnelling_request_exact:
  "(decode_tunnelling_request_packet buf = Inr f \<longleftrightarrow>
      tr_channel_id f \<noteq> 0 \<and> cemi_decode (tr_cemi_bytes f) = Inr (tr_cemi f) \<and>
      unat (tr_message_length f) = length (tr_cemi_bytes f) \<and> buf = tunnelling_request_wire f) \<and>
   (decode_tunnelling_request_packet buf = Inr f \<longrightarrow> length buf = unat (tr_message_length f) + 10)"
proof -
  have "tunnelling_request_wf f \<longleftrightarrow> unat (tr_message_length f) = length (tr_cemi_bytes f)" if "tunnelling_request_ok f"
  proof -
    have "length (tr_cemi_bytes f) \<le> 520" using that cemi_decode_size(2) by (auto simp: tunnelling_request_ok_def)
    then have "unat (word_of_nat (length (tr_cemi_bytes f)) :: u16) = length (tr_cemi_bytes f)" by (intro unat_u16_of_nat) simp
    then show ?thesis by (metis tunnelling_request_wf_def word_unat_eq_iff)
  qed
  then show ?thesis
    using tunnelling_request_canonical.decode_iff [of buf f]
    by (auto simp: tunnelling_request_ok_def tunnelling_request_wire_def connection_wire_def)
qed

theorem tunnelling_request_exact_witness:
  "decode_tunnelling_request_packet (tunnelling_request_wire sample_request) = Inr sample_request \<and>
   length (tunnelling_request_wire sample_request) = unat (tr_message_length sample_request) + 10"
proof -
  have "tr_channel_id sample_request \<noteq> 0" "cemi_decode (tr_cemi_bytes sample_request) = Inr (tr_cemi sample_request)"
    "unat (tr_message_length sample_request) = length (tr_cemi_bytes sample_request)" by code_simp+
  then show ?thesis using tunnelling_request_exact [of "tunnelling_request_wire sample_request" sample_request] by simp
qed

text \<open>
  A tunnelling request the format carries is encoded into any buffer large enough, without
  touching octets past the packet, and decoding the packet gives the request back.
\<close>

theorem tunnelling_request_roundtrip:
  assumes "tunnelling_request_wf f" "tunnelling_request_ok f"
    and "length (tunnelling_request_wire f) \<le> length d"
  shows "\<exists>d'. encode_tunnelling_request_packet d (tr_channel_id f) (tr_sequence_number f) (tr_cemi_bytes f) =
      (Inr (), d') \<and> length d' = length d \<and>
    drop (length (tunnelling_request_wire f)) d' = drop (length (tunnelling_request_wire f)) d \<and>
    decode_tunnelling_request_packet (take (length (tunnelling_request_wire f)) d') = Inr f"
  using tunnelling_request.round_trip [OF assms] by (simp only: encode_request_def)

theorem tunnelling_request_roundtrip_witness:
  "\<exists>d'. encode_tunnelling_request_packet (replicate 30 0) (tr_channel_id sample_request)
       (tr_sequence_number sample_request) (tr_cemi_bytes sample_request) = (Inr (), d') \<and>
     length d' = length (replicate 30 (0 :: byte)) \<and>
     drop (length (tunnelling_request_wire sample_request)) d' =
       drop (length (tunnelling_request_wire sample_request)) (replicate 30 0) \<and>
     decode_tunnelling_request_packet (take (length (tunnelling_request_wire sample_request)) d') =
       Inr sample_request"
  by (rule tunnelling_request_roundtrip) code_simp+

text \<open>
  No encoder of this layer writes outside its destination, whatever arguments it is given and
  however small the destination is.
\<close>

theorem frame_encoders_in_bounds:
  "length (snd (encode_tunnelling_request_packet d c s b)) = length d \<and>
   length (snd (encode_tunnelling_ack_packet d c s t)) = length d \<and>
   length (snd (encode_device_configuration_request_packet d c s b)) = length d \<and>
   length (snd (encode_device_configuration_ack_packet d c s t)) = length d \<and>
   length (snd (encode_tunnelling_feature_packet d f v)) = length d"
  using encode_request_bounds encode_ack_bounds encode_configuration_bounds encode_feature_bounds by blast

text \<open>
  Acknowledgements of tunnelling requests: the encoder succeeds exactly for a non-zero channel
  and a large enough buffer, and the decoder accepts exactly the encoder's images.
\<close>

theorem tunnelling_ack_exact:
  "(fst (encode_tunnelling_ack_packet d c s t) = Inr () \<longleftrightarrow> c \<noteq> 0 \<and> 10 \<le> length d) \<and>
   (decode_tunnelling_ack_packet buf = Inr f \<longleftrightarrow> ta_channel_id f \<noteq> 0 \<and> buf = tunnelling_ack_wire f)"
  using tunnelling_ack.encode_ok_iff [of d "\<lparr> ta_channel_id = c, ta_sequence_number = s, ta_status = t \<rparr>"]
    tunnelling_ack_canonical.decode_iff [of buf f]
  by (simp add: encode_ack_def tunnelling_ack_wire_def)

text \<open>
  Device configuration: requests and acknowledgements are decoded exactly when they are the
  images of a frame with a non-zero channel and, for requests, one to 520 cEMI octets; a decoded
  request therefore always fits the storage reserved for it.
\<close>

theorem device_configuration_exact:
  "(decode_device_configuration_request_packet buf = Inr r \<longleftrightarrow>
      device_configuration_wf r \<and> device_configuration_ok r \<and> buf = device_configuration_wire r) \<and>
   (decode_device_configuration_ack_packet buf = Inr f \<longleftrightarrow>
      ta_channel_id f \<noteq> 0 \<and> buf = device_configuration_ack_wire f)"
  using device_configuration_canonical.decode_iff [of buf r] configuration_ack_canonical.decode_iff [of buf f]
  by simp

text \<open>
  Tunnelling features: the decoder accepts exactly the images of feature frames that name a
  known service and feature, carry at most sixteen value octets, and carry a value precisely when
  the service calls for one; the encoder accepts the same frames.
\<close>

theorem tunnelling_feature_exact:
  "(decode_tunnelling_feature_packet buf = Inr f \<longleftrightarrow>
      tunnelling_feature_wf f \<and> tunnelling_feature_ok f \<and> buf = tunnelling_feature_wire f) \<and>
   (fst (encode_tunnelling_feature_packet d f (tf_value f)) = Inr () \<longleftrightarrow>
      tunnelling_feature_ok f \<and> length (tunnelling_feature_wire f) \<le> length d)"
  using tunnelling_features_canonical.decode_iff [of buf f] encode_feature_ok_iff [of d f]
  by (simp add: encode_feature_def)

end
