(* ===== verification/Knx_Connection.thy ===== *)
theory Knx_Connection
  imports Knx_Frame
begin

text \<open>
  Connection management after \<open>knx/connection.hpp\<close> and \<open>knx/connection.cpp\<close>: the host protocol
  address information (HPAI) blocks, CONNECT requests and responses over IPv4 and IPv6 for
  tunnelling and for device management, and the CONNECTIONSTATE and DISCONNECT exchanges.

  The address arrays of an endpoint are octet lists; \<open>hpai_wf\<close> and \<open>ipv6_hpai_wf\<close> state the length
  their C++ type fixes.  \<open>connect_status\<close> is an enumeration the decoders cast from a received octet
  after checking that it is a named value; it is an octet with named constants.
\<close>

subsection \<open>Data\<close>

type_synonym connect_status = byte

definition no_error :: connect_status where "no_error = 0x00"
definition host_protocol_type :: connect_status where "host_protocol_type = 0x01"
definition version_not_supported :: connect_status where "version_not_supported = 0x02"
definition status_sequence_number :: connect_status where "status_sequence_number = 0x04"
definition connection_id :: connect_status where "connection_id = 0x21"
definition connection_type :: connect_status where "connection_type = 0x22"
definition connection_option :: connect_status where "connection_option = 0x23"
definition no_more_connections :: connect_status where "no_more_connections = 0x24"
definition no_more_unique_connections :: connect_status where "no_more_unique_connections = 0x25"
definition data_connection :: connect_status where "data_connection = 0x26"
definition knx_connection :: connect_status where "knx_connection = 0x27"
definition authorisation_error :: connect_status where "authorisation_error = 0x28"
definition tunnelling_layer :: connect_status where "tunnelling_layer = 0x29"
definition no_tunnelling_address :: connect_status where "no_tunnelling_address = 0x2D"
definition connection_in_use :: connect_status where "connection_in_use = 0x2E"

record ipv4_endpoint =
  v4_address :: bytes
  v4_port :: u16

record ipv6_endpoint =
  v6_address :: bytes
  v6_port :: u16

record hpai =
  hpai_endpoint :: ipv4_endpoint
  hpai_protocol :: byte

record ipv6_hpai =
  hpai6_endpoint :: ipv6_endpoint
  hpai6_protocol :: byte

definition route_back :: "hpai \<Rightarrow> bool" where
  "route_back h \<longleftrightarrow>
     (if v4_port (hpai_endpoint h) \<noteq> 0 then False
      else list_all (\<lambda>octet. octet = 0) (v4_address (hpai_endpoint h)))"

definition ipv6_route_back :: "ipv6_hpai \<Rightarrow> bool" where
  "ipv6_route_back h \<longleftrightarrow>
     (if v6_port (hpai6_endpoint h) \<noteq> 0 then False
      else list_all (\<lambda>octet. octet = 0) (v6_address (hpai6_endpoint h)))"

record ipv6_connect_request_frame =
  cr6_control_endpoint :: ipv6_hpai
  cr6_data_endpoint :: ipv6_hpai

record ipv6_connect_response_frame =
  cs6_channel_id :: byte
  cs6_status :: connect_status
  cs6_data_endpoint :: ipv6_hpai
  cs6_assigned_address :: individual_address

record connect_request_frame =
  cr_control_endpoint :: hpai
  cr_data_endpoint :: hpai
  cr_knx_layer :: byte
  cr_requested_address :: "individual_address option"

record management_connect_request_frame =
  mr_control_endpoint :: hpai
  mr_data_endpoint :: hpai

record management_connect_response_frame =
  ms_channel_id :: byte
  ms_status :: connect_status
  ms_data_endpoint :: hpai

record connect_response_frame =
  cs_channel_id :: byte
  cs_status :: connect_status
  cs_data_endpoint :: hpai
  cs_assigned_address :: individual_address

record connectionstate_request_frame =
  sr_channel_id :: byte
  sr_control_endpoint :: hpai

record connectionstate_response_frame =
  ss_channel_id :: byte
  ss_status :: connect_status

record disconnect_request_frame =
  dr_channel_id :: byte
  dr_control_endpoint :: hpai

record disconnect_response_frame =
  ds_channel_id :: byte
  ds_status :: connect_status

definition connect_request_service :: u16 where "connect_request_service = 0x0205"
definition connect_response_service :: u16 where "connect_response_service = 0x0206"
definition connectionstate_request_service :: u16 where "connectionstate_request_service = 0x0207"
definition connectionstate_response_service :: u16 where "connectionstate_response_service = 0x0208"
definition disconnect_request_service :: u16 where "disconnect_request_service = 0x0209"
definition disconnect_response_service :: u16 where "disconnect_response_service = 0x020A"
definition hpai_size :: nat where "hpai_size = 8"
definition ipv6_hpai_size :: nat where "ipv6_hpai_size = 20"
definition connect_request_body_size :: nat where "connect_request_body_size = 20"
definition connect_response_body_size :: nat where "connect_response_body_size = 14"
definition ipv6_connect_request_body_size :: nat where "ipv6_connect_request_body_size = 44"
definition ipv6_connect_response_body_size :: nat where "ipv6_connect_response_body_size = 26"
definition tunnel_information_size :: byte where "tunnel_information_size = 0x04"
definition extended_tunnel_information_size :: byte where "extended_tunnel_information_size = 0x06"
definition extended_connect_request_body_size :: nat where
  "extended_connect_request_body_size = connect_request_body_size + 2"
definition management_information_size :: byte where "management_information_size = 0x02"
definition management_connect_request_body_size :: nat where
  "management_connect_request_body_size = 2 * hpai_size + unat management_information_size"
definition control_request_body_size :: nat where "control_request_body_size = 2 + hpai_size"
definition management_connect_response_body_size :: nat where
  "management_connect_response_body_size = 2 + hpai_size + unat management_information_size"
definition tunnel_type :: byte where "tunnel_type = 0x04"
definition management_type :: byte where "management_type = 0x03"
definition tunnel_link_layer :: byte where "tunnel_link_layer = 0x02"
definition tunnel_raw_layer :: byte where "tunnel_raw_layer = 0x04"
definition tunnel_busmonitor_layer :: byte where "tunnel_busmonitor_layer = 0x80"
definition udp_protocol :: byte where "udp_protocol = 0x01"
definition tcp_protocol :: byte where "tcp_protocol = 0x02"

definition valid_tunnel_layer :: "byte \<Rightarrow> bool" where
  "valid_tunnel_layer v \<longleftrightarrow> v = tunnel_link_layer \<or> v = tunnel_raw_layer \<or> v = tunnel_busmonitor_layer"

definition known_protocol :: "byte \<Rightarrow> bool" where
  "known_protocol v \<longleftrightarrow> v = udp_protocol \<or> v = tcp_protocol"

definition valid_status :: "byte \<Rightarrow> bool" where
  "valid_status v \<longleftrightarrow> v \<in> {no_error, host_protocol_type, version_not_supported, status_sequence_number,
     connection_id, connection_type, connection_option, no_more_connections, no_more_unique_connections,
     data_connection, knx_connection, authorisation_error, tunnelling_layer, no_tunnelling_address,
     connection_in_use}"

subsection \<open>Host protocol address information\<close>

definition encode_hpai :: "bytes \<Rightarrow> hpai \<Rightarrow> bytes" where
  "encode_hpai dest h =
     (let a = v4_address (hpai_endpoint h)
      in write_at dest 0
        [word_of_nat hpai_size, hpai_protocol h, a ! 0, a ! 1, a ! 2, a ! 3,
         hi8 (v4_port (hpai_endpoint h)), lo8 (v4_port (hpai_endpoint h))])"

definition encode_ipv6_hpai :: "bytes \<Rightarrow> ipv6_hpai \<Rightarrow> bytes" where
  "encode_ipv6_hpai dest h =
     (let dest = write_at dest 0 [word_of_nat ipv6_hpai_size, hpai6_protocol h];
          dest = write_at dest 2 (v6_address (hpai6_endpoint h))
      in write_at dest 18 [hi8 (v6_port (hpai6_endpoint h)), lo8 (v6_port (hpai6_endpoint h))])"

definition decode_ipv6_hpai :: "bytes \<Rightarrow> ipv6_hpai result" where
  "decode_ipv6_hpai source =
     (if length source < ipv6_hpai_size \<or> unat (source ! 0) \<noteq> ipv6_hpai_size then Inl Malformed_frame
      else if \<not> known_protocol (source ! 1) then Inl Unsupported_hpai
      else Inr \<lparr> hpai6_endpoint = \<lparr> v6_address = subspan source 2 16,
                   v6_port = be16 (source ! 18) (source ! 19) \<rparr>,
                 hpai6_protocol = source ! 1 \<rparr>)"

definition decode_hpai :: "bytes \<Rightarrow> hpai result" where
  "decode_hpai source =
     (if source \<noteq> [] \<and> source ! 0 = 20 then Inl Unsupported_hpai
      else if length source < hpai_size \<or> unat (source ! 0) \<noteq> hpai_size then Inl Malformed_frame
      else if \<not> known_protocol (source ! 1) then Inl Unsupported_hpai
      else Inr \<lparr> hpai_endpoint = \<lparr> v4_address = [source ! 2, source ! 3, source ! 4, source ! 5],
                   v4_port = be16 (source ! 6) (source ! 7) \<rparr>,
                 hpai_protocol = source ! 1 \<rparr>)"

definition valid_header :: "communication_header \<Rightarrow> nat \<Rightarrow> u16 \<Rightarrow> bool" where
  "valid_header header sz service \<longleftrightarrow> ch_protocol_version header = 0x10 \<and>
     ch_service_type header = service \<and> unat (ch_total_length header) = sz"

subsection \<open>Control packets\<close>

definition encode_control_packet :: "bytes \<Rightarrow> u16 \<Rightarrow> byte \<Rightarrow> byte \<Rightarrow> unit result \<times> bytes" where
  "encode_control_packet dest service channel_id status =
     (let total_length = communication_header_size + 2
      in if length dest < total_length then (Inl Invalid_length, dest)
         else
           bind_w (encode_communication_header dest service (word_of_nat total_length) 0x10)
             (\<lambda>dest. (Inr (), write_at dest 6 [channel_id, status])))"

definition decode_control_packet :: "bytes \<Rightarrow> u16 \<Rightarrow> (byte \<times> byte) result" where
  "decode_control_packet packet service =
     (case decode_communication_header packet of Inl e \<Rightarrow> Inl e | Inr header \<Rightarrow>
      if \<not> valid_header header (length packet) service then Inl Unsupported_service
      else if length packet \<noteq> communication_header_size + 2 then Inl Malformed_frame
      else Inr (packet ! 6, packet ! 7))"

definition encode_control_request_packet :: "bytes \<Rightarrow> u16 \<Rightarrow> byte \<Rightarrow> hpai \<Rightarrow> unit result \<times> bytes" where
  "encode_control_request_packet dest service channel_id control_endpoint =
     (let total_length = communication_header_size + control_request_body_size
      in if length dest < total_length then (Inl Invalid_length, dest)
         else if \<not> known_protocol (hpai_protocol control_endpoint) then (Inl Unsupported_hpai, dest)
         else
           bind_w (encode_communication_header dest service (word_of_nat total_length) 0x10)
             (\<lambda>dest.
               let dest = write_at dest 6 [channel_id, 0x00];
                   dest = update_subspan dest 8 hpai_size (\<lambda>s. encode_hpai s control_endpoint)
               in (Inr (), dest)))"

definition decode_control_request_packet :: "bytes \<Rightarrow> u16 \<Rightarrow> (byte \<times> hpai) result" where
  "decode_control_request_packet packet service =
     (case decode_communication_header packet of Inl e \<Rightarrow> Inl e | Inr header \<Rightarrow>
      if \<not> valid_header header (length packet) service then Inl Unsupported_service
      else if length packet \<noteq> communication_header_size + control_request_body_size \<or> packet ! 7 \<noteq> 0x00
      then Inl Malformed_frame
      else
        case decode_hpai (subspan packet 8 hpai_size) of Inl e \<Rightarrow> Inl e | Inr control \<Rightarrow>
          Inr (packet ! 6, control))"

subsection \<open>Connect requests\<close>

definition encode_tunnel_request_information :: "bytes \<Rightarrow> connect_request_frame \<Rightarrow> bytes" where
  "encode_tunnel_request_information dest request =
     (let dest = write_at dest 0
            [if cr_requested_address request \<noteq> None then extended_tunnel_information_size
             else tunnel_information_size, tunnel_type, cr_knx_layer request, 0x00]
      in case cr_requested_address request of
           None \<Rightarrow> dest
         | Some a \<Rightarrow> write_at dest 4 [hi8 (ia_value a), lo8 (ia_value a)])"

definition encode_connect_request_packet :: "bytes \<Rightarrow> connect_request_frame \<Rightarrow> unit result \<times> bytes" where
  "encode_connect_request_packet dest request =
     (let body_size = (if cr_requested_address request \<noteq> None then extended_connect_request_body_size
            else connect_request_body_size);
          total_length = communication_header_size + body_size
      in if length dest < total_length then (Inl Invalid_length, dest)
         else if \<not> known_protocol (hpai_protocol (cr_control_endpoint request)) \<or>
           hpai_protocol (cr_data_endpoint request) \<noteq> hpai_protocol (cr_control_endpoint request)
         then (Inl Unsupported_hpai, dest)
         else
           bind_w (encode_communication_header dest connect_request_service (word_of_nat total_length) 0x10)
             (\<lambda>dest.
               if \<not> valid_tunnel_layer (cr_knx_layer request) then (Inl Invalid_configuration, dest)
               else
                 let dest = update_subspan dest 6 hpai_size (\<lambda>s. encode_hpai s (cr_control_endpoint request));
                     dest = update_subspan dest 14 hpai_size (\<lambda>s. encode_hpai s (cr_data_endpoint request));
                     dest = update_subspan dest 22 (length dest - 22)
                       (\<lambda>s. encode_tunnel_request_information s request)
                 in (Inr (), dest)))"

definition decode_connect_request_packet :: "bytes \<Rightarrow> connect_request_frame result" where
  "decode_connect_request_packet packet =
     (case decode_communication_header packet of Inl e \<Rightarrow> Inl e | Inr header \<Rightarrow>
      if \<not> valid_header header (length packet) connect_request_service then Inl Unsupported_service
      else
        let extended = length packet = communication_header_size + extended_connect_request_body_size
        in if \<not> extended \<and> length packet \<noteq> communication_header_size + connect_request_body_size
           then Inl Malformed_frame
           else
             case decode_hpai (subspan packet 6 hpai_size) of Inl e \<Rightarrow> Inl e | Inr control \<Rightarrow>
             case decode_hpai (subspan packet 14 hpai_size) of Inl e \<Rightarrow> Inl e | Inr data \<Rightarrow>
             let information_size = (if extended then extended_tunnel_information_size
                   else tunnel_information_size)
             in if packet ! 22 \<noteq> information_size \<or> packet ! 23 \<noteq> tunnel_type \<or>
                  \<not> valid_tunnel_layer (packet ! 24) \<or> packet ! 25 \<noteq> 0x00
                then Inl Unsupported_connection_type
                else Inr \<lparr> cr_control_endpoint = control, cr_data_endpoint = data, cr_knx_layer = packet ! 24,
                  cr_requested_address = (if extended
                    then Some (Individual_address (be16 (packet ! 26) (packet ! 27))) else None) \<rparr>)"

definition encode_ipv6_connect_request_packet ::
    "bytes \<Rightarrow> ipv6_connect_request_frame \<Rightarrow> unit result \<times> bytes" where
  "encode_ipv6_connect_request_packet dest request =
     (let total_length = communication_header_size + ipv6_connect_request_body_size
      in if length dest < total_length then (Inl Invalid_length, dest)
         else if hpai6_protocol (cr6_control_endpoint request) \<noteq> udp_protocol \<or>
           hpai6_protocol (cr6_data_endpoint request) \<noteq> udp_protocol then (Inl Unsupported_hpai, dest)
         else
           bind_w (encode_communication_header dest connect_request_service (word_of_nat total_length) 0x10)
             (\<lambda>dest.
               let dest = update_subspan dest 6 ipv6_hpai_size
                     (\<lambda>s. encode_ipv6_hpai s (cr6_control_endpoint request));
                   dest = update_subspan dest 26 ipv6_hpai_size
                     (\<lambda>s. encode_ipv6_hpai s (cr6_data_endpoint request));
                   dest = write_at dest 46 [tunnel_information_size, tunnel_type, tunnel_link_layer, 0]
               in (Inr (), dest)))"

definition decode_ipv6_connect_request_packet :: "bytes \<Rightarrow> ipv6_connect_request_frame result" where
  "decode_ipv6_connect_request_packet packet =
     (case decode_communication_header packet of Inl e \<Rightarrow> Inl e | Inr header \<Rightarrow>
      if \<not> valid_header header (length packet) connect_request_service then Inl Unsupported_service
      else if length packet \<noteq> communication_header_size + ipv6_connect_request_body_size
      then Inl Malformed_frame
      else
        case decode_ipv6_hpai (subspan packet 6 ipv6_hpai_size) of Inl e \<Rightarrow> Inl e | Inr control \<Rightarrow>
        case decode_ipv6_hpai (subspan packet 26 ipv6_hpai_size) of Inl e \<Rightarrow> Inl e | Inr data \<Rightarrow>
        if packet ! 46 \<noteq> tunnel_information_size \<or> packet ! 47 \<noteq> tunnel_type \<or>
          packet ! 48 \<noteq> tunnel_link_layer \<or> packet ! 49 \<noteq> 0 then Inl Unsupported_connection_type
        else Inr \<lparr> cr6_control_endpoint = control, cr6_data_endpoint = data \<rparr>)"

subsection \<open>Connect responses\<close>

definition default_hpai :: hpai where
  "default_hpai = \<lparr> hpai_endpoint = \<lparr> v4_address = [0, 0, 0, 0], v4_port = 0 \<rparr>, hpai_protocol = 0x01 \<rparr>"

definition encode_connect_response_packet :: "bytes \<Rightarrow> connect_response_frame \<Rightarrow> unit result \<times> bytes" where
  "encode_connect_response_packet dest response =
     (let total_length = communication_header_size + connect_response_body_size
      in if length dest < total_length then (Inl Invalid_length, dest)
         else if \<not> known_protocol (hpai_protocol (cs_data_endpoint response)) then (Inl Unsupported_hpai, dest)
         else if \<not> valid_status (cs_status response) then (Inl Invalid_configuration, dest)
         else
           bind_w (encode_communication_header dest connect_response_service (word_of_nat total_length) 0x10)
             (\<lambda>dest.
               let dest = write_at dest 6 [cs_channel_id response, cs_status response];
                   dest = update_subspan dest 8 hpai_size (\<lambda>s. encode_hpai s (cs_data_endpoint response));
                   dest = write_at dest 16 [tunnel_information_size, tunnel_type,
                     hi8 (ia_value (cs_assigned_address response)),
                     lo8 (ia_value (cs_assigned_address response))]
               in (Inr (), dest)))"

definition decode_connect_response_packet :: "bytes \<Rightarrow> connect_response_frame result" where
  "decode_connect_response_packet packet =
     (case decode_communication_header packet of Inl e \<Rightarrow> Inl e | Inr header \<Rightarrow>
      if \<not> valid_header header (length packet) connect_response_service then Inl Unsupported_service
      else if length packet = communication_header_size + 2 then
        if \<not> valid_status (packet ! 7) then Inl Malformed_frame
        else if packet ! 7 = no_error then Inl Malformed_frame
        else Inr \<lparr> cs_channel_id = packet ! 6, cs_status = packet ! 7, cs_data_endpoint = default_hpai,
                   cs_assigned_address = Individual_address 0 \<rparr>
      else if length packet \<noteq> communication_header_size + connect_response_body_size
      then Inl Malformed_frame
      else
        case decode_hpai (subspan packet 8 hpai_size) of Inl e \<Rightarrow> Inl e | Inr data \<Rightarrow>
        if packet ! 16 \<noteq> tunnel_information_size \<or> packet ! 17 \<noteq> tunnel_type
        then Inl Unsupported_connection_type
        else if \<not> valid_status (packet ! 7) then Inl Malformed_frame
        else Inr \<lparr> cs_channel_id = packet ! 6, cs_status = packet ! 7, cs_data_endpoint = data,
                   cs_assigned_address = Individual_address (be16 (packet ! 18) (packet ! 19)) \<rparr>)"

definition encode_ipv6_connect_response_packet ::
    "bytes \<Rightarrow> ipv6_connect_response_frame \<Rightarrow> unit result \<times> bytes" where
  "encode_ipv6_connect_response_packet dest response =
     (let total_length = communication_header_size + ipv6_connect_response_body_size
      in if length dest < total_length then (Inl Invalid_length, dest)
         else if hpai6_protocol (cs6_data_endpoint response) \<noteq> udp_protocol then (Inl Unsupported_hpai, dest)
         else if \<not> valid_status (cs6_status response) then (Inl Invalid_configuration, dest)
         else
           bind_w (encode_communication_header dest connect_response_service (word_of_nat total_length) 0x10)
             (\<lambda>dest.
               let dest = write_at dest 6 [cs6_channel_id response, cs6_status response];
                   dest = update_subspan dest 8 ipv6_hpai_size
                     (\<lambda>s. encode_ipv6_hpai s (cs6_data_endpoint response));
                   dest = write_at dest 28 [tunnel_information_size, tunnel_type,
                     hi8 (ia_value (cs6_assigned_address response)),
                     lo8 (ia_value (cs6_assigned_address response))]
               in (Inr (), dest)))"

definition decode_ipv6_connect_response_packet :: "bytes \<Rightarrow> ipv6_connect_response_frame result" where
  "decode_ipv6_connect_response_packet packet =
     (case decode_communication_header packet of Inl e \<Rightarrow> Inl e | Inr header \<Rightarrow>
      if \<not> valid_header header (length packet) connect_response_service then Inl Unsupported_service
      else if length packet \<noteq> communication_header_size + ipv6_connect_response_body_size
      then Inl Malformed_frame
      else
        case decode_ipv6_hpai (subspan packet 8 ipv6_hpai_size) of Inl e \<Rightarrow> Inl e | Inr data \<Rightarrow>
        if packet ! 28 \<noteq> tunnel_information_size \<or> packet ! 29 \<noteq> tunnel_type
        then Inl Unsupported_connection_type
        else if \<not> valid_status (packet ! 7) then Inl Malformed_frame
        else Inr \<lparr> cs6_channel_id = packet ! 6, cs6_status = packet ! 7, cs6_data_endpoint = data,
                   cs6_assigned_address = Individual_address (be16 (packet ! 30) (packet ! 31)) \<rparr>)"

subsection \<open>Connection state and disconnection\<close>

definition encode_connectionstate_request_packet ::
    "bytes \<Rightarrow> connectionstate_request_frame \<Rightarrow> unit result \<times> bytes" where
  "encode_connectionstate_request_packet dest request =
     encode_control_request_packet dest connectionstate_request_service (sr_channel_id request)
       (sr_control_endpoint request)"

definition decode_connectionstate_request_packet :: "bytes \<Rightarrow> connectionstate_request_frame result" where
  "decode_connectionstate_request_packet packet =
     (case decode_control_request_packet packet connectionstate_request_service of Inl e \<Rightarrow> Inl e
      | Inr (channel_id, control_endpoint) \<Rightarrow>
        Inr \<lparr> sr_channel_id = channel_id, sr_control_endpoint = control_endpoint \<rparr>)"

definition encode_connectionstate_response_packet ::
    "bytes \<Rightarrow> connectionstate_response_frame \<Rightarrow> unit result \<times> bytes" where
  "encode_connectionstate_response_packet dest response =
     (if \<not> valid_status (ss_status response) then (Inl Invalid_configuration, dest)
      else encode_control_packet dest connectionstate_response_service (ss_channel_id response)
        (ss_status response))"

definition decode_connectionstate_response_packet :: "bytes \<Rightarrow> connectionstate_response_frame result" where
  "decode_connectionstate_response_packet packet =
     (case decode_control_packet packet connectionstate_response_service of Inl e \<Rightarrow> Inl e
      | Inr (channel_id, status) \<Rightarrow>
        if \<not> valid_status status then Inl Malformed_frame
        else Inr \<lparr> ss_channel_id = channel_id, ss_status = status \<rparr>)"

definition encode_disconnect_request_packet :: "bytes \<Rightarrow> disconnect_request_frame \<Rightarrow> unit result \<times> bytes" where
  "encode_disconnect_request_packet dest request =
     encode_control_request_packet dest disconnect_request_service (dr_channel_id request)
       (dr_control_endpoint request)"

definition decode_disconnect_request_packet :: "bytes \<Rightarrow> disconnect_request_frame result" where
  "decode_disconnect_request_packet packet =
     (case decode_control_request_packet packet disconnect_request_service of Inl e \<Rightarrow> Inl e
      | Inr (channel_id, control_endpoint) \<Rightarrow>
        Inr \<lparr> dr_channel_id = channel_id, dr_control_endpoint = control_endpoint \<rparr>)"

definition encode_disconnect_response_packet :: "bytes \<Rightarrow> disconnect_response_frame \<Rightarrow> unit result \<times> bytes" where
  "encode_disconnect_response_packet dest response =
     (if \<not> valid_status (ds_status response) then (Inl Invalid_configuration, dest)
      else encode_control_packet dest disconnect_response_service (ds_channel_id response)
        (ds_status response))"

definition decode_disconnect_response_packet :: "bytes \<Rightarrow> disconnect_response_frame result" where
  "decode_disconnect_response_packet packet =
     (case decode_control_packet packet disconnect_response_service of Inl e \<Rightarrow> Inl e
      | Inr (channel_id, status) \<Rightarrow>
        if \<not> valid_status status then Inl Malformed_frame
        else Inr \<lparr> ds_channel_id = channel_id, ds_status = status \<rparr>)"

subsection \<open>Device management connections\<close>

definition encode_management_connect_request_packet ::
    "bytes \<Rightarrow> management_connect_request_frame \<Rightarrow> unit result \<times> bytes" where
  "encode_management_connect_request_packet dest request =
     (let total_length = communication_header_size + management_connect_request_body_size
      in if length dest < total_length then (Inl Invalid_length, dest)
         else if hpai_protocol (mr_control_endpoint request) \<noteq> udp_protocol \<or>
           hpai_protocol (mr_data_endpoint request) \<noteq> udp_protocol then (Inl Unsupported_hpai, dest)
         else
           bind_w (encode_communication_header dest connect_request_service (word_of_nat total_length) 0x10)
             (\<lambda>dest.
               let dest = update_subspan dest 6 hpai_size (\<lambda>s. encode_hpai s (mr_control_endpoint request));
                   dest = update_subspan dest 14 hpai_size (\<lambda>s. encode_hpai s (mr_data_endpoint request));
                   dest = write_at dest 22 [management_information_size, management_type]
               in (Inr (), dest)))"

definition decode_management_connect_request_packet :: "bytes \<Rightarrow> management_connect_request_frame result" where
  "decode_management_connect_request_packet packet =
     (case decode_communication_header packet of Inl e \<Rightarrow> Inl e | Inr header \<Rightarrow>
      if \<not> valid_header header (length packet) connect_request_service then Inl Unsupported_service
      else if length packet \<noteq> communication_header_size + management_connect_request_body_size
      then Inl Malformed_frame
      else
        case decode_hpai (subspan packet 6 hpai_size) of Inl e \<Rightarrow> Inl e | Inr control \<Rightarrow>
        case decode_hpai (subspan packet 14 hpai_size) of Inl e \<Rightarrow> Inl e | Inr data \<Rightarrow>
        if packet ! 22 \<noteq> management_information_size \<or> packet ! 23 \<noteq> management_type
        then Inl Unsupported_connection_type
        else Inr \<lparr> mr_control_endpoint = control, mr_data_endpoint = data \<rparr>)"

definition encode_management_connect_response_packet ::
    "bytes \<Rightarrow> management_connect_response_frame \<Rightarrow> unit result \<times> bytes" where
  "encode_management_connect_response_packet dest response =
     (let total_length = communication_header_size + management_connect_response_body_size
      in if length dest < total_length then (Inl Invalid_length, dest)
         else if hpai_protocol (ms_data_endpoint response) \<noteq> udp_protocol then (Inl Unsupported_hpai, dest)
         else
           bind_w (encode_communication_header dest connect_response_service (word_of_nat total_length) 0x10)
             (\<lambda>dest.
               let dest = write_at dest 6 [ms_channel_id response, ms_status response];
                   dest = update_subspan dest 8 hpai_size (\<lambda>s. encode_hpai s (ms_data_endpoint response));
                   dest = write_at dest 16 [management_information_size, management_type]
               in (Inr (), dest)))"

definition decode_management_connect_response_packet :: "bytes \<Rightarrow> management_connect_response_frame result" where
  "decode_management_connect_response_packet packet =
     (case decode_communication_header packet of Inl e \<Rightarrow> Inl e | Inr header \<Rightarrow>
      if \<not> valid_header header (length packet) connect_response_service then Inl Unsupported_service
      else if length packet = communication_header_size + 2 then
        if \<not> valid_status (packet ! 7) then Inl Malformed_frame
        else if packet ! 7 = no_error then Inl Malformed_frame
        else Inr \<lparr> ms_channel_id = packet ! 6, ms_status = packet ! 7, ms_data_endpoint = default_hpai \<rparr>
      else if length packet \<noteq> communication_header_size + management_connect_response_body_size
      then Inl Malformed_frame
      else if \<not> valid_status (packet ! 7) then Inl Malformed_frame
      else
        case decode_hpai (subspan packet 8 hpai_size) of Inl e \<Rightarrow> Inl e | Inr data \<Rightarrow>
        if packet ! 16 \<noteq> management_information_size \<or> packet ! 17 \<noteq> management_type
        then Inl Unsupported_connection_type
        else Inr \<lparr> ms_channel_id = packet ! 6, ms_status = packet ! 7, ms_data_endpoint = data \<rparr>)"

subsection \<open>Wire formats\<close>

text \<open>
  The images of the packets.  Each \<open>..._ok\<close> is what the encoder accepts; where the decoder accepts
  more (a CONNECT request whose two endpoints name different protocols, an IPv6 or management
  request over TCP), the codec is lossless but not canonical: a server must be able to read such a
  request in order to refuse it.
\<close>

definition hpai_wf :: "hpai \<Rightarrow> bool" where
  "hpai_wf h \<longleftrightarrow> length (v4_address (hpai_endpoint h)) = 4"

definition hpai_wire :: "hpai \<Rightarrow> bytes" where
  "hpai_wire h = [8, hpai_protocol h] @ v4_address (hpai_endpoint h) @
     [hi8 (v4_port (hpai_endpoint h)), lo8 (v4_port (hpai_endpoint h))]"

definition ipv6_hpai_wf :: "ipv6_hpai \<Rightarrow> bool" where
  "ipv6_hpai_wf h \<longleftrightarrow> length (v6_address (hpai6_endpoint h)) = 16"

definition ipv6_hpai_wire :: "ipv6_hpai \<Rightarrow> bytes" where
  "ipv6_hpai_wire h = [20, hpai6_protocol h] @ v6_address (hpai6_endpoint h) @
     [hi8 (v6_port (hpai6_endpoint h)), lo8 (v6_port (hpai6_endpoint h))]"

definition connectionstate_response_wire :: "connectionstate_response_frame \<Rightarrow> bytes" where
  "connectionstate_response_wire f = knx_packet connectionstate_response_service [ss_channel_id f, ss_status f]"

definition disconnect_response_wire :: "disconnect_response_frame \<Rightarrow> bytes" where
  "disconnect_response_wire f = knx_packet disconnect_response_service [ds_channel_id f, ds_status f]"

definition connectionstate_request_wire :: "connectionstate_request_frame \<Rightarrow> bytes" where
  "connectionstate_request_wire f =
     knx_packet connectionstate_request_service ([sr_channel_id f, 0] @ hpai_wire (sr_control_endpoint f))"

definition disconnect_request_wire :: "disconnect_request_frame \<Rightarrow> bytes" where
  "disconnect_request_wire f =
     knx_packet disconnect_request_service ([dr_channel_id f, 0] @ hpai_wire (dr_control_endpoint f))"

definition requested_wire :: "individual_address option \<Rightarrow> bytes" where
  "requested_wire r = (case r of None \<Rightarrow> [] | Some a \<Rightarrow> [hi8 (ia_value a), lo8 (ia_value a)])"

definition connect_request_wire :: "connect_request_frame \<Rightarrow> bytes" where
  "connect_request_wire f =
     knx_packet connect_request_service
       (hpai_wire (cr_control_endpoint f) @ hpai_wire (cr_data_endpoint f) @
        [4 + word_of_nat (length (requested_wire (cr_requested_address f))), 4, cr_knx_layer f, 0] @
        requested_wire (cr_requested_address f))"

definition connect_request_wf :: "connect_request_frame \<Rightarrow> bool" where
  "connect_request_wf f \<longleftrightarrow> hpai_wf (cr_control_endpoint f) \<and> hpai_wf (cr_data_endpoint f)"

definition connect_request_ok :: "connect_request_frame \<Rightarrow> bool" where
  "connect_request_ok f \<longleftrightarrow> known_protocol (hpai_protocol (cr_control_endpoint f)) \<and>
     hpai_protocol (cr_data_endpoint f) = hpai_protocol (cr_control_endpoint f) \<and>
     valid_tunnel_layer (cr_knx_layer f)"

definition connect_response_wire :: "connect_response_frame \<Rightarrow> bytes" where
  "connect_response_wire f =
     knx_packet connect_response_service
       ([cs_channel_id f, cs_status f] @ hpai_wire (cs_data_endpoint f) @
        [4, 4, hi8 (ia_value (cs_assigned_address f)), lo8 (ia_value (cs_assigned_address f))])"

definition connect_response_ok :: "connect_response_frame \<Rightarrow> bool" where
  "connect_response_ok f \<longleftrightarrow> known_protocol (hpai_protocol (cs_data_endpoint f)) \<and> valid_status (cs_status f)"

definition ipv6_connect_request_wire :: "ipv6_connect_request_frame \<Rightarrow> bytes" where
  "ipv6_connect_request_wire f =
     knx_packet connect_request_service
       (ipv6_hpai_wire (cr6_control_endpoint f) @ ipv6_hpai_wire (cr6_data_endpoint f) @ [4, 4, 2, 0])"

definition ipv6_connect_request_wf :: "ipv6_connect_request_frame \<Rightarrow> bool" where
  "ipv6_connect_request_wf f \<longleftrightarrow> ipv6_hpai_wf (cr6_control_endpoint f) \<and> ipv6_hpai_wf (cr6_data_endpoint f)"

definition ipv6_connect_request_ok :: "ipv6_connect_request_frame \<Rightarrow> bool" where
  "ipv6_connect_request_ok f \<longleftrightarrow> hpai6_protocol (cr6_control_endpoint f) = udp_protocol \<and>
     hpai6_protocol (cr6_data_endpoint f) = udp_protocol"

definition ipv6_connect_response_wire :: "ipv6_connect_response_frame \<Rightarrow> bytes" where
  "ipv6_connect_response_wire f =
     knx_packet connect_response_service
       ([cs6_channel_id f, cs6_status f] @ ipv6_hpai_wire (cs6_data_endpoint f) @
        [4, 4, hi8 (ia_value (cs6_assigned_address f)), lo8 (ia_value (cs6_assigned_address f))])"

definition ipv6_connect_response_ok :: "ipv6_connect_response_frame \<Rightarrow> bool" where
  "ipv6_connect_response_ok f \<longleftrightarrow> hpai6_protocol (cs6_data_endpoint f) = udp_protocol \<and>
     valid_status (cs6_status f)"

definition management_request_wire :: "management_connect_request_frame \<Rightarrow> bytes" where
  "management_request_wire f =
     knx_packet connect_request_service
       (hpai_wire (mr_control_endpoint f) @ hpai_wire (mr_data_endpoint f) @ [2, 3])"

definition management_request_wf :: "management_connect_request_frame \<Rightarrow> bool" where
  "management_request_wf f \<longleftrightarrow> hpai_wf (mr_control_endpoint f) \<and> hpai_wf (mr_data_endpoint f)"

definition management_request_ok :: "management_connect_request_frame \<Rightarrow> bool" where
  "management_request_ok f \<longleftrightarrow> hpai_protocol (mr_control_endpoint f) = udp_protocol \<and>
     hpai_protocol (mr_data_endpoint f) = udp_protocol"

definition management_response_wire :: "management_connect_response_frame \<Rightarrow> bytes" where
  "management_response_wire f =
     knx_packet connect_response_service
       ([ms_channel_id f, ms_status f] @ hpai_wire (ms_data_endpoint f) @ [2, 3])"

definition management_response_ok :: "management_connect_response_frame \<Rightarrow> bool" where
  "management_response_ok f \<longleftrightarrow> hpai_protocol (ms_data_endpoint f) = udp_protocol \<and> valid_status (ms_status f)"

definition sample_hpai :: hpai where
  "sample_hpai = \<lparr> hpai_endpoint = \<lparr> v4_address = [192, 168, 1, 20], v4_port = 3671 \<rparr>, hpai_protocol = 0x01 \<rparr>"

definition sample_connect_request :: connect_request_frame where
  "sample_connect_request = \<lparr> cr_control_endpoint = sample_hpai, cr_data_endpoint = sample_hpai,
     cr_knx_layer = 0x02, cr_requested_address = Some (Individual_address 0x110A) \<rparr>"

definition sample_connect_response :: connect_response_frame where
  "sample_connect_response = \<lparr> cs_channel_id = 21, cs_status = 0, cs_data_endpoint = sample_hpai,
     cs_assigned_address = Individual_address 0x110A \<rparr>"

subsection \<open>Lemmas\<close>

lemmas connection_sizes = hpai_size_def ipv6_hpai_size_def connect_request_body_size_def
  connect_response_body_size_def ipv6_connect_request_body_size_def ipv6_connect_response_body_size_def
  extended_connect_request_body_size_def management_connect_request_body_size_def
  control_request_body_size_def management_connect_response_body_size_def
  management_information_size_def tunnel_information_size_def extended_tunnel_information_size_def
  tunnel_type_def management_type_def tunnel_link_layer_def frame_sizes

lemma length_hpai_wire [simp]: "hpai_wf h \<Longrightarrow> length (hpai_wire h) = 8"
  by (simp add: hpai_wire_def hpai_wf_def)

lemma length_ipv6_hpai_wire [simp]: "ipv6_hpai_wf h \<Longrightarrow> length (ipv6_hpai_wire h) = 20"
  by (simp add: ipv6_hpai_wire_def ipv6_hpai_wf_def)

lemma length_encode_hpai: "length s = 8 \<Longrightarrow> length (encode_hpai s h) = 8"
  by (simp add: encode_hpai_def Let_def)

lemma encode_hpai_wire: "hpai_wf h \<Longrightarrow> encode_hpai s h = write_at s 0 (hpai_wire h)"
  using list4 [of "v4_address (hpai_endpoint h)"]
  by (simp add: encode_hpai_def Let_def hpai_wire_def hpai_wf_def hpai_size_def)
    (metis append_Cons append_Nil)

lemma encode_ipv6_hpai_wire:
  assumes "ipv6_hpai_wf h" "length s = 20"
  shows "encode_ipv6_hpai s h = write_at s 0 (ipv6_hpai_wire h)"
  using assms by (simp add: encode_ipv6_hpai_def Let_def ipv6_hpai_wire_def ipv6_hpai_wf_def ipv6_hpai_size_def wire_simps)

lemma decode_hpai_wire: "hpai_wf h \<Longrightarrow> known_protocol (hpai_protocol h) \<Longrightarrow> decode_hpai (hpai_wire h) = Inr h"
  using list4 [of "v4_address (hpai_endpoint h)"]
  by (simp add: decode_hpai_def hpai_wire_def hpai_wf_def hpai_size_def nth_append)

lemma decode_ipv6_hpai_wire:
  "ipv6_hpai_wf h \<Longrightarrow> known_protocol (hpai6_protocol h) \<Longrightarrow> decode_ipv6_hpai (ipv6_hpai_wire h) = Inr h"
  by (simp add: decode_ipv6_hpai_def ipv6_hpai_wire_def ipv6_hpai_wf_def ipv6_hpai_size_def nth_append subspan_def)

lemma list8: "length b = 8 \<Longrightarrow> b = [b ! 0, b ! 1, b ! 2, b ! 3, b ! 4, b ! 5, b ! 6, b ! 7]"
  using list_prefix_nth(2) [of b] list_prefix_nth(2) [of "drop 4 b"] by simp

lemma byte_eqI: "unat (b :: byte) = unat c \<Longrightarrow> b = c"
  by (simp add: word_unat_eq_iff)

lemma decode_hpai_sound:
  assumes "decode_hpai s = Inr h" "length s = 8"
  shows "hpai_wf h" "known_protocol (hpai_protocol h)" "s = hpai_wire h"
proof -
  have "s ! 0 = 8" using assms(1) by (intro byte_eqI) (auto simp: decode_hpai_def hpai_size_def split: if_splits)
  then show "hpai_wf h" "known_protocol (hpai_protocol h)" "s = hpai_wire h"
    using assms(1) list8 [OF assms(2)]
    by (auto simp: decode_hpai_def hpai_wf_def hpai_wire_def split: if_splits)
qed

lemma decode_ipv6_hpai_sound:
  assumes "decode_ipv6_hpai s = Inr h" "length s = 20"
  shows "ipv6_hpai_wf h" "known_protocol (hpai6_protocol h)" "s = ipv6_hpai_wire h"
proof -
  have 0: "s ! 0 = 20"
    using assms(1) by (intro byte_eqI) (auto simp: decode_ipv6_hpai_def ipv6_hpai_size_def split: if_splits)
  have "drop 18 s = [s ! 18, s ! 19]" using list_prefix_nth(1) [of "drop 18 s"] assms(2) by simp
  then have "s = [s ! 0, s ! 1] @ subspan s 2 16 @ [s ! 18, s ! 19]"
    using list_prefix_nth(1) [of s] drop_split [of 2 s 16] assms(2) by simp
  then show "ipv6_hpai_wf h" "known_protocol (hpai6_protocol h)" "s = ipv6_hpai_wire h"
    using assms 0 by (auto simp: decode_ipv6_hpai_def ipv6_hpai_wf_def ipv6_hpai_wire_def split: if_splits)
qed

lemma nth_knx_packet [simp]: "6 \<le> n \<Longrightarrow> knx_packet s b ! n = b ! (n - 6)"
  by (simp add: knx_packet_def nth_append)

lemma subspan_knx_packet [simp]: "6 \<le> i \<Longrightarrow> subspan (knx_packet s b) i n = subspan b (i - 6) n"
  by (simp add: knx_packet_def subspan_def)

lemma framed_wire [simp]:
  assumes "length b < 65530"
  shows "(case decode_communication_header (knx_packet s b) of Inl e \<Rightarrow> Inl e | Inr h \<Rightarrow>
      if \<not> valid_header h (length (knx_packet s b)) s then Inl E else K) = K"
  using assms unat_u16_of_nat [of "6 + length b"] by (simp add: decode_header_wire valid_header_def)

lemma framed_iff:
  "(case decode_communication_header p of Inl e \<Rightarrow> Inl e | Inr h \<Rightarrow>
      if \<not> valid_header h (length p) s then Inl E else K) = Inr x \<longleftrightarrow>
   p = knx_packet s (drop 6 p) \<and> length p < 65536 \<and> K = Inr x"
  (is "?L \<longleftrightarrow> ?R")
proof
  assume ?L
  then obtain h where h: "decode_communication_header p = Inr h" "valid_header h (length p) s" "K = Inr x"
    by (auto split: sum.splits if_splits)
  then show ?R
    using decode_header_sound(1) [OF h(1)] unat_u16_less [of "ch_total_length h"]
    by (auto simp: valid_header_def)
next
  assume r: ?R
  then obtain b where p: "p = knx_packet s b" by blast
  show ?L using r unfolding p by simp
qed

lemma length_encode_hpai_subspan [simp]:
  "i + 8 \<le> length d \<Longrightarrow> length (update_subspan d i 8 (\<lambda>s. encode_hpai s h)) = length d"
  by (rule length_update_subspan) (simp_all add: length_encode_hpai)

lemma encode_hpai_subspan [simp]:
  assumes "hpai_wf h" "i = length a" "length a + 8 \<le> length d"
  shows "update_subspan (write_at d 0 a) i 8 (\<lambda>s. encode_hpai s h) = write_at d 0 (a @ hpai_wire h)"
  using assms by (intro update_subspan_wire) (simp_all add: encode_hpai_wire)

lemma encode_ipv6_hpai_subspan [simp]:
  assumes "ipv6_hpai_wf h" "i = length a" "length a + 20 \<le> length d"
  shows "update_subspan (write_at d 0 a) i 20 (\<lambda>s. encode_ipv6_hpai s h) = write_at d 0 (a @ ipv6_hpai_wire h)"
  using assms by (intro update_subspan_wire) (simp_all add: encode_ipv6_hpai_wire)

lemma length_encode_ipv6_hpai_subspan [simp]:
  assumes "ipv6_hpai_wf h" "i + 20 \<le> length d"
  shows "length (update_subspan d i 20 (\<lambda>s. encode_ipv6_hpai s h)) = length d"
  using assms by (intro length_update_subspan) (simp_all add: encode_ipv6_hpai_wire)

lemma encode_control_packet_wire:
  "8 \<le> length d \<Longrightarrow> encode_control_packet d s c t = (Inr (), write_at d 0 (knx_packet s [c, t]))"
  using encode_header_wire [of d 8 s]
  by (simp add: encode_control_packet_def frame_sizes knx_packet_def wire_simps)

lemma length_encode_control_packet: "length (snd (encode_control_packet d s c t)) = length d"
  by (auto simp: encode_control_packet_def Let_def frame_sizes intro!: length_bind_w)

lemma list2: "length b = 2 \<Longrightarrow> b = [b ! 0, b ! 1]"
  using list_prefix_nth(1) [of b] by simp

lemma decode_control_packet_iff:
  "decode_control_packet p s = Inr (c, t) \<longleftrightarrow> p = knx_packet s [c, t]"
proof
  assume "decode_control_packet p s = Inr (c, t)"
  then have p: "p = knx_packet s (drop 6 p)" "length p = 8" "c = p ! 6" "t = p ! 7"
    by (auto simp: decode_control_packet_def framed_iff frame_sizes split: if_splits)
  have "drop 6 p = [c, t]" using list2 [of "drop 6 p"] p(2-4) by simp
  with p(1) show "p = knx_packet s [c, t]" by simp
next
  assume "p = knx_packet s [c, t]"
  then show "decode_control_packet p s = Inr (c, t)"
    by (simp add: decode_control_packet_def frame_sizes)
qed

lemma encode_control_request_wire:
  assumes "hpai_wf h" "known_protocol (hpai_protocol h)" "16 \<le> length d"
  shows "encode_control_request_packet d s c h = (Inr (), write_at d 0 (knx_packet s ([c, 0] @ hpai_wire h)))"
  using assms encode_header_wire [of d 16 s]
  by (simp add: encode_control_request_packet_def connection_sizes knx_packet_def wire_simps Let_def)

lemma length_encode_control_request: "length (snd (encode_control_request_packet d s c h)) = length d"
  by (auto simp: encode_control_request_packet_def Let_def connection_sizes intro!: length_bind_w)

lemma decode_control_request_iff:
  "decode_control_request_packet p s = Inr (c, h) \<longleftrightarrow>
     hpai_wf h \<and> known_protocol (hpai_protocol h) \<and> p = knx_packet s ([c, 0] @ hpai_wire h)"
  (is "?L \<longleftrightarrow> ?R")
proof
  assume ?L
  then have p: "p = knx_packet s (drop 6 p)" "length p = 16" "c = p ! 6" "p ! 7 = 0"
    "decode_hpai (subspan p 8 8) = Inr h"
    by (auto simp: decode_control_request_packet_def framed_iff connection_sizes split: if_splits sum.splits)
  note h = decode_hpai_sound [OF p(5)]
  have "drop 6 p = p ! 6 # p ! 7 # drop 8 p" "drop 8 p = subspan p 8 8"
    using list_prefix_nth(1) [of "drop 6 p"] p(2) by (simp_all add: subspan_def)
  then have "drop 6 p = [c, 0] @ hpai_wire h" using p(2-4) h(3) by simp
  with p(1,2) h(1,2) show ?R by simp
next
  assume ?R
  then show ?L
    by (simp add: decode_control_request_packet_def connection_sizes decode_hpai_wire wire_simps)
qed

lemma encode_control_packet_accepts: "fst (encode_control_packet d s c t) = Inr () \<Longrightarrow> 8 \<le> length d"
  by (auto simp: encode_control_packet_def Let_def frame_sizes split: if_splits)

lemma encode_control_request_accepts:
  "fst (encode_control_request_packet d s c h) = Inr () \<Longrightarrow> 16 \<le> length d \<and> known_protocol (hpai_protocol h)"
  by (auto simp: encode_control_request_packet_def Let_def connection_sizes split: if_splits)

interpretation connectionstate_response: strict_codec connectionstate_response_wire "\<lambda>_. True"
  "\<lambda>f. valid_status (ss_status f)" encode_connectionstate_response_packet
  decode_connectionstate_response_packet
  by unfold_locales
    (auto simp: encode_connectionstate_response_packet_def decode_connectionstate_response_packet_def
      connectionstate_response_wire_def encode_control_packet_wire length_encode_control_packet
      decode_control_packet_iff [THEN iffD2] split: if_splits dest: encode_control_packet_accepts)

interpretation connectionstate_response_canonical: canonical_codec connectionstate_response_wire "\<lambda>_. True"
  "\<lambda>f. valid_status (ss_status f)" encode_connectionstate_response_packet
  decode_connectionstate_response_packet
  by unfold_locales
    (auto simp: decode_connectionstate_response_packet_def connectionstate_response_wire_def
      decode_control_packet_iff split: if_splits sum.splits)

interpretation disconnect_response: strict_codec disconnect_response_wire "\<lambda>_. True"
  "\<lambda>f. valid_status (ds_status f)" encode_disconnect_response_packet decode_disconnect_response_packet
  by unfold_locales
    (auto simp: encode_disconnect_response_packet_def decode_disconnect_response_packet_def
      disconnect_response_wire_def encode_control_packet_wire length_encode_control_packet
      decode_control_packet_iff [THEN iffD2] split: if_splits dest: encode_control_packet_accepts)

interpretation disconnect_response_canonical: canonical_codec disconnect_response_wire "\<lambda>_. True"
  "\<lambda>f. valid_status (ds_status f)" encode_disconnect_response_packet decode_disconnect_response_packet
  by unfold_locales
    (auto simp: decode_disconnect_response_packet_def disconnect_response_wire_def
      decode_control_packet_iff split: if_splits sum.splits)

interpretation connectionstate_request: strict_codec connectionstate_request_wire
  "\<lambda>f. hpai_wf (sr_control_endpoint f)" "\<lambda>f. known_protocol (hpai_protocol (sr_control_endpoint f))"
  encode_connectionstate_request_packet decode_connectionstate_request_packet
  by unfold_locales
    (auto simp: encode_connectionstate_request_packet_def decode_connectionstate_request_packet_def
      connectionstate_request_wire_def encode_control_request_wire length_encode_control_request
      decode_control_request_iff [THEN iffD2] dest: encode_control_request_accepts)

interpretation connectionstate_request_canonical: canonical_codec connectionstate_request_wire
  "\<lambda>f. hpai_wf (sr_control_endpoint f)" "\<lambda>f. known_protocol (hpai_protocol (sr_control_endpoint f))"
  encode_connectionstate_request_packet decode_connectionstate_request_packet
  by unfold_locales
    (auto simp: decode_connectionstate_request_packet_def connectionstate_request_wire_def
      decode_control_request_iff split: sum.splits)

interpretation disconnect_request: strict_codec disconnect_request_wire
  "\<lambda>f. hpai_wf (dr_control_endpoint f)" "\<lambda>f. known_protocol (hpai_protocol (dr_control_endpoint f))"
  encode_disconnect_request_packet decode_disconnect_request_packet
  by unfold_locales
    (auto simp: encode_disconnect_request_packet_def decode_disconnect_request_packet_def
      disconnect_request_wire_def encode_control_request_wire length_encode_control_request
      decode_control_request_iff [THEN iffD2] dest: encode_control_request_accepts)

interpretation disconnect_request_canonical: canonical_codec disconnect_request_wire
  "\<lambda>f. hpai_wf (dr_control_endpoint f)" "\<lambda>f. known_protocol (hpai_protocol (dr_control_endpoint f))"
  encode_disconnect_request_packet decode_disconnect_request_packet
  by unfold_locales
    (auto simp: decode_disconnect_request_packet_def disconnect_request_wire_def
      decode_control_request_iff split: sum.splits)

lemma encode_tunnel_request_information_wire:
  assumes "4 + length (requested_wire (cr_requested_address f)) \<le> length s"
  shows "encode_tunnel_request_information s f =
    write_at s 0 ([4 + word_of_nat (length (requested_wire (cr_requested_address f))), 4, cr_knx_layer f, 0] @
        requested_wire (cr_requested_address f))"
  using assms by (auto simp: encode_tunnel_request_information_def requested_wire_def connection_sizes
    wire_simps Let_def split: option.split)

lemma update_subspan_write:
  assumes "g (subspan d i n) = write_at (subspan d i n) 0 w" "length w \<le> n" "i + n \<le> length d"
  shows "update_subspan d i n g = write_at d i w"
proof -
  let ?e = "drop i d"
  have "drop (length w) ?e = drop (length w) (take n ?e @ drop n ?e)" by (simp only: append_take_drop_id)
  also have "\<dots> = drop (length w) (take n ?e) @ drop n ?e"
    using assms(2,3) by (simp only: drop_append) simp
  finally have "drop (length w) (take n ?e) @ drop n ?e = drop (length w) ?e" by simp
  then show ?thesis using assms by (simp add: update_subspan_def write_at_def subspan_def add.commute)
qed

lemma encode_connect_request_wire:
  assumes "connect_request_wf f" "connect_request_ok f" "length (connect_request_wire f) \<le> length d"
  shows "encode_connect_request_packet d f = (Inr (), write_at d 0 (connect_request_wire f))"
proof -
  let ?r = "requested_wire (cr_requested_address f)"
  let ?i = "[4 + word_of_nat (length ?r), 4, cr_knx_layer f, 0] @ ?r"
  let ?a = "header_wire connect_request_service (26 + length ?r) @
    hpai_wire (cr_control_endpoint f) @ hpai_wire (cr_data_endpoint f)"
  have r: "length ?r = (if cr_requested_address f = None then 0 else 2)"
    by (auto simp: requested_wire_def)
  have len: "26 + length ?r \<le> length d"
    using assms(1,3) by (simp add: connect_request_wire_def connect_request_wf_def)
  have "update_subspan (write_at d 0 ?a) 22 (length d - 22) (\<lambda>s. encode_tunnel_request_information s f) =
    write_at d 0 (?a @ ?i)"
    using len assms(1)
    by (subst update_subspan_write [where w = ?i])
      (simp_all add: encode_tunnel_request_information_wire connect_request_wf_def write_at_chain)
  then show ?thesis
    using assms(1,2) len r encode_header_wire [of d "26 + length ?r" connect_request_service]
    by (auto simp: encode_connect_request_packet_def Let_def connection_sizes connect_request_wf_def
      connect_request_ok_def connect_request_wire_def knx_packet_def add.assoc)
qed

lemma length_encode_tunnel_request_information:
  assumes "4 + length (requested_wire (cr_requested_address f)) \<le> length s"
  shows "length (encode_tunnel_request_information s f) = length s"
  using assms by (simp add: encode_tunnel_request_information_wire)

lemma length_encode_connect_request: "length (snd (encode_connect_request_packet d f)) = length d"
proof -
  let ?r = "requested_wire (cr_requested_address f)"
  have r: "length ?r = (if cr_requested_address f = None then 0 else 2)"
    by (auto simp: requested_wire_def)
  have "length (update_subspan e 22 (length d - 22) (\<lambda>s. encode_tunnel_request_information s f)) = length e"
    if "length e = length d" "26 + length ?r \<le> length d" for e
    using that by (intro length_update_subspan) (simp_all add: length_encode_tunnel_request_information)
  with r show ?thesis
    by (auto simp: encode_connect_request_packet_def Let_def connection_sizes intro!: length_bind_w)
qed

lemma decode_connect_request_wire:
  assumes "connect_request_wf f" "connect_request_ok f"
  shows "decode_connect_request_packet (connect_request_wire f) = Inr f"
  using assms by (cases "cr_requested_address f")
    (simp_all add: decode_connect_request_packet_def connect_request_wire_def connection_sizes
      connect_request_wf_def connect_request_ok_def requested_wire_def decode_hpai_wire wire_simps nth_append)

lemma decode_connect_request_image:
  assumes "decode_connect_request_packet p = Inr f"
  shows "connect_request_wf f \<and> connect_request_wire f = p"
proof -
  obtain h1 h2 where p: "p = knx_packet connect_request_service (drop 6 p)"
      "length p = 26 \<or> length p = 28" "decode_hpai (subspan p 6 8) = Inr h1"
      "decode_hpai (subspan p 14 8) = Inr h2"
    and q: "p ! 22 = (if length p = 28 then 6 else 4)" "p ! 23 = 4" "p ! 25 = 0"
    and f: "f = \<lparr> cr_control_endpoint = h1, cr_data_endpoint = h2, cr_knx_layer = p ! 24,
      cr_requested_address = (if length p = 28 then Some (Individual_address (be16 (p ! 26) (p ! 27)))
        else None) \<rparr>"
    using assms by (auto simp: decode_connect_request_packet_def framed_iff connection_sizes Let_def
      split: if_splits sum.splits)
  have 1: "hpai_wf h1" "subspan p 6 8 = hpai_wire h1" and 2: "hpai_wf h2" "subspan p 14 8 = hpai_wire h2"
    using decode_hpai_sound [OF p(3)] decode_hpai_sound [OF p(4)] p(2) by auto
  have tail: "drop 22 p = p ! 22 # p ! 23 # p ! 24 # p ! 25 # drop 26 p"
    using list_prefix_nth(2) [of "drop 22 p"] p(2) by auto
  have "drop 26 p = (if length p = 28 then [p ! 26, p ! 27] else [])"
    using list2 [of "drop 26 p"] p(2) by auto
  with tail have "drop 6 p = hpai_wire h1 @ hpai_wire h2 @ [p ! 22, 4, p ! 24, 0] @
      (if length p = 28 then [p ! 26, p ! 27] else [])"
    using drop_split [of 6 p 8] drop_split [of 14 p 8] 1(2) 2(2) q by simp
  with p(1,2) q(1) f 1(1) 2(1) show ?thesis
    by (auto simp: connect_request_wf_def connect_request_wire_def requested_wire_def)
qed

interpretation connect_request: strict_codec connect_request_wire connect_request_wf connect_request_ok
  encode_connect_request_packet decode_connect_request_packet
proof
  fix d :: bytes and f :: connect_request_frame
  show "connect_request_ok f \<and> length (connect_request_wire f) \<le> length d"
    if "connect_request_wf f" "fst (encode_connect_request_packet d f) = Inr ()"
    using that by (auto simp: encode_connect_request_packet_def Let_def connection_sizes connect_request_ok_def
      connect_request_wire_def connect_request_wf_def requested_wire_def bind_w_def split: if_splits sum.splits)
qed (simp_all add: encode_connect_request_wire length_encode_connect_request decode_connect_request_wire)

interpretation connect_request_lossless: lossless_codec connect_request_wire connect_request_wf
  connect_request_ok encode_connect_request_packet decode_connect_request_packet
  by unfold_locales (rule decode_connect_request_image)

interpretation connect_response: strict_codec connect_response_wire
  "\<lambda>f. hpai_wf (cs_data_endpoint f)" connect_response_ok
  encode_connect_response_packet decode_connect_response_packet
proof
  fix d :: bytes and f :: connect_response_frame
  show "encode_connect_response_packet d f = (Inr (), write_at d 0 (connect_response_wire f))"
    if "hpai_wf (cs_data_endpoint f)" "connect_response_ok f" "length (connect_response_wire f) \<le> length d"
    using that encode_header_wire [of d 20 connect_response_service]
    by (simp add: encode_connect_response_packet_def connect_response_wire_def connect_response_ok_def
      connection_sizes Let_def wire_simps knx_packet_def)
  show "length (snd (encode_connect_response_packet d f)) = length d"
    by (auto simp: encode_connect_response_packet_def Let_def connection_sizes intro!: length_bind_w)
  show "decode_connect_response_packet (connect_response_wire f) = Inr f"
    if "hpai_wf (cs_data_endpoint f)" "connect_response_ok f"
    using that by (simp add: decode_connect_response_packet_def connect_response_wire_def connection_sizes
      connect_response_ok_def decode_hpai_wire wire_simps nth_append)
  show "connect_response_ok f \<and> length (connect_response_wire f) \<le> length d"
    if "hpai_wf (cs_data_endpoint f)" "fst (encode_connect_response_packet d f) = Inr ()"
    using that by (auto simp: encode_connect_response_packet_def Let_def connection_sizes
      connect_response_ok_def connect_response_wire_def split: if_splits)
qed

lemma known_udp [simp]: "known_protocol udp_protocol"
  by (simp add: known_protocol_def)

interpretation ipv6_connect_request: strict_codec ipv6_connect_request_wire ipv6_connect_request_wf
  ipv6_connect_request_ok encode_ipv6_connect_request_packet decode_ipv6_connect_request_packet
proof
  fix d :: bytes and f :: ipv6_connect_request_frame
  show "encode_ipv6_connect_request_packet d f = (Inr (), write_at d 0 (ipv6_connect_request_wire f))"
    if "ipv6_connect_request_wf f" "ipv6_connect_request_ok f" "length (ipv6_connect_request_wire f) \<le> length d"
    using that encode_header_wire [of d 50 connect_request_service]
    by (simp add: encode_ipv6_connect_request_packet_def ipv6_connect_request_wire_def ipv6_connect_request_ok_def
      ipv6_connect_request_wf_def connection_sizes Let_def wire_simps knx_packet_def)
  show "length (snd (encode_ipv6_connect_request_packet d f)) = length d" if "ipv6_connect_request_wf f"
    using that by (auto simp: encode_ipv6_connect_request_packet_def Let_def connection_sizes
      ipv6_connect_request_wf_def intro!: length_bind_w)
  show "decode_ipv6_connect_request_packet (ipv6_connect_request_wire f) = Inr f"
    if "ipv6_connect_request_wf f" "ipv6_connect_request_ok f"
    using that by (simp add: decode_ipv6_connect_request_packet_def ipv6_connect_request_wire_def connection_sizes
      ipv6_connect_request_ok_def ipv6_connect_request_wf_def decode_ipv6_hpai_wire wire_simps nth_append)
  show "ipv6_connect_request_ok f \<and> length (ipv6_connect_request_wire f) \<le> length d"
    if "ipv6_connect_request_wf f" "fst (encode_ipv6_connect_request_packet d f) = Inr ()"
    using that by (auto simp: encode_ipv6_connect_request_packet_def Let_def connection_sizes
      ipv6_connect_request_ok_def ipv6_connect_request_wf_def ipv6_connect_request_wire_def split: if_splits)
qed

interpretation ipv6_connect_response: strict_codec ipv6_connect_response_wire
  "\<lambda>f. ipv6_hpai_wf (cs6_data_endpoint f)" ipv6_connect_response_ok
  encode_ipv6_connect_response_packet decode_ipv6_connect_response_packet
proof
  fix d :: bytes and f :: ipv6_connect_response_frame
  show "encode_ipv6_connect_response_packet d f = (Inr (), write_at d 0 (ipv6_connect_response_wire f))"
    if "ipv6_hpai_wf (cs6_data_endpoint f)" "ipv6_connect_response_ok f"
      "length (ipv6_connect_response_wire f) \<le> length d"
    using that encode_header_wire [of d 32 connect_response_service]
    by (simp add: encode_ipv6_connect_response_packet_def ipv6_connect_response_wire_def
      ipv6_connect_response_ok_def connection_sizes Let_def wire_simps knx_packet_def)
  show "length (snd (encode_ipv6_connect_response_packet d f)) = length d"
    if "ipv6_hpai_wf (cs6_data_endpoint f)"
    using that by (auto simp: encode_ipv6_connect_response_packet_def Let_def connection_sizes intro!: length_bind_w)
  show "decode_ipv6_connect_response_packet (ipv6_connect_response_wire f) = Inr f"
    if "ipv6_hpai_wf (cs6_data_endpoint f)" "ipv6_connect_response_ok f"
    using that by (simp add: decode_ipv6_connect_response_packet_def ipv6_connect_response_wire_def connection_sizes
      ipv6_connect_response_ok_def decode_ipv6_hpai_wire wire_simps nth_append)
  show "ipv6_connect_response_ok f \<and> length (ipv6_connect_response_wire f) \<le> length d"
    if "ipv6_hpai_wf (cs6_data_endpoint f)" "fst (encode_ipv6_connect_response_packet d f) = Inr ()"
    using that by (auto simp: encode_ipv6_connect_response_packet_def Let_def connection_sizes
      ipv6_connect_response_ok_def ipv6_connect_response_wire_def split: if_splits)
qed

interpretation management_request: strict_codec management_request_wire management_request_wf
  management_request_ok encode_management_connect_request_packet decode_management_connect_request_packet
proof
  fix d :: bytes and f :: management_connect_request_frame
  show "encode_management_connect_request_packet d f = (Inr (), write_at d 0 (management_request_wire f))"
    if "management_request_wf f" "management_request_ok f" "length (management_request_wire f) \<le> length d"
    using that encode_header_wire [of d 24 connect_request_service]
    by (simp add: encode_management_connect_request_packet_def management_request_wire_def management_request_ok_def
      management_request_wf_def connection_sizes Let_def wire_simps knx_packet_def)
  show "length (snd (encode_management_connect_request_packet d f)) = length d"
    by (auto simp: encode_management_connect_request_packet_def Let_def connection_sizes intro!: length_bind_w)
  show "decode_management_connect_request_packet (management_request_wire f) = Inr f"
    if "management_request_wf f" "management_request_ok f"
    using that by (simp add: decode_management_connect_request_packet_def management_request_wire_def connection_sizes
      management_request_ok_def management_request_wf_def decode_hpai_wire wire_simps nth_append)
  show "management_request_ok f \<and> length (management_request_wire f) \<le> length d"
    if "management_request_wf f" "fst (encode_management_connect_request_packet d f) = Inr ()"
    using that by (auto simp: encode_management_connect_request_packet_def Let_def connection_sizes
      management_request_ok_def management_request_wf_def management_request_wire_def split: if_splits)
qed

interpretation management_response: packet_codec management_response_wire
  "\<lambda>f. hpai_wf (ms_data_endpoint f)" management_response_ok
  encode_management_connect_response_packet decode_management_connect_response_packet
proof
  fix d :: bytes and f :: management_connect_response_frame
  show "encode_management_connect_response_packet d f = (Inr (), write_at d 0 (management_response_wire f))"
    if "hpai_wf (ms_data_endpoint f)" "management_response_ok f" "length (management_response_wire f) \<le> length d"
    using that encode_header_wire [of d 18 connect_response_service]
    by (simp add: encode_management_connect_response_packet_def management_response_wire_def
      management_response_ok_def connection_sizes Let_def wire_simps knx_packet_def)
  show "length (snd (encode_management_connect_response_packet d f)) = length d"
    by (auto simp: encode_management_connect_response_packet_def Let_def connection_sizes intro!: length_bind_w)
  show "decode_management_connect_response_packet (management_response_wire f) = Inr f"
    if "hpai_wf (ms_data_endpoint f)" "management_response_ok f"
    using that by (simp add: decode_management_connect_response_packet_def management_response_wire_def
      connection_sizes management_response_ok_def decode_hpai_wire wire_simps nth_append)
qed

lemma decode_connect_response_forms:
  assumes "decode_connect_response_packet p = Inr f"
  shows "valid_status (cs_status f)"
    and "(length p = 8 \<and> cs_status f \<noteq> no_error \<and> cs_data_endpoint f = default_hpai \<and>
        p = knx_packet connect_response_service [cs_channel_id f, cs_status f]) \<or>
      hpai_wf (cs_data_endpoint f) \<and> connect_response_ok f \<and> p = connect_response_wire f"
proof -
  consider (short) "p = knx_packet connect_response_service (drop 6 p)" "length p = 8" "valid_status (p ! 7)"
      "p ! 7 \<noteq> no_error" "f = \<lparr> cs_channel_id = p ! 6, cs_status = p ! 7, cs_data_endpoint = default_hpai,
        cs_assigned_address = Individual_address 0 \<rparr>"
    | (long) h where "p = knx_packet connect_response_service (drop 6 p)" "length p = 20"
      "decode_hpai (subspan p 8 8) = Inr h" "p ! 16 = 4" "p ! 17 = 4" "valid_status (p ! 7)"
      "f = \<lparr> cs_channel_id = p ! 6, cs_status = p ! 7, cs_data_endpoint = h,
        cs_assigned_address = Individual_address (be16 (p ! 18) (p ! 19)) \<rparr>"
    using assms by (auto simp: decode_connect_response_packet_def framed_iff connection_sizes
      split: if_splits sum.splits)
  then have "valid_status (cs_status f) \<and> ((length p = 8 \<and> cs_status f \<noteq> no_error \<and>
        cs_data_endpoint f = default_hpai \<and>
        p = knx_packet connect_response_service [cs_channel_id f, cs_status f]) \<or>
      hpai_wf (cs_data_endpoint f) \<and> connect_response_ok f \<and> p = connect_response_wire f)"
  proof cases
    case short
    then have "drop 6 p = [p ! 6, p ! 7]" using list2 [of "drop 6 p"] by simp
    with short show ?thesis by simp
  next
    case (long h)
    note h = decode_hpai_sound [OF long(3)]
    have "drop 6 p = p ! 6 # p ! 7 # drop 8 p" "drop 16 p = [p ! 16, p ! 17, p ! 18, p ! 19]"
      using list_prefix_nth(1) [of "drop 6 p"] list4 [of "drop 16 p"] long(2) by simp_all
    then have "drop 6 p = [p ! 6, p ! 7] @ hpai_wire h @ [4, 4, p ! 18, p ! 19]"
      using drop_split [of 8 p 8] h(3) long(2,4,5) by simp
    with long h show ?thesis by (simp add: connect_response_wire_def connect_response_ok_def)
  qed
  then show "valid_status (cs_status f)"
    and "(length p = 8 \<and> cs_status f \<noteq> no_error \<and> cs_data_endpoint f = default_hpai \<and>
        p = knx_packet connect_response_service [cs_channel_id f, cs_status f]) \<or>
      hpai_wf (cs_data_endpoint f) \<and> connect_response_ok f \<and> p = connect_response_wire f"
    by blast+
qed

subsection \<open>Properties\<close>

text \<open>
  C36: a CONNECT request (with or without a requested address) is encoded exactly when both
  endpoints name the same known protocol, the layer is a tunnelling layer and the buffer is large
  enough; what was encoded decodes to the same request.
\<close>

theorem connect_request_codec:
  assumes "connect_request_wf f"
  shows "(fst (encode_connect_request_packet d f) = Inr () \<longleftrightarrow>
      connect_request_ok f \<and> length (connect_request_wire f) \<le> length d) \<and>
    (fst (encode_connect_request_packet d f) = Inr () \<longrightarrow>
      decode_connect_request_packet
        (take (length (connect_request_wire f)) (snd (encode_connect_request_packet d f))) = Inr f)"
  using connect_request.encode_ok_iff [OF assms] connect_request.encoded_decodes [OF assms] by blast

theorem connect_request_codec_witness:
  "connect_request_wf sample_connect_request \<and>
   fst (encode_connect_request_packet (replicate 40 0) sample_connect_request) = Inr () \<and>
   decode_connect_request_packet (take (length (connect_request_wire sample_connect_request))
     (snd (encode_connect_request_packet (replicate 40 0) sample_connect_request))) =
     Inr sample_connect_request"
proof -
  have wf: "connect_request_wf sample_connect_request" by code_simp
  have "fst (encode_connect_request_packet (replicate 40 0) sample_connect_request) = Inr ()" by code_simp
  with wf connect_request_codec [OF wf] show ?thesis by blast
qed

text \<open>
  The decoder of CONNECT requests loses nothing: an accepted packet is the image of the
  request it returns, in particular its length field and reserved octets are as specified.
\<close>

theorem connect_request_lossless:
  assumes "decode_connect_request_packet p = Inr f"
  shows "connect_request_wf f \<and> p = connect_request_wire f"
  using decode_connect_request_image [OF assms] by simp

theorem connect_request_lossless_witness:
  "connect_request_wf sample_connect_request \<and>
   connect_request_wire sample_connect_request = connect_request_wire sample_connect_request"
proof -
  have "decode_connect_request_packet (connect_request_wire sample_connect_request) =
    Inr sample_connect_request" by code_simp
  from connect_request_lossless [OF this] show ?thesis by blast
qed

text \<open>
  An accepted CONNECT response always carries a named status, and is either the short refusal
  of eight octets, which never reports success, or the full image of the response returned.
\<close>

theorem connect_response_forms:
  assumes "decode_connect_response_packet p = Inr f"
  shows "valid_status (cs_status f) \<and>
    (length p = 8 \<and> cs_status f \<noteq> no_error \<and>
       p = knx_packet connect_response_service [cs_channel_id f, cs_status f] \<or>
     hpai_wf (cs_data_endpoint f) \<and> connect_response_ok f \<and> p = connect_response_wire f)"
  using decode_connect_response_forms [OF assms] by blast

theorem connect_response_forms_witness:
  "valid_status (cs_status sample_connect_response) \<and>
   (length (connect_response_wire sample_connect_response) = 8 \<and>
      cs_status sample_connect_response \<noteq> no_error \<and>
      connect_response_wire sample_connect_response =
        knx_packet connect_response_service
          [cs_channel_id sample_connect_response, cs_status sample_connect_response] \<or>
    hpai_wf (cs_data_endpoint sample_connect_response) \<and> connect_response_ok sample_connect_response \<and>
      connect_response_wire sample_connect_response = connect_response_wire sample_connect_response)"
proof -
  have "decode_connect_response_packet (connect_response_wire sample_connect_response) =
    Inr sample_connect_response" by code_simp
  from connect_response_forms [OF this] show ?thesis .
qed

text \<open>
  CONNECTIONSTATE and DISCONNECT packets are decoded exactly when they are the images of a
  frame with a named status, respectively with a control endpoint of a known protocol.
\<close>

theorem control_packets_exact:
  "(decode_connectionstate_request_packet p = Inr sr \<longleftrightarrow> hpai_wf (sr_control_endpoint sr) \<and>
      known_protocol (hpai_protocol (sr_control_endpoint sr)) \<and> p = connectionstate_request_wire sr) \<and>
   (decode_connectionstate_response_packet p = Inr ss \<longleftrightarrow>
      valid_status (ss_status ss) \<and> p = connectionstate_response_wire ss) \<and>
   (decode_disconnect_request_packet p = Inr dr \<longleftrightarrow> hpai_wf (dr_control_endpoint dr) \<and>
      known_protocol (hpai_protocol (dr_control_endpoint dr)) \<and> p = disconnect_request_wire dr) \<and>
   (decode_disconnect_response_packet p = Inr ds \<longleftrightarrow>
      valid_status (ds_status ds) \<and> p = disconnect_response_wire ds)"
  using connectionstate_request_canonical.decode_iff [of p sr]
    connectionstate_response_canonical.decode_iff [of p ss]
    disconnect_request_canonical.decode_iff [of p dr] disconnect_response_canonical.decode_iff [of p ds]
  by blast

text \<open>
  The encoder of management CONNECT responses does not check the status it is given, unlike every
  other encoder of a status: it produces a packet its own decoder refuses.
\<close>

theorem management_response_status_unchecked:
  "let f = \<lparr> ms_channel_id = 1, ms_status = 3, ms_data_endpoint = sample_hpai \<rparr>;
       r = encode_management_connect_response_packet (replicate 18 0) f
   in fst r = Inr () \<and> decode_management_connect_response_packet (snd r) = Inl Malformed_frame"
  by code_simp

end
