(* ===== verification/Knx_Dib.thy ===== *)
theory Knx_Dib
  imports Knx_Address
begin

text \<open>
  Description information blocks after \<open>knx/dib.hpp\<close>, \<open>knx/dib/device_info.hpp\<close>,
  \<open>knx/dib/supported_service_families.hpp\<close> and their \<open>.cpp\<close> files: the blocks a KNXnet/IP server
  describes itself with, their encoding, and the walk over a run of blocks.

  The characters of the friendly name are kept as their octets.  \<open>decode_all\<close> first counts the
  blocks to reserve capacity; that pass has no observable effect and is omitted.
\<close>

subsection \<open>Blocks\<close>

type_synonym block_type = byte

definition bt_device_info :: block_type where "bt_device_info = 0x01"
definition bt_supported_service_families :: block_type where "bt_supported_service_families = 0x02"
definition bt_ip_config :: block_type where "bt_ip_config = 0x03"
definition bt_current_ip_config :: block_type where "bt_current_ip_config = 0x04"
definition bt_knx_addresses :: block_type where "bt_knx_addresses = 0x05"
definition bt_secured_service_families :: block_type where "bt_secured_service_families = 0x06"
definition bt_tunnelling_info :: block_type where "bt_tunnelling_info = 0x07"
definition bt_extended_device_info :: block_type where "bt_extended_device_info = 0x08"
definition bt_manufacturer_data :: block_type where "bt_manufacturer_data = 0xFE"

type_synonym service_family = byte

definition family_core :: service_family where "family_core = 0x02"
definition family_device_management :: service_family where "family_device_management = 0x03"
definition family_tunnelling :: service_family where "family_tunnelling = 0x04"
definition family_routing :: service_family where "family_routing = 0x05"
definition family_remote_logging :: service_family where "family_remote_logging = 0x06"
definition family_remote_configuration :: service_family where "family_remote_configuration = 0x07"
definition family_object_server :: service_family where "family_object_server = 0x08"
definition family_security :: service_family where "family_security = 0x09"

definition known_service_family :: "byte \<Rightarrow> bool" where
  "known_service_family v \<longleftrightarrow> v \<in> {family_core, family_device_management, family_tunnelling,
     family_routing, family_remote_logging, family_remote_configuration, family_object_server,
     family_security}"

definition family_of :: "u16 \<Rightarrow> service_family result" where
  "family_of service_type =
     (let family = hi8 service_type
      in if \<not> known_service_family family then Inl Unsupported_service else Inr family)"

record device_info =
  di_knx_medium :: byte
  di_device_status :: byte
  di_address :: individual_address
  di_project_installation_id :: u16
  di_serial_number :: bytes
  di_multicast_address :: bytes
  di_mac_address :: bytes
  di_friendly_name :: bytes

definition friendly_name_size :: nat where "friendly_name_size = 30"

definition programming_mode :: "device_info \<Rightarrow> bool" where
  "programming_mode d \<longleftrightarrow> di_device_status d AND 0x01 \<noteq> 0"

definition device_name :: "device_info \<Rightarrow> bytes" where
  "device_name d = takeWhile (\<lambda>c. c \<noteq> 0) (di_friendly_name d)"

definition set_name :: "bytes \<Rightarrow> device_info \<Rightarrow> device_info" where
  "set_name v d =
     (let len = (if length v < friendly_name_size then length v else friendly_name_size)
      in d\<lparr> di_friendly_name := write_at (replicate friendly_name_size 0) 0 (take len v) \<rparr>)"

record service_family_entry =
  fe_family :: service_family
  fe_version :: byte

record supported_service_families =
  sf_secured :: bool
  sf_families :: "service_family_entry list"

definition contains_family :: "supported_service_families \<Rightarrow> service_family \<Rightarrow> bool" where
  "contains_family s v \<longleftrightarrow> list_ex (\<lambda>entry. fe_family entry = v) (sf_families s)"

definition contains_family_version :: "supported_service_families \<Rightarrow> service_family \<Rightarrow> byte \<Rightarrow> bool" where
  "contains_family_version s v minimum_version \<longleftrightarrow>
     list_ex (\<lambda>entry. fe_family entry = v \<and> fe_version entry \<ge> minimum_version) (sf_families s)"

record ip_config =
  ic_address :: bytes
  ic_subnet_mask :: bytes
  ic_default_gateway :: bytes
  ic_capabilities :: byte
  ic_assignment_method :: byte

record current_ip_config =
  cc_address :: bytes
  cc_subnet_mask :: bytes
  cc_default_gateway :: bytes
  cc_dhcp_server :: bytes
  cc_assignment_method :: byte

record addresses =
  ad_device :: individual_address
  ad_additional :: "individual_address list"

record manufacturer_data =
  md_manufacturer_id :: u16
  md_data :: bytes

record unknown_block =
  ub_type_code :: byte
  ub_data :: bytes

datatype block =
    Block_device_info device_info
  | Block_service_families supported_service_families
  | Block_ip_config ip_config
  | Block_current_ip_config current_ip_config
  | Block_addresses addresses
  | Block_manufacturer_data manufacturer_data
  | Block_unknown unknown_block

definition block_header_size :: nat where "block_header_size = 2"
definition device_info_size :: nat where "device_info_size = 54"
definition ip_config_size :: nat where "ip_config_size = 16"
definition current_ip_config_size :: nat where "current_ip_config_size = 20"
definition manufacturer_data_min_size :: nat where "manufacturer_data_min_size = 4"
definition max_block_size :: nat where "max_block_size = 0xFF"

subsection \<open>Encoding\<close>

definition read_u16 :: "bytes \<Rightarrow> nat \<Rightarrow> u16" where
  "read_u16 bs offset = be16 (bs ! offset) (bs ! (offset + 1))"


definition read_octets :: "bytes \<Rightarrow> nat \<Rightarrow> nat \<Rightarrow> bytes" where
  "read_octets bs offset n = subspan bs offset n"



fun block_size :: "block \<Rightarrow> nat" where
  "block_size (Block_device_info _) = device_info_size"
| "block_size (Block_service_families v) = block_header_size + 2 * length (sf_families v)"
| "block_size (Block_ip_config _) = ip_config_size"
| "block_size (Block_current_ip_config _) = current_ip_config_size"
| "block_size (Block_addresses v) = block_header_size + 2 + 2 * length (ad_additional v)"
| "block_size (Block_manufacturer_data v) = manufacturer_data_min_size + length (md_data v)"
| "block_size (Block_unknown v) = block_header_size + length (ub_data v)"

definition blocks_size :: "block list \<Rightarrow> nat" where
  "blocks_size vs = foldl (\<lambda>total v. total + block_size v) 0 vs"







subsection \<open>Decoding\<close>

definition decode_device_info :: "bytes \<Rightarrow> block result" where
  "decode_device_info body =
     (if length body \<noteq> device_info_size then Inl Malformed_frame
      else Inr (Block_device_info
        \<lparr> di_knx_medium = body ! 2, di_device_status = body ! 3,
          di_address = Individual_address (read_u16 body 4),
          di_project_installation_id = read_u16 body 6,
          di_serial_number = read_octets body 8 6,
          di_multicast_address = read_octets body 14 4,
          di_mac_address = read_octets body 18 6,
          di_friendly_name = subspan body 24 friendly_name_size \<rparr>))"

text \<open>The loops over the entries of a body, two octets at a time.\<close>

fun families_known :: "bytes \<Rightarrow> bool" where
  "families_known (family # version # rest) \<longleftrightarrow> known_service_family family \<and> families_known rest"
| "families_known _ \<longleftrightarrow> True"

fun read_families :: "bytes \<Rightarrow> service_family_entry list" where
  "read_families (family # version # rest) =
     \<lparr> fe_family = family, fe_version = version \<rparr> # read_families rest"
| "read_families _ = []"

definition decode_service_families :: "bytes \<Rightarrow> bool \<Rightarrow> block result" where
  "decode_service_families body secured =
     (if (length body - block_header_size) mod 2 \<noteq> 0 then Inl Malformed_frame
      else if \<not> families_known (drop block_header_size body)
      then Inr (Block_unknown \<lparr> ub_type_code = body ! 1, ub_data = drop block_header_size body \<rparr>)
      else Inr (Block_service_families
        \<lparr> sf_secured = secured, sf_families = read_families (drop block_header_size body) \<rparr>))"

definition decode_ip_config :: "bytes \<Rightarrow> block result" where
  "decode_ip_config body =
     (if length body \<noteq> ip_config_size then Inl Malformed_frame
      else Inr (Block_ip_config
        \<lparr> ic_address = read_octets body 2 4, ic_subnet_mask = read_octets body 6 4,
          ic_default_gateway = read_octets body 10 4, ic_capabilities = body ! 14,
          ic_assignment_method = body ! 15 \<rparr>))"

definition decode_current_ip_config :: "bytes \<Rightarrow> block result" where
  "decode_current_ip_config body =
     (if length body \<noteq> current_ip_config_size then Inl Malformed_frame
      else Inr (Block_current_ip_config
        \<lparr> cc_address = read_octets body 2 4, cc_subnet_mask = read_octets body 6 4,
          cc_default_gateway = read_octets body 10 4, cc_dhcp_server = read_octets body 14 4,
          cc_assignment_method = body ! 18 \<rparr>))"

fun read_addresses :: "bytes \<Rightarrow> individual_address list" where
  "read_addresses (h # l # rest) = Individual_address (be16 h l) # read_addresses rest"
| "read_addresses _ = []"

definition decode_addresses :: "bytes \<Rightarrow> block result" where
  "decode_addresses body =
     (if length body < 4 \<or> length body mod 2 \<noteq> 0 then Inl Malformed_frame
      else Inr (Block_addresses
        \<lparr> ad_device = Individual_address (read_u16 body 2),
          ad_additional = read_addresses (drop 4 body) \<rparr>))"

definition decode_manufacturer_data :: "bytes \<Rightarrow> block result" where
  "decode_manufacturer_data body =
     (if length body < manufacturer_data_min_size then Inl Malformed_frame
      else Inr (Block_manufacturer_data
        \<lparr> md_manufacturer_id = read_u16 body 2, md_data = drop manufacturer_data_min_size body \<rparr>))"

definition decode_unknown :: "bytes \<Rightarrow> byte \<Rightarrow> block" where
  "decode_unknown body ty =
     Block_unknown \<lparr> ub_type_code = ty, ub_data = drop block_header_size body \<rparr>"

definition block_body :: "bytes \<Rightarrow> bytes option" where
  "block_body bs =
     (if length bs < block_header_size then None
      else
        let sz = unat (bs ! 0)
        in if sz < block_header_size \<or> sz > length bs then None else Some (take sz bs))"

definition dib_decode :: "bytes \<Rightarrow> block result" where
  "dib_decode bs =
     (case block_body bs of
        None \<Rightarrow> Inl Malformed_frame
      | Some body \<Rightarrow>
          let ty = bs ! 1
          in if ty = bt_device_info then decode_device_info body
             else if ty = bt_supported_service_families then decode_service_families body False
             else if ty = bt_secured_service_families then decode_service_families body True
             else if ty = bt_ip_config then decode_ip_config body
             else if ty = bt_current_ip_config then decode_current_ip_config body
             else if ty = bt_knx_addresses then decode_addresses body
             else if ty = bt_manufacturer_data then decode_manufacturer_data body
             else Inr (decode_unknown body ty))"

text \<open>An accepted block has a structure length of at least two, so a walk over a run advances.\<close>

lemma dib_decode_progress: "dib_decode bs = Inr v \<Longrightarrow> 2 \<le> unat (bs ! 0) \<and> unat (bs ! 0) \<le> length bs"
  by (auto simp: dib_decode_def block_body_def block_header_size_def Let_def split: option.splits if_splits)

function decode_all :: "bytes \<Rightarrow> block list result" where
  "decode_all bs =
     (if bs = [] then Inr []
      else case dib_decode bs of
        Inl e \<Rightarrow> Inl e
      | Inr v \<Rightarrow>
          (case decode_all (drop (unat (bs ! 0)) bs) of
             Inl e \<Rightarrow> Inl e
           | Inr vs \<Rightarrow> Inr (v # vs)))"
  by pat_completeness auto
termination
  by (relation "measure length") (auto dest: dib_decode_progress)

declare decode_all.simps [simp del]

function valid_blocks :: "bytes \<Rightarrow> bool" where
  "valid_blocks bs \<longleftrightarrow>
     (if bs = [] then True
      else
        let sz = unat (bs ! 0)
        in if sz < block_header_size \<or> sz > length bs then False
           else valid_blocks (drop sz bs))"
  by pat_completeness auto
termination
  by (relation "measure length") (auto simp: block_header_size_def)

declare valid_blocks.simps [simp del]

primrec find_service_families :: "block list \<Rightarrow> bool \<Rightarrow> supported_service_families option" where
  "find_service_families [] secured = None"
| "find_service_families (v # vs) secured =
     (case v of
        Block_service_families held \<Rightarrow>
          if sf_secured held = secured then Some held else find_service_families vs secured
      | _ \<Rightarrow> find_service_families vs secured)"

primrec find_device_info :: "block list \<Rightarrow> device_info option" where
  "find_device_info [] = None"
| "find_device_info (v # vs) =
     (case v of Block_device_info held \<Rightarrow> Some held | _ \<Rightarrow> find_device_info vs)"

subsection \<open>Wire images of the blocks\<close>

text \<open>
  The image of a block on the wire, the shapes its \<open>std::array\<close> members have, and the blocks the
  decoder gives back unchanged: an unknown block must not carry the code of a known layout, unless
  it is a list of service families with an entry that is not a named family.
\<close>

definition families_wire :: "service_family_entry list \<Rightarrow> bytes" where
  "families_wire es = concat (map (\<lambda>e. [fe_family e, fe_version e]) es)"

definition addresses_wire :: "individual_address list \<Rightarrow> bytes" where
  "addresses_wire as = concat (map (\<lambda>a. [hi8 (ia_value a), lo8 (ia_value a)]) as)"

fun block_code :: "block \<Rightarrow> byte" where
  "block_code (Block_device_info _) = 0x01"
| "block_code (Block_service_families v) = (if sf_secured v then 0x06 else 0x02)"
| "block_code (Block_ip_config _) = 0x03"
| "block_code (Block_current_ip_config _) = 0x04"
| "block_code (Block_addresses _) = 0x05"
| "block_code (Block_manufacturer_data _) = 0xFE"
| "block_code (Block_unknown v) = ub_type_code v"

fun block_octets :: "block \<Rightarrow> bytes" where
  "block_octets (Block_device_info v) =
     [di_knx_medium v, di_device_status v, hi8 (ia_value (di_address v)), lo8 (ia_value (di_address v)),
      hi8 (di_project_installation_id v), lo8 (di_project_installation_id v)] @
     di_serial_number v @ di_multicast_address v @ di_mac_address v @ di_friendly_name v"
| "block_octets (Block_service_families v) = families_wire (sf_families v)"
| "block_octets (Block_ip_config v) =
     ic_address v @ ic_subnet_mask v @ ic_default_gateway v @ [ic_capabilities v, ic_assignment_method v]"
| "block_octets (Block_current_ip_config v) =
     cc_address v @ cc_subnet_mask v @ cc_default_gateway v @ cc_dhcp_server v @ [cc_assignment_method v, 0]"
| "block_octets (Block_addresses v) = addresses_wire (ad_device v # ad_additional v)"
| "block_octets (Block_manufacturer_data v) =
     [hi8 (md_manufacturer_id v), lo8 (md_manufacturer_id v)] @ md_data v"
| "block_octets (Block_unknown v) = ub_data v"


fun block_wf :: "block \<Rightarrow> bool" where
  "block_wf (Block_device_info v) \<longleftrightarrow> length (di_serial_number v) = 6 \<and>
     length (di_multicast_address v) = 4 \<and> length (di_mac_address v) = 6 \<and> length (di_friendly_name v) = 30"
| "block_wf (Block_ip_config v) \<longleftrightarrow> length (ic_address v) = 4 \<and> length (ic_subnet_mask v) = 4 \<and>
     length (ic_default_gateway v) = 4"
| "block_wf (Block_current_ip_config v) \<longleftrightarrow> length (cc_address v) = 4 \<and> length (cc_subnet_mask v) = 4 \<and>
     length (cc_default_gateway v) = 4 \<and> length (cc_dhcp_server v) = 4"
| "block_wf _ \<longleftrightarrow> True"

fun block_named :: "block \<Rightarrow> bool" where
  "block_named (Block_service_families v) \<longleftrightarrow> list_all (\<lambda>e. known_service_family (fe_family e)) (sf_families v)"
| "block_named (Block_unknown v) \<longleftrightarrow>
     (if ub_type_code v \<in> {0x02, 0x06} then even (length (ub_data v)) \<and> \<not> families_known (ub_data v)
      else ub_type_code v \<notin> {0x01, 0x03, 0x04, 0x05, 0xFE})"
| "block_named _ \<longleftrightarrow> True"


definition block_image :: "bytes \<Rightarrow> block \<Rightarrow> bool" where
  "block_image body b \<longleftrightarrow> block_wf b \<and> block_named b \<and> block_size b = length body \<and> block_code b = body ! 1 \<and>
     (block_octets b = drop 2 body \<or>
      block_code b = 0x04 \<and> butlast (block_octets b) = butlast (drop 2 body))"



subsection \<open>Lemmas\<close>

lemmas dib_sizes = block_header_size_def device_info_size_def ip_config_size_def
  current_ip_config_size_def manufacturer_data_min_size_def max_block_size_def friendly_name_size_def

lemmas block_type_defs = bt_device_info_def bt_supported_service_families_def bt_ip_config_def
  bt_current_ip_config_def bt_knx_addresses_def bt_secured_service_families_def bt_manufacturer_data_def

lemma length_families_wire [simp]: "length (families_wire es) = 2 * length es"
  by (induction es) (simp_all add: families_wire_def)

lemma addresses_wire_simps [simp]:
  "addresses_wire [] = []" "addresses_wire (a # as) = hi8 (ia_value a) # lo8 (ia_value a) # addresses_wire as"
  by (simp_all add: addresses_wire_def)

lemma length_addresses_wire [simp]: "length (addresses_wire as) = 2 * length as"
  by (induction as) simp_all











lemma families_wire_read: "even (length xs) \<Longrightarrow> families_wire (read_families xs) = xs"
  by (induction xs rule: read_families.induct) (auto simp: families_wire_def)

lemma families_known_read: "list_all (\<lambda>e. known_service_family (fe_family e)) (read_families xs) = families_known xs"
  by (induction xs rule: read_families.induct) auto

lemma addresses_wire_read: "even (length xs) \<Longrightarrow> addresses_wire (read_addresses xs) = xs"
  by (induction xs rule: read_addresses.induct) auto

lemma length_read_pairs: "even (length xs) \<Longrightarrow> 2 * length (read_families xs) = length xs"
  "even (length xs) \<Longrightarrow> 2 * length (read_addresses xs) = length xs"
  by (metis families_wire_read length_families_wire) (metis addresses_wire_read length_addresses_wire)

lemma decode_device_info_image:
  assumes "decode_device_info body = Inr b" "body ! 1 = 0x01"
  shows "block_image body b"
proof -
  have len: "length body = 54" using assms(1) by (auto simp: decode_device_info_def dib_sizes split: if_splits)
  have b: "b = Block_device_info
        \<lparr> di_knx_medium = body ! 2, di_device_status = body ! 3,
          di_address = Individual_address (be16 (body ! 4) (body ! 5)),
          di_project_installation_id = be16 (body ! 6) (body ! 7),
          di_serial_number = subspan body 8 6, di_multicast_address = subspan body 14 4,
          di_mac_address = subspan body 18 6, di_friendly_name = subspan body 24 30 \<rparr>"
    using assms(1) len by (simp add: decode_device_info_def dib_sizes read_u16_def read_octets_def)
  have "drop 2 body = [body ! 2, body ! 3, body ! 4, body ! 5, body ! 6, body ! 7] @ subspan body 8 6 @
      subspan body 14 4 @ subspan body 18 6 @ subspan body 24 30"
    using list_prefix_nth(3) [of "drop 2 body"] drop_split [of 8 body 6] drop_split [of 14 body 4]
      drop_split [of 18 body 6] drop_split [of 24 body 30] len by simp
  then show ?thesis
    using assms(2) len by (simp add: b block_image_def dib_sizes)
qed

lemma decode_ip_config_image:
  assumes "decode_ip_config body = Inr b" "body ! 1 = 0x03"
  shows "block_image body b"
proof -
  have len: "length body = 16" using assms(1) by (auto simp: decode_ip_config_def dib_sizes split: if_splits)
  have b: "b = Block_ip_config
        \<lparr> ic_address = subspan body 2 4, ic_subnet_mask = subspan body 6 4,
          ic_default_gateway = subspan body 10 4, ic_capabilities = body ! 14,
          ic_assignment_method = body ! 15 \<rparr>"
    using assms(1) len by (simp add: decode_ip_config_def dib_sizes read_octets_def)
  have "drop 2 body = subspan body 2 4 @ subspan body 6 4 @ subspan body 10 4 @ [body ! 14, body ! 15]"
    using list_prefix_nth(1) [of "drop 14 body"] drop_split [of 2 body 4] drop_split [of 6 body 4]
      drop_split [of 10 body 4] len by simp
  then show ?thesis
    using assms(2) len by (simp add: b block_image_def dib_sizes)
qed

lemma decode_current_ip_config_image:
  assumes "decode_current_ip_config body = Inr b" "body ! 1 = 0x04"
  shows "block_image body b"
proof -
  have len: "length body = 20"
    using assms(1) by (auto simp: decode_current_ip_config_def dib_sizes split: if_splits)
  have b: "b = Block_current_ip_config
        \<lparr> cc_address = subspan body 2 4, cc_subnet_mask = subspan body 6 4,
          cc_default_gateway = subspan body 10 4, cc_dhcp_server = subspan body 14 4,
          cc_assignment_method = body ! 18 \<rparr>"
    using assms(1) len by (simp add: decode_current_ip_config_def dib_sizes read_octets_def)
  have "drop 2 body = subspan body 2 4 @ subspan body 6 4 @ subspan body 10 4 @ subspan body 14 4 @
      [body ! 18, body ! 19]"
    using list_prefix_nth(1) [of "drop 18 body"] drop_split [of 2 body 4] drop_split [of 6 body 4]
      drop_split [of 10 body 4] drop_split [of 14 body 4] len by simp
  then show ?thesis
    using assms(2) len by (simp add: b block_image_def dib_sizes butlast_append)
qed

lemma decode_service_families_image:
  assumes "decode_service_families body s = Inr b" "body ! 1 = (if s then 0x06 else 0x02)" "2 \<le> length body"
  shows "block_image body b"
proof -
  have "(length body - 2) mod 2 = 0"
    using assms(1) by (simp add: decode_service_families_def dib_sizes split: if_splits)
  then have even: "even (length (drop 2 body))" by (simp add: even_iff_mod_2_eq_zero)
  show ?thesis
  proof (cases "families_known (drop 2 body)")
    case True
    then have "b = Block_service_families \<lparr> sf_secured = s, sf_families = read_families (drop 2 body) \<rparr>"
      using assms(1) even by (simp add: decode_service_families_def dib_sizes even_iff_mod_2_eq_zero split: if_splits)
    with True show ?thesis
      using assms(2,3) families_wire_read [OF even] length_read_pairs(1) [OF even]
      by (simp add: block_image_def dib_sizes families_known_read)
  next
    case False
    then have "b = Block_unknown \<lparr> ub_type_code = body ! 1, ub_data = drop 2 body \<rparr>"
      using assms(1) by (simp add: decode_service_families_def dib_sizes split: if_splits)
    with False show ?thesis using assms(2,3) even by (simp add: block_image_def dib_sizes)
  qed
qed

lemma decode_addresses_image:
  assumes "decode_addresses body = Inr b" "body ! 1 = 0x05"
  shows "block_image body b"
proof -
  have len: "4 \<le> length body" "length body mod 2 = 0"
    using assms(1) by (simp_all add: decode_addresses_def split: if_splits)
  then have even: "even (length (drop 4 body))" by simp presburger
  have b: "b = Block_addresses \<lparr> ad_device = Individual_address (be16 (body ! 2) (body ! 3)),
      ad_additional = read_addresses (drop 4 body) \<rparr>"
    using assms(1) len by (simp add: decode_addresses_def read_u16_def)
  have "drop 2 body = [body ! 2, body ! 3] @ drop 4 body"
    using list_prefix_nth(1) [of "drop 2 body"] len(1) by simp
  then show ?thesis
    using assms(2) len addresses_wire_read [OF even] length_read_pairs(2) [OF even]
    by (simp add: b block_image_def dib_sizes)
qed

lemma decode_manufacturer_data_image:
  assumes "decode_manufacturer_data body = Inr b" "body ! 1 = 0xFE"
  shows "block_image body b"
proof -
  have len: "4 \<le> length body"
    using assms(1) by (simp add: decode_manufacturer_data_def dib_sizes split: if_splits)
  have b: "b = Block_manufacturer_data \<lparr> md_manufacturer_id = be16 (body ! 2) (body ! 3), md_data = drop 4 body \<rparr>"
    using assms(1) len by (simp add: decode_manufacturer_data_def dib_sizes read_u16_def)
  have "drop 2 body = [body ! 2, body ! 3] @ drop 4 body"
    using list_prefix_nth(1) [of "drop 2 body"] len(1) by simp
  then show ?thesis using assms(2) len by (simp add: b block_image_def dib_sizes)
qed

lemma dib_decode_image:
  assumes "dib_decode bs = Inr b"
  shows "block_image (take (unat (bs ! 0)) bs) b"
proof -
  define body where "body = take (unat (bs ! 0)) bs"
  have sz: "2 \<le> unat (bs ! 0)" "unat (bs ! 0) \<le> length bs" using dib_decode_progress [OF assms] by simp_all
  then have len: "2 \<le> length body" and ty: "body ! 1 = bs ! 1" by (simp_all add: body_def)
  have body: "block_body bs = Some body" using sz by (simp add: block_body_def dib_sizes Let_def body_def)
  have unknown: "block_image body (decode_unknown body (bs ! 1))"
    if "bs ! 1 \<notin> {0x01, 0x02, 0x03, 0x04, 0x05, 0x06, 0xFE}"
    using that len ty by (simp add: block_image_def decode_unknown_def dib_sizes)
  have "block_image body b"
    using assms ty len unknown
    by (simp add: dib_decode_def body block_type_defs Let_def decode_device_info_image
      decode_service_families_image decode_ip_config_image decode_current_ip_config_image decode_addresses_image
      decode_manufacturer_data_image split: if_splits)
  then show ?thesis by (simp add: body_def)
qed

lemma blocks_size_simps [simp]: "blocks_size [] = 0" "blocks_size (v # vs) = block_size v + blocks_size vs"
proof -
  have "foldl (\<lambda>total v. total + block_size v) n vs = n + foldl (\<lambda>total v. total + block_size v) 0 vs" for n
  proof (induction vs arbitrary: n)
    case (Cons x xs)
    from Cons [of "n + block_size x"] Cons [of "block_size x"] show ?case by simp
  qed simp
  from this [of "block_size v"] show "blocks_size [] = 0" "blocks_size (v # vs) = block_size v + blocks_size vs"
    by (simp_all add: blocks_size_def)
qed





lemma decode_all_image:
  "decode_all bs = Inr vs \<Longrightarrow> \<exists>parts. bs = concat parts \<and> list_all2 block_image parts vs \<and>
     list_all (\<lambda>p. 2 \<le> length p \<and> unat (p ! 0) = length p) parts"
proof (induction bs arbitrary: vs rule: decode_all.induct)
  case (1 bs)
  show ?case
  proof (cases "bs = []")
    case True
    then show ?thesis using 1(2) by (auto simp: decode_all.simps [of "[]"] intro: exI [of _ "[]"])
  next
    case False
    let ?n = "unat (bs ! 0)"
    obtain v ws where v: "dib_decode bs = Inr v" and ws: "decode_all (drop ?n bs) = Inr ws" and vs: "vs = v # ws"
      using 1(2) False by (subst (asm) decode_all.simps) (auto split: sum.splits)
    have n: "2 \<le> ?n" "?n \<le> length bs" using dib_decode_progress [OF v] by simp_all
    obtain ps where ps: "drop ?n bs = concat ps" "list_all2 block_image ps ws"
      "list_all (\<lambda>p. 2 \<le> length p \<and> unat (p ! 0) = length p) ps"
      using 1(1) [OF False v ws] by blast
    have "bs = concat (take ?n bs # ps)" using ps(1) by (metis append_take_drop_id concat.simps(2))
    moreover have "list_all2 block_image (take ?n bs # ps) vs" using ps(2) dib_decode_image [OF v] vs by simp
    moreover have "list_all (\<lambda>p. 2 \<le> length p \<and> unat (p ! 0) = length p) (take ?n bs # ps)"
      using ps(3) n by simp
    ultimately show ?thesis by blast
  qed
qed

lemma valid_blocks_concat:
  "list_all (\<lambda>p. 2 \<le> length p \<and> unat (p ! 0) = length p) ps \<Longrightarrow> valid_blocks (concat ps)"
proof (induction ps)
  case Nil
  then show ?case by (simp add: valid_blocks.simps [of "[]"])
next
  case (Cons p ps)
  then have x: "unat (p ! 0) = length p" "2 \<le> length p" "valid_blocks (concat ps)" by simp_all
  then have hd: "unat ((p @ concat ps) ! 0) = length p" "p \<noteq> []" by (auto simp: nth_append)
  have "valid_blocks (p @ concat ps)"
    using x hd(2) by (subst valid_blocks.simps) (simp add: hd(1) dib_sizes Let_def)
  then show ?case by simp
qed


subsection \<open>Properties\<close>



text \<open>
  An accepted sequence of description blocks is cut exactly at the length octets, so that
  \<open>valid_blocks\<close> accepts it, and each block returned carries the octets it was decoded from; only
  the reserved last octet of a current-address block is not kept.
\<close>

theorem dib_sequence_lossless:
  assumes "decode_all bs = Inr vs"
  shows "valid_blocks bs \<and> blocks_size vs = length bs \<and>
    (\<exists>parts. bs = concat parts \<and> list_all2 block_image parts vs)"
proof -
  obtain parts where ps: "bs = concat parts" "list_all2 block_image parts vs"
    "list_all (\<lambda>p. 2 \<le> length p \<and> unat (p ! 0) = length p) parts"
    using decode_all_image [OF assms] by blast
  have "blocks_size vs = length (concat parts)"
    using ps(2) by (induction rule: list_all2_induct) (simp_all add: block_image_def)
  with ps valid_blocks_concat [OF ps(3)] show ?thesis by blast
qed

theorem dib_sequence_lossless_witness:
  "valid_blocks [4, 0x02, 0x02, 1, 3, 0x07, 9] \<and> blocks_size
     [Block_service_families \<lparr> sf_secured = False, sf_families = [\<lparr> fe_family = 0x02, fe_version = 1 \<rparr>] \<rparr>,
      Block_unknown \<lparr> ub_type_code = 0x07, ub_data = [9] \<rparr>] = 7"
proof -
  have "decode_all [4, 0x02, 0x02, 1, 3, 0x07, 9] = Inr
     [Block_service_families \<lparr> sf_secured = False, sf_families = [\<lparr> fe_family = 0x02, fe_version = 1 \<rparr>] \<rparr>,
      Block_unknown \<lparr> ub_type_code = 0x07, ub_data = [9] \<rparr>]" by code_simp
  from dib_sequence_lossless [OF this] show ?thesis by simp
qed

end
