(* ===== verification/Knx_Discovery.thy ===== *)
theory Knx_Discovery
  imports Knx_Connection Knx_Dib
begin

section \<open>KNXnet/IP discovery and self description packets\<close>

text \<open>
  The SEARCH, extended SEARCH and DESCRIPTION packets of \<open>knx/discovery.hpp\<close> and
  \<open>knx/discovery.cpp\<close>: frames, encoders and decoders, with the search request parameters of the
  extended request.  The file has its own HPAI routines, stricter than those of the connection
  packets: only the protocol code 1 (UDP) is accepted.
\<close>

subsection \<open>Frames and sizes\<close>

definition search_request_service :: u16 where "search_request_service = 0x0201"
definition search_response_service :: u16 where "search_response_service = 0x0202"
definition description_request_service :: u16 where "description_request_service = 0x0203"
definition description_response_service :: u16 where "description_response_service = 0x0204"
definition search_request_extended_service :: u16 where "search_request_extended_service = 0x020B"
definition search_response_extended_service :: u16 where "search_response_extended_service = 0x020C"
definition search_request_body_size :: nat where "search_request_body_size = hpai_size"
definition ipv6_search_request_body_size :: nat where "ipv6_search_request_body_size = ipv6_hpai_size"
definition description_request_body_size :: nat where "description_request_body_size = hpai_size"

record search_request_frame =
  sq_discovery_endpoint :: hpai

record ipv6_search_request_frame =
  sq6_discovery_endpoint :: ipv6_hpai

type_synonym search_parameter_type = byte

definition sp_programming_mode :: search_parameter_type where "sp_programming_mode = 0x01"
definition sp_mac_address :: search_parameter_type where "sp_mac_address = 0x02"
definition sp_service :: search_parameter_type where "sp_service = 0x03"
definition sp_request_dibs :: search_parameter_type where "sp_request_dibs = 0x04"

record search_parameter =
  sp_mandatory :: bool
  sp_type :: search_parameter_type
  sp_data :: bytes

definition search_parameter_type_mask :: byte where "search_parameter_type_mask = 0x7F"
definition search_parameter_mandatory_mask :: byte where "search_parameter_mandatory_mask = 0x80"
definition search_parameter_header_size :: nat where "search_parameter_header_size = 2"

record extended_search_request_frame =
  xq_discovery_endpoint :: hpai
  xq_parameters :: "search_parameter list"

record extended_search_response_frame =
  xs_control_endpoint :: hpai
  xs_device_info_blocks :: bytes

record search_response_frame =
  sa_control_endpoint :: hpai
  sa_device_info_blocks :: bytes

record ipv6_search_response_frame =
  sa6_control_endpoint :: ipv6_hpai
  sa6_device_info_blocks :: bytes

record description_request_frame =
  dq_control_endpoint :: hpai

record description_response_frame =
  da_device_info_blocks :: bytes

subsection \<open>Endpoints\<close>

definition valid_dibs :: "bytes \<Rightarrow> bool" where
  "valid_dibs dibs = valid_blocks dibs"

definition discovery_decode_hpai :: "bytes \<Rightarrow> hpai result" where
  "discovery_decode_hpai source =
     (if source \<noteq> [] \<and> source ! 0 = 20 then Inl Unsupported_hpai
      else if length source < hpai_size \<or> unat (source ! 0) \<noteq> hpai_size then Inl Malformed_frame
      else if source ! 1 \<noteq> 0x01 then Inl Unsupported_hpai
      else Inr \<lparr> hpai_endpoint = \<lparr> v4_address = [source ! 2, source ! 3, source ! 4, source ! 5],
                   v4_port = be16 (source ! 6) (source ! 7) \<rparr>,
                 hpai_protocol = source ! 1 \<rparr>)"

definition discovery_encode_hpai :: "bytes \<Rightarrow> hpai \<Rightarrow> bytes" where
  "discovery_encode_hpai dest h =
     (let a = v4_address (hpai_endpoint h)
      in write_at dest 0
        [word_of_nat hpai_size, hpai_protocol h, a ! 0, a ! 1, a ! 2, a ! 3,
         hi8 (v4_port (hpai_endpoint h)), lo8 (v4_port (hpai_endpoint h))])"

definition discovery_encode_ipv6_hpai :: "bytes \<Rightarrow> ipv6_hpai \<Rightarrow> bytes" where
  "discovery_encode_ipv6_hpai dest h =
     (let dest = write_at dest 0 [word_of_nat ipv6_hpai_size, hpai6_protocol h];
          dest = write_at dest 2 (v6_address (hpai6_endpoint h))
      in write_at dest 18 [hi8 (v6_port (hpai6_endpoint h)), lo8 (v6_port (hpai6_endpoint h))])"

definition discovery_decode_ipv6_hpai :: "bytes \<Rightarrow> ipv6_hpai result" where
  "discovery_decode_ipv6_hpai source =
     (if length source < ipv6_hpai_size \<or> unat (source ! 0) \<noteq> ipv6_hpai_size then Inl Malformed_frame
      else if source ! 1 \<noteq> 0x01 then Inl Unsupported_hpai
      else Inr \<lparr> hpai6_endpoint = \<lparr> v6_address = subspan source 2 16,
                   v6_port = be16 (source ! 18) (source ! 19) \<rparr>,
                 hpai6_protocol = source ! 1 \<rparr>)"

subsection \<open>Search requests and responses\<close>

definition encode_search_request_packet :: "bytes \<Rightarrow> search_request_frame \<Rightarrow> unit result \<times> bytes" where
  "encode_search_request_packet dest request =
     (let total_length = communication_header_size + search_request_body_size
      in if length dest < total_length then (Inl Invalid_length, dest)
         else if hpai_protocol (sq_discovery_endpoint request) \<noteq> 0x01 then (Inl Unsupported_hpai, dest)
         else
           bind_w (encode_communication_header dest search_request_service (word_of_nat total_length) 0x10)
             (\<lambda>dest. (Inr (), update_subspan dest communication_header_size hpai_size
               (\<lambda>s. discovery_encode_hpai s (sq_discovery_endpoint request)))))"

definition decode_search_request_packet :: "bytes \<Rightarrow> search_request_frame result" where
  "decode_search_request_packet packet =
     (case decode_communication_header packet of Inl e \<Rightarrow> Inl e | Inr header \<Rightarrow>
      if ch_protocol_version header \<noteq> 0x10 \<or> ch_service_type header \<noteq> search_request_service
      then Inl Unsupported_service
      else if unat (ch_total_length header) \<noteq> length packet \<or>
        length packet \<noteq> communication_header_size + search_request_body_size
      then Inl Malformed_frame
      else
        case discovery_decode_hpai (subspan packet communication_header_size hpai_size) of Inl e \<Rightarrow> Inl e
        | Inr endpoint \<Rightarrow> Inr \<lparr> sq_discovery_endpoint = endpoint \<rparr>)"

definition encode_ipv6_search_request_packet ::
    "bytes \<Rightarrow> ipv6_search_request_frame \<Rightarrow> unit result \<times> bytes" where
  "encode_ipv6_search_request_packet dest request =
     (let total_length = communication_header_size + ipv6_search_request_body_size
      in if length dest < total_length then (Inl Invalid_length, dest)
         else if hpai6_protocol (sq6_discovery_endpoint request) \<noteq> 0x01 then (Inl Unsupported_hpai, dest)
         else
           bind_w (encode_communication_header dest search_request_service (word_of_nat total_length) 0x10)
             (\<lambda>dest. (Inr (), update_subspan dest communication_header_size ipv6_hpai_size
               (\<lambda>s. discovery_encode_ipv6_hpai s (sq6_discovery_endpoint request)))))"

definition decode_ipv6_search_request_packet :: "bytes \<Rightarrow> ipv6_search_request_frame result" where
  "decode_ipv6_search_request_packet packet =
     (case decode_communication_header packet of Inl e \<Rightarrow> Inl e | Inr header \<Rightarrow>
      if ch_protocol_version header \<noteq> 0x10 \<or> ch_service_type header \<noteq> search_request_service
      then Inl Unsupported_service
      else if unat (ch_total_length header) \<noteq> length packet \<or>
        length packet \<noteq> communication_header_size + ipv6_search_request_body_size
      then Inl Malformed_frame
      else
        case discovery_decode_ipv6_hpai (subspan packet communication_header_size ipv6_hpai_size) of Inl e \<Rightarrow> Inl e
        | Inr endpoint \<Rightarrow> Inr \<lparr> sq6_discovery_endpoint = endpoint \<rparr>)"

definition encode_search_response_packet :: "bytes \<Rightarrow> search_response_frame \<Rightarrow> unit result \<times> bytes" where
  "encode_search_response_packet dest response =
     (let fixed_body_size = hpai_size;
          total_length = communication_header_size + fixed_body_size + length (sa_device_info_blocks response)
      in if total_length > max_total_length \<or> length dest < total_length then (Inl Invalid_length, dest)
         else if hpai_protocol (sa_control_endpoint response) \<noteq> 0x01 then (Inl Unsupported_hpai, dest)
         else if \<not> valid_dibs (sa_device_info_blocks response) then (Inl Malformed_frame, dest)
         else
           bind_w (encode_communication_header dest search_response_service (word_of_nat total_length) 0x10)
             (\<lambda>dest.
               let dest = update_subspan dest communication_header_size hpai_size
                     (\<lambda>s. discovery_encode_hpai s (sa_control_endpoint response))
               in (Inr (), write_at dest (communication_header_size + hpai_size) (sa_device_info_blocks response))))"

definition decode_search_response_packet :: "bytes \<Rightarrow> search_response_frame result" where
  "decode_search_response_packet packet =
     (case decode_communication_header packet of Inl e \<Rightarrow> Inl e | Inr header \<Rightarrow>
      if ch_protocol_version header \<noteq> 0x10 \<or> ch_service_type header \<noteq> search_response_service
      then Inl Unsupported_service
      else if unat (ch_total_length header) \<noteq> length packet \<or>
        length packet < communication_header_size + hpai_size + 2
      then Inl Malformed_frame
      else
        case discovery_decode_hpai (subspan packet communication_header_size hpai_size) of Inl e \<Rightarrow> Inl e
        | Inr endpoint \<Rightarrow>
            let dib_offset = communication_header_size + hpai_size;
                dib_size = length packet - dib_offset
            in if \<not> valid_dibs (subspan packet dib_offset dib_size) then Inl Malformed_frame
               else Inr \<lparr> sa_control_endpoint = endpoint, sa_device_info_blocks = drop dib_offset packet \<rparr>)"

definition encode_ipv6_search_response_packet ::
    "bytes \<Rightarrow> ipv6_search_response_frame \<Rightarrow> unit result \<times> bytes" where
  "encode_ipv6_search_response_packet dest response =
     (let total_length = communication_header_size + ipv6_hpai_size + length (sa6_device_info_blocks response)
      in if total_length > max_total_length \<or> length dest < total_length then (Inl Invalid_length, dest)
         else if hpai6_protocol (sa6_control_endpoint response) \<noteq> 0x01 then (Inl Unsupported_hpai, dest)
         else if \<not> valid_dibs (sa6_device_info_blocks response) then (Inl Malformed_frame, dest)
         else
           bind_w (encode_communication_header dest search_response_service (word_of_nat total_length) 0x10)
             (\<lambda>dest.
               let dest = update_subspan dest communication_header_size ipv6_hpai_size
                     (\<lambda>s. discovery_encode_ipv6_hpai s (sa6_control_endpoint response))
               in (Inr (), write_at dest (communication_header_size + ipv6_hpai_size)
                     (sa6_device_info_blocks response))))"

definition decode_ipv6_search_response_packet :: "bytes \<Rightarrow> ipv6_search_response_frame result" where
  "decode_ipv6_search_response_packet packet =
     (case decode_communication_header packet of Inl e \<Rightarrow> Inl e | Inr header \<Rightarrow>
      if ch_protocol_version header \<noteq> 0x10 \<or> ch_service_type header \<noteq> search_response_service
      then Inl Unsupported_service
      else
        let dib_offset = communication_header_size + ipv6_hpai_size
        in if unat (ch_total_length header) \<noteq> length packet \<or> length packet < dib_offset + 2
           then Inl Malformed_frame
           else
             case discovery_decode_ipv6_hpai (subspan packet communication_header_size ipv6_hpai_size) of Inl e \<Rightarrow> Inl e
             | Inr endpoint \<Rightarrow>
                 let dib_size = length packet - dib_offset
                 in if \<not> valid_dibs (subspan packet dib_offset dib_size) then Inl Malformed_frame
                    else Inr \<lparr> sa6_control_endpoint = endpoint, sa6_device_info_blocks = drop dib_offset packet \<rparr>)"

subsection \<open>Descriptions\<close>

definition encode_description_request_packet ::
    "bytes \<Rightarrow> description_request_frame \<Rightarrow> unit result \<times> bytes" where
  "encode_description_request_packet dest request =
     (let total_length = communication_header_size + description_request_body_size
      in if length dest < total_length then (Inl Invalid_length, dest)
         else if hpai_protocol (dq_control_endpoint request) \<noteq> 0x01 then (Inl Unsupported_hpai, dest)
         else
           bind_w (encode_communication_header dest description_request_service (word_of_nat total_length) 0x10)
             (\<lambda>dest. (Inr (), update_subspan dest communication_header_size hpai_size
               (\<lambda>s. discovery_encode_hpai s (dq_control_endpoint request)))))"

definition decode_description_request_packet :: "bytes \<Rightarrow> description_request_frame result" where
  "decode_description_request_packet packet =
     (case decode_communication_header packet of Inl e \<Rightarrow> Inl e | Inr header \<Rightarrow>
      if ch_protocol_version header \<noteq> 0x10 \<or> ch_service_type header \<noteq> description_request_service
      then Inl Unsupported_service
      else if unat (ch_total_length header) \<noteq> length packet \<or>
        length packet \<noteq> communication_header_size + description_request_body_size
      then Inl Malformed_frame
      else
        case discovery_decode_hpai (subspan packet communication_header_size hpai_size) of Inl e \<Rightarrow> Inl e
        | Inr endpoint \<Rightarrow> Inr \<lparr> dq_control_endpoint = endpoint \<rparr>)"

definition encode_description_response_packet ::
    "bytes \<Rightarrow> description_response_frame \<Rightarrow> unit result \<times> bytes" where
  "encode_description_response_packet dest response =
     (let total_length = communication_header_size + length (da_device_info_blocks response)
      in if total_length > max_total_length \<or> length dest < total_length then (Inl Invalid_length, dest)
         else if \<not> valid_dibs (da_device_info_blocks response) then (Inl Malformed_frame, dest)
         else
           bind_w (encode_communication_header dest description_response_service (word_of_nat total_length) 0x10)
             (\<lambda>dest. (Inr (), write_at dest communication_header_size (da_device_info_blocks response))))"

definition decode_description_response_packet :: "bytes \<Rightarrow> description_response_frame result" where
  "decode_description_response_packet packet =
     (case decode_communication_header packet of Inl e \<Rightarrow> Inl e | Inr header \<Rightarrow>
      if ch_protocol_version header \<noteq> 0x10 \<or> ch_service_type header \<noteq> description_response_service
      then Inl Unsupported_service
      else if unat (ch_total_length header) \<noteq> length packet \<or> length packet < communication_header_size + 2
      then Inl Malformed_frame
      else
        let dib_size = length packet - communication_header_size;
            dib_offset = communication_header_size
        in if \<not> valid_dibs (subspan packet dib_offset dib_size) then Inl Malformed_frame
           else Inr \<lparr> da_device_info_blocks = drop dib_offset packet \<rparr>)"

subsection \<open>Extended search\<close>

definition search_parameter_data_size :: "search_parameter_type \<Rightarrow> nat option" where
  "search_parameter_data_size ty =
     (if ty = sp_programming_mode then Some 0
      else if ty = sp_mac_address then Some 6
      else if ty = sp_service then Some 2
      else None)"

definition known_search_parameter :: "byte \<Rightarrow> bool" where
  "known_search_parameter ty \<longleftrightarrow> ty \<in> {sp_programming_mode, sp_mac_address, sp_service, sp_request_dibs}"

definition parameter_block_size :: "search_parameter \<Rightarrow> nat result" where
  "parameter_block_size v =
     (if \<not> known_search_parameter (sp_type v) then Inl Invalid_configuration
      else
        let required = search_parameter_data_size (sp_type v)
        in if required \<noteq> None \<and> length (sp_data v) \<noteq> the required then Inl Invalid_configuration
           else
             let sz = search_parameter_header_size + length (sp_data v);
                 sz = sz + sz mod 2
             in if sz > 0xFF then Inl Invalid_length else Inr sz)"

fun parameters_size :: "nat \<Rightarrow> search_parameter list \<Rightarrow> nat result" where
  "parameters_size so_far [] = Inr so_far"
| "parameters_size so_far (p # ps) =
     (case parameter_block_size p of Inl e \<Rightarrow> Inl e | Inr sz \<Rightarrow> parameters_size (so_far + sz) ps)"

definition extended_search_request_size :: "extended_search_request_frame \<Rightarrow> nat result" where
  "extended_search_request_size request =
     (case parameters_size (communication_header_size + search_request_body_size) (xq_parameters request) of
        Inl e \<Rightarrow> Inl e
      | Inr so_far \<Rightarrow> if so_far > max_total_length then Inl Invalid_length else Inr so_far)"

definition write_search_parameter :: "bytes \<Rightarrow> nat \<Rightarrow> search_parameter \<Rightarrow> nat result \<times> bytes" where
  "write_search_parameter dest offset parameter =
     (case parameter_block_size parameter of
        Inl e \<Rightarrow> (Inl e, dest)
      | Inr sz \<Rightarrow>
          let data_offset = offset + search_parameter_header_size;
              dest = write_at dest offset
                [word_of_nat sz,
                 (if sp_mandatory parameter then search_parameter_mandatory_mask else 0) OR sp_type parameter];
              dest = write_at dest data_offset (sp_data parameter);
              dest = write_at dest (data_offset + length (sp_data parameter))
                (replicate (offset + sz - (data_offset + length (sp_data parameter))) 0)
          in (Inr sz, dest))"

fun write_search_parameters :: "bytes \<Rightarrow> nat \<Rightarrow> search_parameter list \<Rightarrow> unit result \<times> bytes" where
  "write_search_parameters dest offset [] = (Inr (), dest)"
| "write_search_parameters dest offset (p # ps) =
     (let (written, dest) = write_search_parameter dest offset p
      in case written of Inl e \<Rightarrow> (Inl e, dest) | Inr n \<Rightarrow> write_search_parameters dest (offset + n) ps)"

definition encode_extended_search_request_packet ::
    "bytes \<Rightarrow> extended_search_request_frame \<Rightarrow> unit result \<times> bytes" where
  "encode_extended_search_request_packet dest request =
     (case extended_search_request_size request of Inl e \<Rightarrow> (Inl e, dest) | Inr total_length \<Rightarrow>
      if length dest < total_length then (Inl Invalid_length, dest)
      else if hpai_protocol (xq_discovery_endpoint request) \<noteq> 0x01 then (Inl Unsupported_hpai, dest)
      else
        bind_w (encode_communication_header dest search_request_extended_service (word_of_nat total_length) 0x10)
          (\<lambda>dest.
            let dest = update_subspan dest communication_header_size hpai_size
                  (\<lambda>s. discovery_encode_hpai s (xq_discovery_endpoint request))
            in write_search_parameters dest (communication_header_size + search_request_body_size)
                 (xq_parameters request)))"

definition validate_extended_search_header :: "bytes \<Rightarrow> unit result" where
  "validate_extended_search_header packet =
     (case decode_communication_header packet of Inl e \<Rightarrow> Inl e | Inr header \<Rightarrow>
      if ch_protocol_version header \<noteq> 0x10 \<or> ch_service_type header \<noteq> search_request_extended_service
      then Inl Unsupported_service
      else if unat (ch_total_length header) \<noteq> length packet then Inl Malformed_frame
      else if length packet < communication_header_size + search_request_body_size then Inl Malformed_frame
      else Inr ())"

definition decode_search_parameter :: "bytes \<Rightarrow> search_parameter option result" where
  "decode_search_parameter block =
     (let type_octet = block ! 1;
          ty = type_octet AND search_parameter_type_mask;
          mandatory = (type_octet AND search_parameter_mandatory_mask \<noteq> 0)
      in if \<not> known_search_parameter ty
         then (if mandatory then Inl Unsupported_service else Inr None)
         else
           let required = search_parameter_data_size ty
           in if required \<noteq> None \<and> length block - search_parameter_header_size \<noteq> the required
              then Inl Malformed_frame
              else Inr (Some \<lparr> sp_mandatory = mandatory, sp_type = ty,
                sp_data = drop search_parameter_header_size block \<rparr>))"

function decode_search_parameters :: "bytes \<Rightarrow> nat \<Rightarrow> search_parameter list result" where
  "decode_search_parameters packet offset =
     (if offset < length packet then
        let sz = unat (packet ! offset)
        in if sz < search_parameter_header_size \<or> offset + sz > length packet then Inl Malformed_frame
           else
             case decode_search_parameter (subspan packet offset sz) of Inl e \<Rightarrow> Inl e | Inr parameter \<Rightarrow>
             case decode_search_parameters packet (offset + sz) of Inl e \<Rightarrow> Inl e | Inr ps \<Rightarrow>
             Inr (case parameter of None \<Rightarrow> ps | Some p \<Rightarrow> p # ps)
      else Inr [])"
  by pat_completeness auto
termination
  by (relation "measure (\<lambda>(packet, offset). length packet - offset)")
    (auto simp: search_parameter_header_size_def)

declare decode_search_parameters.simps [simp del]

definition decode_extended_search_request_packet :: "bytes \<Rightarrow> extended_search_request_frame result" where
  "decode_extended_search_request_packet packet =
     (case validate_extended_search_header packet of Inl e \<Rightarrow> Inl e | Inr _ \<Rightarrow>
      case discovery_decode_hpai (subspan packet communication_header_size hpai_size) of Inl e \<Rightarrow> Inl e
      | Inr endpoint \<Rightarrow>
          (case decode_search_parameters packet (communication_header_size + search_request_body_size) of
             Inl e \<Rightarrow> Inl e
           | Inr ps \<Rightarrow> Inr \<lparr> xq_discovery_endpoint = endpoint, xq_parameters = ps \<rparr>))"

definition encode_extended_search_response_packet ::
    "bytes \<Rightarrow> extended_search_response_frame \<Rightarrow> unit result \<times> bytes" where
  "encode_extended_search_response_packet dest response =
     (let total_length = communication_header_size + hpai_size + length (xs_device_info_blocks response)
      in if total_length > max_total_length \<or> length dest < total_length then (Inl Invalid_length, dest)
         else if hpai_protocol (xs_control_endpoint response) \<noteq> 0x01 then (Inl Unsupported_hpai, dest)
         else if \<not> valid_dibs (xs_device_info_blocks response) then (Inl Malformed_frame, dest)
         else
           bind_w (encode_communication_header dest search_response_extended_service (word_of_nat total_length) 0x10)
             (\<lambda>dest.
               let dest = update_subspan dest communication_header_size hpai_size
                     (\<lambda>s. discovery_encode_hpai s (xs_control_endpoint response))
               in (Inr (), write_at dest (communication_header_size + hpai_size) (xs_device_info_blocks response))))"

definition decode_extended_search_response_packet :: "bytes \<Rightarrow> extended_search_response_frame result" where
  "decode_extended_search_response_packet packet =
     (case decode_communication_header packet of Inl e \<Rightarrow> Inl e | Inr header \<Rightarrow>
      if ch_protocol_version header \<noteq> 0x10 \<or> ch_service_type header \<noteq> search_response_extended_service
      then Inl Unsupported_service
      else if unat (ch_total_length header) \<noteq> length packet then Inl Malformed_frame
      else if length packet < communication_header_size + hpai_size then Inl Malformed_frame
      else
        case discovery_decode_hpai (subspan packet communication_header_size hpai_size) of Inl e \<Rightarrow> Inl e
        | Inr endpoint \<Rightarrow>
            let dib_offset = communication_header_size + hpai_size
            in if \<not> valid_dibs (drop dib_offset packet) then Inl Malformed_frame
               else Inr \<lparr> xs_control_endpoint = endpoint, xs_device_info_blocks = drop dib_offset packet \<rparr>)"

subsection \<open>Wire images\<close>

text \<open>
  The image of each packet.  An extended search request pads the data of a parameter to an even
  number of octets, so the parameters that come back are the padded ones.
\<close>

definition udp_endpoint :: "hpai \<Rightarrow> bool" where
  "udp_endpoint h \<longleftrightarrow> hpai_protocol h = 0x01"

definition udp6_endpoint :: "ipv6_hpai \<Rightarrow> bool" where
  "udp6_endpoint h \<longleftrightarrow> hpai6_protocol h = 0x01"

definition search_request_wire :: "search_request_frame \<Rightarrow> bytes" where
  "search_request_wire f = knx_packet search_request_service (hpai_wire (sq_discovery_endpoint f))"

definition ipv6_search_request_wire :: "ipv6_search_request_frame \<Rightarrow> bytes" where
  "ipv6_search_request_wire f = knx_packet search_request_service (ipv6_hpai_wire (sq6_discovery_endpoint f))"

definition description_request_wire :: "description_request_frame \<Rightarrow> bytes" where
  "description_request_wire f = knx_packet description_request_service (hpai_wire (dq_control_endpoint f))"

definition search_response_wire :: "search_response_frame \<Rightarrow> bytes" where
  "search_response_wire f = knx_packet search_response_service
     (hpai_wire (sa_control_endpoint f) @ sa_device_info_blocks f)"

definition ipv6_search_response_wire :: "ipv6_search_response_frame \<Rightarrow> bytes" where
  "ipv6_search_response_wire f = knx_packet search_response_service
     (ipv6_hpai_wire (sa6_control_endpoint f) @ sa6_device_info_blocks f)"

definition description_response_wire :: "description_response_frame \<Rightarrow> bytes" where
  "description_response_wire f = knx_packet description_response_service (da_device_info_blocks f)"

definition extended_search_response_wire :: "extended_search_response_frame \<Rightarrow> bytes" where
  "extended_search_response_wire f = knx_packet search_response_extended_service
     (hpai_wire (xs_control_endpoint f) @ xs_device_info_blocks f)"

definition description_ok :: "nat \<Rightarrow> bytes \<Rightarrow> bool" where
  "description_ok n blocks \<longleftrightarrow> valid_blocks blocks \<and> n + length blocks \<le> max_total_length"

definition parameter_ok :: "search_parameter \<Rightarrow> bool" where
  "parameter_ok p \<longleftrightarrow> known_search_parameter (sp_type p) \<and>
     (case search_parameter_data_size (sp_type p) of None \<Rightarrow> True | Some n \<Rightarrow> length (sp_data p) = n) \<and>
     length (sp_data p) \<le> 252"

definition padded :: "search_parameter \<Rightarrow> search_parameter" where
  "padded p = p\<lparr> sp_data := sp_data p @ replicate (length (sp_data p) mod 2) 0 \<rparr>"

definition parameter_wire :: "search_parameter \<Rightarrow> bytes" where
  "parameter_wire p =
     [word_of_nat (2 + length (sp_data (padded p))), (if sp_mandatory p then 0x80 else 0) OR sp_type p] @
     sp_data (padded p)"

definition parameters_wire :: "search_parameter list \<Rightarrow> bytes" where
  "parameters_wire ps = concat (map parameter_wire ps)"

definition extended_search_request_wire :: "extended_search_request_frame \<Rightarrow> bytes" where
  "extended_search_request_wire f = knx_packet search_request_extended_service
     (hpai_wire (xq_discovery_endpoint f) @ parameters_wire (xq_parameters f))"

definition extended_search_request_ok :: "extended_search_request_frame \<Rightarrow> bool" where
  "extended_search_request_ok f \<longleftrightarrow> hpai_protocol (xq_discovery_endpoint f) = 0x01 \<and>
     list_all parameter_ok (xq_parameters f) \<and> length (parameters_wire (xq_parameters f)) \<le> 65521"

definition sample_extended_search :: extended_search_request_frame where
  "sample_extended_search = \<lparr> xq_discovery_endpoint = sample_hpai,
     xq_parameters = [\<lparr> sp_mandatory = True, sp_type = 0x01, sp_data = [] \<rparr>,
       \<lparr> sp_mandatory = False, sp_type = 0x04, sp_data = [1, 2, 6] \<rparr>] \<rparr>"

subsection \<open>Lemmas\<close>

lemmas discovery_sizes = search_request_body_size_def ipv6_search_request_body_size_def
  description_request_body_size_def search_parameter_header_size_def connection_sizes

lemma discovery_encode_hpai_eq: "discovery_encode_hpai = encode_hpai"
  by (simp add: fun_eq_iff discovery_encode_hpai_def encode_hpai_def)

lemma discovery_encode_ipv6_hpai_eq: "discovery_encode_ipv6_hpai = encode_ipv6_hpai"
  by (simp add: fun_eq_iff discovery_encode_ipv6_hpai_def encode_ipv6_hpai_def)

lemma discovery_decode_hpai_eq:
  "discovery_decode_hpai s = (case decode_hpai s of Inl e \<Rightarrow> Inl e
     | Inr h \<Rightarrow> if udp_endpoint h then Inr h else Inl Unsupported_hpai)"
  by (simp add: discovery_decode_hpai_def decode_hpai_def udp_endpoint_def known_protocol_def udp_protocol_def)

lemma discovery_decode_ipv6_hpai_eq:
  "discovery_decode_ipv6_hpai s = (case decode_ipv6_hpai s of Inl e \<Rightarrow> Inl e
     | Inr h \<Rightarrow> if udp6_endpoint h then Inr h else Inl Unsupported_hpai)"
  by (simp add: discovery_decode_ipv6_hpai_def decode_ipv6_hpai_def udp6_endpoint_def known_protocol_def udp_protocol_def)

lemma udp_known_protocol: "udp_endpoint h \<Longrightarrow> known_protocol (hpai_protocol h)"
  "udp6_endpoint h6 \<Longrightarrow> known_protocol (hpai6_protocol h6)"
  by (simp_all add: udp_endpoint_def udp6_endpoint_def known_protocol_def udp_protocol_def)

lemma discovery_decode_hpai_iff:
  "length s = 8 \<Longrightarrow> discovery_decode_hpai s = Inr h \<longleftrightarrow> hpai_wf h \<and> udp_endpoint h \<and> s = hpai_wire h"
  using decode_hpai_sound [of s h] decode_hpai_wire [of h] udp_known_protocol(1) [of h]
  by (auto simp: discovery_decode_hpai_eq split: sum.splits if_splits)

lemma discovery_decode_ipv6_hpai_iff:
  "length s = 20 \<Longrightarrow> discovery_decode_ipv6_hpai s = Inr h \<longleftrightarrow>
     ipv6_hpai_wf h \<and> udp6_endpoint h \<and> s = ipv6_hpai_wire h"
  using decode_ipv6_hpai_sound [of s h] decode_ipv6_hpai_wire [of h] udp_known_protocol(2) [of h]
  by (auto simp: discovery_decode_ipv6_hpai_eq split: sum.splits if_splits)

lemma opened_packet:
  "(case decode_communication_header p of Inl e \<Rightarrow> Inl e | Inr h \<Rightarrow>
      if ch_protocol_version h \<noteq> 0x10 \<or> ch_service_type h \<noteq> s then Inl E
      else if unat (ch_total_length h) \<noteq> length p then Inl F else K) = Inr x \<longleftrightarrow>
   (\<exists>b. p = knx_packet s b \<and> length b < 65530 \<and> K = Inr x)"
  (is "?L \<longleftrightarrow> ?R")
proof
  assume ?L
  then obtain h where h: "decode_communication_header p = Inr h" "unat (ch_total_length h) = length p"
      "ch_service_type h = s" "K = Inr x"
    by (auto split: sum.splits if_splits)
  from decode_header_sound [OF h(1,2)] unat_u16_less [of "ch_total_length h"] h(2)
  have "p = knx_packet s (drop 6 p)" "length (drop 6 p) < 65530" by (auto simp: h(3))
  with h(4) show ?R by blast
next
  assume ?R
  then obtain b where p: "p = knx_packet s b" "length b < 65530" "K = Inr x" by blast
  have "unat (word_of_nat (6 + length b) :: u16) = 6 + length b" using p(2) by (intro unat_u16_of_nat) simp
  with p show ?L by (simp add: decode_header_wire)
qed

lemma if_disj_split: "(if P \<or> c then u else v) = (if P then u else if c then u else v)"
  by simp

lemma opened_iff:
  "(case decode_communication_header p of Inl e \<Rightarrow> Inl e | Inr h \<Rightarrow>
      if ch_protocol_version h \<noteq> 0x10 \<or> ch_service_type h \<noteq> s then Inl E
      else if unat (ch_total_length h) \<noteq> length p \<or> c then Inl F else K) = Inr x \<longleftrightarrow>
   (\<exists>b. p = knx_packet s b \<and> length b < 65530 \<and> \<not> c \<and> K = Inr x)"
  unfolding if_disj_split [of "unat _ \<noteq> _" c] opened_packet by auto

lemma blocks_nonempty: "valid_blocks bs \<Longrightarrow> bs \<noteq> [] \<Longrightarrow> 2 \<le> length bs"
  by (subst (asm) valid_blocks.simps) (auto simp: block_header_size_def Let_def split: if_splits)

lemma decode_search_request_iff:
  "decode_search_request_packet p = Inr f \<longleftrightarrow> hpai_wf (sq_discovery_endpoint f) \<and>
     udp_endpoint (sq_discovery_endpoint f) \<and> p = search_request_wire f"
proof -
  have "(case discovery_decode_hpai (subspan p 6 8) of Inl e \<Rightarrow> Inl e
      | Inr h \<Rightarrow> Inr \<lparr> sq_discovery_endpoint = h \<rparr>) = Inr f \<longleftrightarrow>
    hpai_wf (sq_discovery_endpoint f) \<and> udp_endpoint (sq_discovery_endpoint f) \<and> b = hpai_wire (sq_discovery_endpoint f)"
    if "p = knx_packet search_request_service b" "length b = 8" for b
    using that discovery_decode_hpai_iff [of b "sq_discovery_endpoint f"]
    by (cases f) (auto simp: subspan_def split: sum.splits)
  then show ?thesis
    unfolding decode_search_request_packet_def discovery_sizes opened_iff search_request_wire_def by auto
qed

lemma decode_ipv6_search_request_iff:
  "decode_ipv6_search_request_packet p = Inr f \<longleftrightarrow> ipv6_hpai_wf (sq6_discovery_endpoint f) \<and>
     udp6_endpoint (sq6_discovery_endpoint f) \<and> p = ipv6_search_request_wire f"
proof -
  have "(case discovery_decode_ipv6_hpai (subspan p 6 20) of Inl e \<Rightarrow> Inl e
      | Inr h \<Rightarrow> Inr \<lparr> sq6_discovery_endpoint = h \<rparr>) = Inr f \<longleftrightarrow>
    ipv6_hpai_wf (sq6_discovery_endpoint f) \<and> udp6_endpoint (sq6_discovery_endpoint f) \<and>
    b = ipv6_hpai_wire (sq6_discovery_endpoint f)"
    if "p = knx_packet search_request_service b" "length b = 20" for b
    using that discovery_decode_ipv6_hpai_iff [of b "sq6_discovery_endpoint f"]
    by (cases f) (auto simp: subspan_def split: sum.splits)
  then show ?thesis
    unfolding decode_ipv6_search_request_packet_def discovery_sizes opened_iff ipv6_search_request_wire_def by auto
qed

lemma decode_description_request_iff:
  "decode_description_request_packet p = Inr f \<longleftrightarrow> hpai_wf (dq_control_endpoint f) \<and>
     udp_endpoint (dq_control_endpoint f) \<and> p = description_request_wire f"
proof -
  have "(case discovery_decode_hpai (subspan p 6 8) of Inl e \<Rightarrow> Inl e
      | Inr h \<Rightarrow> Inr \<lparr> dq_control_endpoint = h \<rparr>) = Inr f \<longleftrightarrow>
    hpai_wf (dq_control_endpoint f) \<and> udp_endpoint (dq_control_endpoint f) \<and> b = hpai_wire (dq_control_endpoint f)"
    if "p = knx_packet description_request_service b" "length b = 8" for b
    using that discovery_decode_hpai_iff [of b "dq_control_endpoint f"]
    by (cases f) (auto simp: subspan_def split: sum.splits)
  then show ?thesis
    unfolding decode_description_request_packet_def discovery_sizes opened_iff description_request_wire_def by auto
qed

lemma described_iff:
  assumes "6 + 8 \<le> m"
  shows "(\<exists>b. p = knx_packet s b \<and> length b < 65530 \<and> \<not> length p < m \<and>
      (case discovery_decode_hpai (subspan p 6 8) of Inl e \<Rightarrow> Inl e | Inr h \<Rightarrow>
       if \<not> valid_blocks (drop (6 + 8) p) then Inl Malformed_frame else Inr (mk h (drop (6 + 8) p))) = Inr x) \<longleftrightarrow>
    (\<exists>h ds. hpai_wf h \<and> udp_endpoint h \<and> description_ok (6 + 8) ds \<and> m \<le> 6 + 8 + length ds \<and>
       p = knx_packet s (hpai_wire h @ ds) \<and> x = mk h ds)"
  (is "?L \<longleftrightarrow> ?R")
proof
  assume ?L
  then obtain b h where p: "p = knx_packet s b" "length b < 65530" "m \<le> 6 + length b"
    and h: "discovery_decode_hpai (take 8 b) = Inr h" "valid_blocks (drop 8 b)" "x = mk h (drop 8 b)"
    by (auto simp: subspan_def knx_packet_def split: sum.splits if_splits)
  have l: "length (take 8 b) = 8" using p(3) assms by simp
  have "hpai_wf h" "udp_endpoint h" "b = hpai_wire h @ drop 8 b"
    using h(1) discovery_decode_hpai_iff [OF l] append_take_drop_id [of 8 b] by metis+
  with p h show ?R by (intro exI [of _ h] exI [of _ "drop 8 b"]) (auto simp: description_ok_def max_total_length_def)
next
  assume ?R
  then obtain h ds where h: "hpai_wf h" "udp_endpoint h" "valid_blocks ds" "14 + length ds \<le> 65535"
      "m \<le> 14 + length ds" "p = knx_packet s (hpai_wire h @ ds)" "x = mk h ds"
    by (auto simp: description_ok_def max_total_length_def)
  then have "discovery_decode_hpai (subspan p 6 8) = Inr h" "drop (6 + 8) p = ds"
    using discovery_decode_hpai_iff [of "hpai_wire h" h] by (simp_all add: subspan_def knx_packet_def)
  with h show ?L by (intro exI [of _ "hpai_wire h @ ds"]) simp
qed

lemma described6_iff:
  assumes "6 + 20 \<le> m"
  shows "(\<exists>b. p = knx_packet s b \<and> length b < 65530 \<and> \<not> length p < m \<and>
      (case discovery_decode_ipv6_hpai (subspan p 6 20) of Inl e \<Rightarrow> Inl e | Inr h \<Rightarrow>
       if \<not> valid_blocks (drop (6 + 20) p) then Inl Malformed_frame else Inr (mk h (drop (6 + 20) p))) = Inr x) \<longleftrightarrow>
    (\<exists>h ds. ipv6_hpai_wf h \<and> udp6_endpoint h \<and> description_ok (6 + 20) ds \<and> m \<le> 6 + 20 + length ds \<and>
       p = knx_packet s (ipv6_hpai_wire h @ ds) \<and> x = mk h ds)"
  (is "?L \<longleftrightarrow> ?R")
proof
  assume ?L
  then obtain b h where p: "p = knx_packet s b" "length b < 65530" "m \<le> 6 + length b"
    and h: "discovery_decode_ipv6_hpai (take 20 b) = Inr h" "valid_blocks (drop 20 b)" "x = mk h (drop 20 b)"
    by (auto simp: subspan_def knx_packet_def split: sum.splits if_splits)
  have l: "length (take 20 b) = 20" using p(3) assms by simp
  have "ipv6_hpai_wf h" "udp6_endpoint h" "b = ipv6_hpai_wire h @ drop 20 b"
    using h(1) discovery_decode_ipv6_hpai_iff [OF l] append_take_drop_id [of 20 b] by metis+
  with p h show ?R by (intro exI [of _ h] exI [of _ "drop 20 b"]) (auto simp: description_ok_def max_total_length_def)
next
  assume ?R
  then obtain h ds where h: "ipv6_hpai_wf h" "udp6_endpoint h" "valid_blocks ds" "26 + length ds \<le> 65535"
      "m \<le> 26 + length ds" "p = knx_packet s (ipv6_hpai_wire h @ ds)" "x = mk h ds"
    by (auto simp: description_ok_def max_total_length_def)
  then have "discovery_decode_ipv6_hpai (subspan p 6 20) = Inr h" "drop (6 + 20) p = ds"
    using discovery_decode_ipv6_hpai_iff [of "ipv6_hpai_wire h" h] by (simp_all add: subspan_def knx_packet_def)
  with h show ?L by (intro exI [of _ "ipv6_hpai_wire h @ ds"]) simp
qed

lemma guard_iff: "(if c then Inl e else r) = Inr x \<longleftrightarrow> \<not> c \<and> r = Inr x"
  by simp

lemma subspan_tail: "subspan p i (length p - i) = drop i p"
  by (simp add: subspan_def)

lemma description_ok_size: "description_ok n ds \<Longrightarrow> (n + 2 \<le> n + length ds) = (ds \<noteq> [])"
  using blocks_nonempty [of ds] by (auto simp: description_ok_def)

lemma decode_search_response_iff:
  "decode_search_response_packet p = Inr f \<longleftrightarrow> hpai_wf (sa_control_endpoint f) \<and>
     udp_endpoint (sa_control_endpoint f) \<and> description_ok 14 (sa_device_info_blocks f) \<and>
     sa_device_info_blocks f \<noteq> [] \<and> p = search_response_wire f"
  unfolding decode_search_response_packet_def discovery_sizes opened_iff Let_def valid_dibs_def subspan_tail
  by (subst described_iff [where mk = "\<lambda>h ds. \<lparr> sa_control_endpoint = h, sa_device_info_blocks = ds \<rparr>"], simp)
    (insert description_ok_size [of 14 "sa_device_info_blocks f"], cases f, auto simp: search_response_wire_def)

lemma decode_ipv6_search_response_iff:
  "decode_ipv6_search_response_packet p = Inr f \<longleftrightarrow> ipv6_hpai_wf (sa6_control_endpoint f) \<and>
     udp6_endpoint (sa6_control_endpoint f) \<and> description_ok 26 (sa6_device_info_blocks f) \<and>
     sa6_device_info_blocks f \<noteq> [] \<and> p = ipv6_search_response_wire f"
  unfolding decode_ipv6_search_response_packet_def discovery_sizes opened_iff Let_def valid_dibs_def subspan_tail
  by (subst described6_iff [where mk = "\<lambda>h ds. \<lparr> sa6_control_endpoint = h, sa6_device_info_blocks = ds \<rparr>"], simp)
    (insert description_ok_size [of 26 "sa6_device_info_blocks f"], cases f, auto simp: ipv6_search_response_wire_def)

lemma decode_extended_search_response_iff:
  "decode_extended_search_response_packet p = Inr f \<longleftrightarrow> hpai_wf (xs_control_endpoint f) \<and>
     udp_endpoint (xs_control_endpoint f) \<and> description_ok 14 (xs_device_info_blocks f) \<and>
     p = extended_search_response_wire f"
  unfolding decode_extended_search_response_packet_def discovery_sizes opened_packet Let_def valid_dibs_def guard_iff
  by (subst described_iff [where mk = "\<lambda>h ds. \<lparr> xs_control_endpoint = h, xs_device_info_blocks = ds \<rparr>"], simp)
    (cases f, auto simp: extended_search_response_wire_def)

lemma decode_description_response_iff:
  "decode_description_response_packet p = Inr f \<longleftrightarrow> description_ok 6 (da_device_info_blocks f) \<and>
     da_device_info_blocks f \<noteq> [] \<and> p = description_response_wire f"
  unfolding decode_description_response_packet_def discovery_sizes opened_iff Let_def valid_dibs_def subspan_tail
  using description_ok_size [of 6 "da_device_info_blocks f"]
  by (cases f) (auto simp: description_response_wire_def description_ok_def max_total_length_def)

lemma udp_iff: "udp_endpoint h \<longleftrightarrow> hpai_protocol h = 1" "udp6_endpoint h6 \<longleftrightarrow> hpai6_protocol h6 = 1"
  by (simp_all add: udp_endpoint_def udp6_endpoint_def)

interpretation search_request: strict_codec search_request_wire
  "\<lambda>f. hpai_wf (sq_discovery_endpoint f)" "\<lambda>f. udp_endpoint (sq_discovery_endpoint f)"
  encode_search_request_packet decode_search_request_packet
proof
  fix d :: bytes and f :: search_request_frame
  assume wf: "hpai_wf (sq_discovery_endpoint f)"
  show "encode_search_request_packet d f = (Inr (), write_at d 0 (search_request_wire f))"
    if "udp_endpoint (sq_discovery_endpoint f)" "length (search_request_wire f) \<le> length d"
    using wf that encode_header_wire [of d 14 search_request_service]
    by (simp add: encode_search_request_packet_def search_request_wire_def discovery_sizes udp_iff
      discovery_encode_hpai_eq knx_packet_def)
  show "length (snd (encode_search_request_packet d f)) = length d"
    by (auto simp: encode_search_request_packet_def Let_def discovery_sizes discovery_encode_hpai_eq intro!: length_bind_w)
  show "udp_endpoint (sq_discovery_endpoint f) \<and> length (search_request_wire f) \<le> length d"
    if "fst (encode_search_request_packet d f) = Inr ()"
    using wf that by (auto simp: encode_search_request_packet_def Let_def discovery_sizes udp_iff
      search_request_wire_def split: if_splits)
qed (simp add: decode_search_request_iff)

interpretation search_request_canonical: canonical_codec search_request_wire
  "\<lambda>f. hpai_wf (sq_discovery_endpoint f)" "\<lambda>f. udp_endpoint (sq_discovery_endpoint f)"
  encode_search_request_packet decode_search_request_packet
  by unfold_locales (simp add: decode_search_request_iff)

interpretation ipv6_search_request: strict_codec ipv6_search_request_wire
  "\<lambda>f. ipv6_hpai_wf (sq6_discovery_endpoint f)" "\<lambda>f. udp6_endpoint (sq6_discovery_endpoint f)"
  encode_ipv6_search_request_packet decode_ipv6_search_request_packet
proof
  fix d :: bytes and f :: ipv6_search_request_frame
  assume wf: "ipv6_hpai_wf (sq6_discovery_endpoint f)"
  show "encode_ipv6_search_request_packet d f = (Inr (), write_at d 0 (ipv6_search_request_wire f))"
    if "udp6_endpoint (sq6_discovery_endpoint f)" "length (ipv6_search_request_wire f) \<le> length d"
    using wf that encode_header_wire [of d 26 search_request_service]
    by (simp add: encode_ipv6_search_request_packet_def ipv6_search_request_wire_def discovery_sizes udp_iff
      discovery_encode_ipv6_hpai_eq knx_packet_def)
  show "length (snd (encode_ipv6_search_request_packet d f)) = length d"
    using wf by (auto simp: encode_ipv6_search_request_packet_def Let_def discovery_sizes
      discovery_encode_ipv6_hpai_eq intro!: length_bind_w)
  show "udp6_endpoint (sq6_discovery_endpoint f) \<and> length (ipv6_search_request_wire f) \<le> length d"
    if "fst (encode_ipv6_search_request_packet d f) = Inr ()"
    using wf that by (auto simp: encode_ipv6_search_request_packet_def Let_def discovery_sizes udp_iff
      ipv6_search_request_wire_def split: if_splits)
qed (simp add: decode_ipv6_search_request_iff)

interpretation description_request: strict_codec description_request_wire
  "\<lambda>f. hpai_wf (dq_control_endpoint f)" "\<lambda>f. udp_endpoint (dq_control_endpoint f)"
  encode_description_request_packet decode_description_request_packet
proof
  fix d :: bytes and f :: description_request_frame
  assume wf: "hpai_wf (dq_control_endpoint f)"
  show "encode_description_request_packet d f = (Inr (), write_at d 0 (description_request_wire f))"
    if "udp_endpoint (dq_control_endpoint f)" "length (description_request_wire f) \<le> length d"
    using wf that encode_header_wire [of d 14 description_request_service]
    by (simp add: encode_description_request_packet_def description_request_wire_def discovery_sizes udp_iff
      discovery_encode_hpai_eq knx_packet_def)
  show "length (snd (encode_description_request_packet d f)) = length d"
    by (auto simp: encode_description_request_packet_def Let_def discovery_sizes discovery_encode_hpai_eq
      intro!: length_bind_w)
  show "udp_endpoint (dq_control_endpoint f) \<and> length (description_request_wire f) \<le> length d"
    if "fst (encode_description_request_packet d f) = Inr ()"
    using wf that by (auto simp: encode_description_request_packet_def Let_def discovery_sizes udp_iff
      description_request_wire_def split: if_splits)
qed (simp add: decode_description_request_iff)

lemma encode_search_response_wire:
  assumes "hpai_wf (sa_control_endpoint f)" "udp_endpoint (sa_control_endpoint f)"
    "description_ok 14 (sa_device_info_blocks f)" "length (search_response_wire f) \<le> length d"
  shows "encode_search_response_packet d f = (Inr (), write_at d 0 (search_response_wire f))"
  using assms encode_header_wire [of d "14 + length (sa_device_info_blocks f)" search_response_service]
  by (simp add: encode_search_response_packet_def search_response_wire_def discovery_sizes udp_iff Let_def
    discovery_encode_hpai_eq knx_packet_def description_ok_def valid_dibs_def wire_simps)

lemma length_encode_search_response: "length (snd (encode_search_response_packet d f)) = length d"
  by (auto simp: encode_search_response_packet_def Let_def discovery_sizes discovery_encode_hpai_eq
    intro!: length_bind_w)

interpretation search_response: packet_codec search_response_wire "\<lambda>f. hpai_wf (sa_control_endpoint f)"
  "\<lambda>f. udp_endpoint (sa_control_endpoint f) \<and> description_ok 14 (sa_device_info_blocks f) \<and> sa_device_info_blocks f \<noteq> []"
  encode_search_response_packet decode_search_response_packet
  by unfold_locales (simp_all add: encode_search_response_wire length_encode_search_response decode_search_response_iff)

interpretation search_response_canonical: canonical_codec search_response_wire "\<lambda>f. hpai_wf (sa_control_endpoint f)"
  "\<lambda>f. udp_endpoint (sa_control_endpoint f) \<and> description_ok 14 (sa_device_info_blocks f) \<and> sa_device_info_blocks f \<noteq> []"
  encode_search_response_packet decode_search_response_packet
  by unfold_locales (simp add: decode_search_response_iff)

lemma encode_ipv6_search_response_wire:
  assumes "ipv6_hpai_wf (sa6_control_endpoint f)" "udp6_endpoint (sa6_control_endpoint f)"
    "description_ok 26 (sa6_device_info_blocks f)" "length (ipv6_search_response_wire f) \<le> length d"
  shows "encode_ipv6_search_response_packet d f = (Inr (), write_at d 0 (ipv6_search_response_wire f))"
  using assms encode_header_wire [of d "26 + length (sa6_device_info_blocks f)" search_response_service]
  by (simp add: encode_ipv6_search_response_packet_def ipv6_search_response_wire_def discovery_sizes udp_iff Let_def
    discovery_encode_ipv6_hpai_eq knx_packet_def description_ok_def valid_dibs_def wire_simps)

lemma length_encode_ipv6_search_response:
  "ipv6_hpai_wf (sa6_control_endpoint f) \<Longrightarrow> length (snd (encode_ipv6_search_response_packet d f)) = length d"
  by (auto simp: encode_ipv6_search_response_packet_def Let_def discovery_sizes discovery_encode_ipv6_hpai_eq
    intro!: length_bind_w)

interpretation ipv6_search_response: packet_codec ipv6_search_response_wire
  "\<lambda>f. ipv6_hpai_wf (sa6_control_endpoint f)"
  "\<lambda>f. udp6_endpoint (sa6_control_endpoint f) \<and> description_ok 26 (sa6_device_info_blocks f) \<and> sa6_device_info_blocks f \<noteq> []"
  encode_ipv6_search_response_packet decode_ipv6_search_response_packet
  by unfold_locales
    (simp_all add: encode_ipv6_search_response_wire length_encode_ipv6_search_response decode_ipv6_search_response_iff)

interpretation description_response: packet_codec description_response_wire "\<lambda>_. True"
  "\<lambda>f. description_ok 6 (da_device_info_blocks f) \<and> da_device_info_blocks f \<noteq> []"
  encode_description_response_packet decode_description_response_packet
proof
  fix d :: bytes and f :: description_response_frame
  show "encode_description_response_packet d f = (Inr (), write_at d 0 (description_response_wire f))"
    if "description_ok 6 (da_device_info_blocks f) \<and> da_device_info_blocks f \<noteq> []"
      "length (description_response_wire f) \<le> length d"
    using that encode_header_wire [of d "6 + length (da_device_info_blocks f)" description_response_service]
    by (simp add: encode_description_response_packet_def description_response_wire_def discovery_sizes Let_def
      knx_packet_def description_ok_def valid_dibs_def wire_simps)
  show "length (snd (encode_description_response_packet d f)) = length d"
    by (auto simp: encode_description_response_packet_def Let_def discovery_sizes intro!: length_bind_w)
qed (simp add: decode_description_response_iff)

interpretation extended_search_response: strict_codec extended_search_response_wire
  "\<lambda>f. hpai_wf (xs_control_endpoint f)"
  "\<lambda>f. udp_endpoint (xs_control_endpoint f) \<and> description_ok 14 (xs_device_info_blocks f)"
  encode_extended_search_response_packet decode_extended_search_response_packet
proof
  fix d :: bytes and f :: extended_search_response_frame
  assume wf: "hpai_wf (xs_control_endpoint f)"
  show "encode_extended_search_response_packet d f = (Inr (), write_at d 0 (extended_search_response_wire f))"
    if "udp_endpoint (xs_control_endpoint f) \<and> description_ok 14 (xs_device_info_blocks f)"
      "length (extended_search_response_wire f) \<le> length d"
    using wf that encode_header_wire [of d "14 + length (xs_device_info_blocks f)" search_response_extended_service]
    by (simp add: encode_extended_search_response_packet_def extended_search_response_wire_def discovery_sizes udp_iff
      Let_def discovery_encode_hpai_eq knx_packet_def description_ok_def valid_dibs_def wire_simps)
  show "length (snd (encode_extended_search_response_packet d f)) = length d"
    by (auto simp: encode_extended_search_response_packet_def Let_def discovery_sizes discovery_encode_hpai_eq
      intro!: length_bind_w)
  show "(udp_endpoint (xs_control_endpoint f) \<and> description_ok 14 (xs_device_info_blocks f)) \<and>
      length (extended_search_response_wire f) \<le> length d"
    if "fst (encode_extended_search_response_packet d f) = Inr ()"
    using wf that by (auto simp: encode_extended_search_response_packet_def Let_def discovery_sizes udp_iff
      extended_search_response_wire_def description_ok_def valid_dibs_def split: if_splits)
qed (simp add: decode_extended_search_response_iff)

lemmas parameter_defs = known_search_parameter_def search_parameter_data_size_def sp_programming_mode_def
  sp_mac_address_def sp_service_def sp_request_dibs_def

lemma length_padded [simp]: "length (sp_data (padded p)) = length (sp_data p) + length (sp_data p) mod 2"
  by (simp add: padded_def)

lemma length_parameter_wire [simp]:
  "length (parameter_wire p) = 2 + length (sp_data p) + length (sp_data p) mod 2"
  by (simp add: parameter_wire_def)

lemma parameter_block_size_iff:
  "parameter_block_size p = Inr n \<longleftrightarrow> parameter_ok p \<and> n = length (parameter_wire p)"
proof -
  have m: "length (sp_data p) + length (sp_data p) mod 2 \<le> 253 \<longleftrightarrow> length (sp_data p) \<le> 252" by presburger
  have "parameter_block_size p = Inr n \<longleftrightarrow> known_search_parameter (sp_type p) \<and>
     (case search_parameter_data_size (sp_type p) of None \<Rightarrow> True | Some k \<Rightarrow> length (sp_data p) = k) \<and>
     length (sp_data p) + length (sp_data p) mod 2 \<le> 253 \<and> n = length (parameter_wire p)"
    by (auto simp: parameter_block_size_def search_parameter_header_size_def Let_def mod_Suc
      split: option.splits if_splits)
  then show ?thesis unfolding m parameter_ok_def by blast
qed

lemma parameters_size_iff:
  "parameters_size a ps = Inr n \<longleftrightarrow> list_all parameter_ok ps \<and> n = a + length (parameters_wire ps)"
proof (induction ps arbitrary: a)
  case (Cons p ps)
  have "(\<exists>k. parameter_block_size p = Inr k \<and> parameters_size (a + k) ps = Inr n) \<longleftrightarrow>
    list_all parameter_ok (p # ps) \<and> n = a + length (parameters_wire (p # ps))"
    by (auto simp: parameter_block_size_iff Cons.IH parameters_wire_def)
  then show ?case by (auto split: sum.splits)
qed (auto simp: parameters_wire_def)

lemma write_search_parameter_wire:
  assumes "parameter_ok p" "length a + length (parameter_wire p) \<le> length d"
  shows "write_search_parameter (write_at d 0 a) (length a) p =
    (Inr (length (parameter_wire p)), write_at d 0 (a @ parameter_wire p))"
proof -
  have n: "parameter_block_size p = Inr (length (parameter_wire p))"
    using assms(1) by (simp add: parameter_block_size_iff)
  show ?thesis
    unfolding write_search_parameter_def n sum.case Let_def
    using assms(2) by (simp add: search_parameter_header_size_def search_parameter_mandatory_mask_def
      write_at_chain parameter_wire_def padded_def)
qed

lemma write_search_parameters_wire:
  assumes "list_all parameter_ok ps" "length a + length (parameters_wire ps) \<le> length d" "i = length a"
  shows "write_search_parameters (write_at d 0 a) i ps = (Inr (), write_at d 0 (a @ parameters_wire ps))"
  using assms
proof (induction ps arbitrary: a i)
  case (Cons p ps)
  have "length a + length (parameter_wire p) \<le> length d" using Cons.prems(2) by (simp add: parameters_wire_def)
  with Cons.prems Cons.IH [of "a @ parameter_wire p" "length (a @ parameter_wire p)"] show ?case
    by (simp add: write_search_parameter_wire parameters_wire_def)
qed (simp add: parameters_wire_def)

lemma decode_search_parameter_wire:
  assumes "parameter_ok p"
  shows "decode_search_parameter (parameter_wire p) = Inr (Some (padded p))"
proof -
  have t: "sp_type p \<in> {1, 2, 3, 4}" using assms by (auto simp: parameter_ok_def parameter_defs)
  then have "((if sp_mandatory p then 0x80 else 0) OR sp_type p) AND 0x7F = sp_type p"
    "(((if sp_mandatory p then 0x80 else 0) OR sp_type p) AND 0x80 \<noteq> 0) = sp_mandatory p"
    by auto
  moreover have "search_parameter_data_size (sp_type p) = None \<or>
      search_parameter_data_size (sp_type p) = Some (length (sp_data p) + length (sp_data p) mod 2)"
    using assms by (auto simp: parameter_ok_def parameter_defs split: if_splits)
  ultimately show ?thesis
    using assms
    by (auto simp: decode_search_parameter_def parameter_wire_def search_parameter_type_mask_def
      search_parameter_mandatory_mask_def search_parameter_header_size_def parameter_ok_def Let_def padded_def)
qed

lemma decode_search_parameters_wire:
  assumes "list_all parameter_ok ps" "i = length a"
  shows "decode_search_parameters (a @ parameters_wire ps) i = Inr (map padded ps)"
  using assms
proof (induction ps arbitrary: a i)
  case Nil
  then show ?case by (simp add: decode_search_parameters.simps parameters_wire_def)
next
  case (Cons p ps)
  let ?w = "parameter_wire p"
  have ok: "parameter_ok p" "length ?w < 256"
    using Cons.prems(1) by (auto simp: parameter_ok_def intro: le_less_trans [of _ "254 :: nat"])
  have p: "a @ parameters_wire (p # ps) = (a @ ?w) @ parameters_wire ps" by (simp add: parameters_wire_def)
  have "((a @ ?w) @ parameters_wire ps) ! i = word_of_nat (length ?w)"
    using Cons.prems(2) by (simp add: nth_append parameter_wire_def)
  then have sz: "unat (((a @ ?w) @ parameters_wire ps) ! i) = length ?w" using ok(2) by (simp only: unat_byte_of_nat)
  have sub: "subspan ((a @ ?w) @ parameters_wire ps) i (length ?w) = ?w"
    using Cons.prems(2) by (simp add: subspan_def)
  have IH: "decode_search_parameters ((a @ ?w) @ parameters_wire ps) (i + length ?w) = Inr (map padded ps)"
    using Cons.IH [of "i + length ?w" "a @ ?w"] Cons.prems by simp
  have ne: "i < length ((a @ ?w) @ parameters_wire ps)" "\<not> length ?w < 2"
    "\<not> length ((a @ ?w) @ parameters_wire ps) < i + length ?w"
    using Cons.prems(2) by simp_all
  show ?case unfolding p
    by (subst decode_search_parameters.simps)
      (simp only: ne sz sub IH Let_def decode_search_parameter_wire [OF ok(1)] search_parameter_header_size_def
        if_True if_False simp_thms sum.case option.case list.map)
qed

lemma encode_extended_search_request_wire:
  assumes "hpai_wf (xq_discovery_endpoint f)" "extended_search_request_ok f"
    "length (extended_search_request_wire f) \<le> length d"
  shows "encode_extended_search_request_packet d f = (Inr (), write_at d 0 (extended_search_request_wire f))"
proof -
  let ?ps = "xq_parameters f" and ?h = "xq_discovery_endpoint f"
  let ?n = "14 + length (parameters_wire ?ps)"
  have n: "?n \<le> length d" "?n \<le> 65535" "6 \<le> length d" and ps: "list_all parameter_ok ?ps"
    using assms by (simp_all add: extended_search_request_wire_def extended_search_request_ok_def)
  have size: "extended_search_request_size f = Inr ?n"
    using n(2) ps parameters_size_iff [of 14 ?ps ?n] by (simp add: extended_search_request_size_def discovery_sizes)
  have params: "write_search_parameters (write_at d 0 (header_wire search_request_extended_service ?n @ hpai_wire ?h)) 14 ?ps =
      (Inr (), write_at d 0 ((header_wire search_request_extended_service ?n @ hpai_wire ?h) @ parameters_wire ?ps))"
    by (intro write_search_parameters_wire) (use assms(1) n(1) ps in simp_all)
  have ep: "hpai_protocol ?h = 1" using assms(2) by (simp add: extended_search_request_ok_def)
  show ?thesis
    using assms(1) n ep params encode_header_wire [of d ?n search_request_extended_service]
    by (simp add: encode_extended_search_request_packet_def size discovery_sizes Let_def discovery_encode_hpai_eq
      extended_search_request_wire_def knx_packet_def)
qed

lemma encode_extended_search_request_accepts:
  assumes "hpai_wf (xq_discovery_endpoint f)" "fst (encode_extended_search_request_packet d f) = Inr ()"
  shows "extended_search_request_ok f \<and> length (extended_search_request_wire f) \<le> length d"
proof -
  obtain n where "extended_search_request_size f = Inr n" "n \<le> length d" "hpai_protocol (xq_discovery_endpoint f) = 1"
    using assms(2) by (auto simp: encode_extended_search_request_packet_def split: sum.splits if_splits)
  then show ?thesis
    using assms(1)
    by (auto simp: extended_search_request_size_def parameters_size_iff discovery_sizes extended_search_request_ok_def
      extended_search_request_wire_def split: sum.splits if_splits)
qed

lemma extended_search_request_size_iff:
  "extended_search_request_size f = Inr n \<longleftrightarrow> list_all parameter_ok (xq_parameters f) \<and>
     n = 14 + length (parameters_wire (xq_parameters f)) \<and> n \<le> 65535"
proof (cases "parameters_size 14 (xq_parameters f)")
  case (Inl e)
  then show ?thesis
    using parameters_size_iff [of 14 "xq_parameters f" n] by (auto simp: extended_search_request_size_def discovery_sizes)
next
  case (Inr m)
  then have "list_all parameter_ok (xq_parameters f)" "m = 14 + length (parameters_wire (xq_parameters f))"
    by (simp_all add: parameters_size_iff)
  with Inr show ?thesis by (auto simp: extended_search_request_size_def discovery_sizes)
qed

lemma encode_extended_search_request_bounds:
  assumes "hpai_wf (xq_discovery_endpoint f)"
  shows "length (snd (encode_extended_search_request_packet d f)) = length d"
proof (cases "extended_search_request_ok f \<and> length (extended_search_request_wire f) \<le> length d")
  case True
  then show ?thesis by (simp add: encode_extended_search_request_wire [OF assms])
next
  case False
  have "snd (encode_extended_search_request_packet d f) = d"
  proof (cases "extended_search_request_size f")
    case (Inr n)
    then have "list_all parameter_ok (xq_parameters f)" "n = 14 + length (parameters_wire (xq_parameters f))" "n \<le> 65535"
      by (simp_all add: extended_search_request_size_iff)
    with False assms have "length d < n \<or> hpai_protocol (xq_discovery_endpoint f) \<noteq> 1"
      by (auto simp: extended_search_request_ok_def extended_search_request_wire_def)
    with Inr show ?thesis by (auto simp: encode_extended_search_request_packet_def)
  qed (simp add: encode_extended_search_request_packet_def)
  then show ?thesis by simp
qed

lemma decode_extended_search_request_wire:
  assumes "hpai_wf (xq_discovery_endpoint f)" "extended_search_request_ok f"
  shows "decode_extended_search_request_packet (extended_search_request_wire f) =
    Inr (f\<lparr> xq_parameters := map padded (xq_parameters f) \<rparr>)"
proof -
  let ?ps = "xq_parameters f" and ?h = "xq_discovery_endpoint f"
  let ?p = "extended_search_request_wire f"
  have ps: "list_all parameter_ok ?ps" "length (parameters_wire ?ps) \<le> 65521" and ep: "udp_endpoint ?h"
    using assms(2) by (simp_all add: extended_search_request_ok_def udp_iff)
  have "validate_extended_search_header ?p = Inr ()"
    unfolding validate_extended_search_header_def discovery_sizes opened_packet guard_iff
    using assms(1) ps(2) by (auto simp: extended_search_request_wire_def)
  moreover have "discovery_decode_hpai (subspan ?p 6 8) = Inr ?h"
    using assms(1) ep by (simp add: extended_search_request_wire_def discovery_decode_hpai_iff wire_simps)
  moreover have "decode_search_parameters ?p 14 = Inr (map padded ?ps)"
    using decode_search_parameters_wire [OF ps(1), of 14 "header_wire search_request_extended_service
      (14 + length (parameters_wire ?ps)) @ hpai_wire ?h"] assms(1)
    by (simp add: extended_search_request_wire_def knx_packet_def)
  ultimately show ?thesis by (simp add: decode_extended_search_request_packet_def discovery_sizes)
qed

lemma padded_even: "even (length (sp_data p)) \<Longrightarrow> padded p = p"
  by (simp add: padded_def even_iff_mod_2_eq_zero)

interpretation extended_search_request: packet_codec extended_search_request_wire
  "\<lambda>f. hpai_wf (xq_discovery_endpoint f)"
  "\<lambda>f. extended_search_request_ok f \<and> (\<forall>p \<in> set (xq_parameters f). even (length (sp_data p)))"
  encode_extended_search_request_packet decode_extended_search_request_packet
  by unfold_locales
    (simp_all add: encode_extended_search_request_wire encode_extended_search_request_bounds
      decode_extended_search_request_wire padded_even cong: map_cong)

subsection \<open>Properties\<close>

text \<open>
  A SEARCH, IPv6 SEARCH or DESCRIPTION request is decoded exactly when the packet is the image
  of a request whose endpoint uses UDP.
\<close>

theorem discovery_requests_exact:
  "(decode_search_request_packet p = Inr f \<longleftrightarrow>
      hpai_wf (sq_discovery_endpoint f) \<and> udp_endpoint (sq_discovery_endpoint f) \<and> p = search_request_wire f) \<and>
   (decode_ipv6_search_request_packet p = Inr g \<longleftrightarrow>
      ipv6_hpai_wf (sq6_discovery_endpoint g) \<and> udp6_endpoint (sq6_discovery_endpoint g) \<and>
      p = ipv6_search_request_wire g) \<and>
   (decode_description_request_packet p = Inr h \<longleftrightarrow>
      hpai_wf (dq_control_endpoint h) \<and> udp_endpoint (dq_control_endpoint h) \<and> p = description_request_wire h)"
  using search_request_canonical.decode_iff decode_ipv6_search_request_iff decode_description_request_iff by simp

text \<open>
  A search or description response is decoded exactly when it is the image of a response whose
  endpoint uses UDP and whose description is a well-formed run of blocks; except for the extended
  search response the description must not be empty.
\<close>

theorem discovery_responses_exact:
  "(decode_search_response_packet p = Inr f \<longleftrightarrow>
      hpai_wf (sa_control_endpoint f) \<and> udp_endpoint (sa_control_endpoint f) \<and>
      description_ok 14 (sa_device_info_blocks f) \<and> sa_device_info_blocks f \<noteq> [] \<and> p = search_response_wire f) \<and>
   (decode_ipv6_search_response_packet p = Inr g \<longleftrightarrow>
      ipv6_hpai_wf (sa6_control_endpoint g) \<and> udp6_endpoint (sa6_control_endpoint g) \<and>
      description_ok 26 (sa6_device_info_blocks g) \<and> sa6_device_info_blocks g \<noteq> [] \<and>
      p = ipv6_search_response_wire g) \<and>
   (decode_description_response_packet p = Inr h \<longleftrightarrow>
      description_ok 6 (da_device_info_blocks h) \<and> da_device_info_blocks h \<noteq> [] \<and>
      p = description_response_wire h) \<and>
   (decode_extended_search_response_packet p = Inr k \<longleftrightarrow>
      hpai_wf (xs_control_endpoint k) \<and> udp_endpoint (xs_control_endpoint k) \<and>
      description_ok 14 (xs_device_info_blocks k) \<and> p = extended_search_response_wire k)"
  by (simp add: decode_search_response_iff decode_ipv6_search_response_iff decode_description_response_iff
    decode_extended_search_response_iff)

text \<open>
  An extended search request is encoded exactly when its endpoint uses UDP, every parameter is
  a known one with the data its type requires and the packet fits; the buffer is never overrun, and
  the packet decodes to the request with the parameter data padded to an even length.
\<close>

theorem extended_search_request_roundtrip:
  assumes "hpai_wf (xq_discovery_endpoint f)"
  shows "(fst (encode_extended_search_request_packet d f) = Inr () \<longleftrightarrow>
      extended_search_request_ok f \<and> length (extended_search_request_wire f) \<le> length d) \<and>
    length (snd (encode_extended_search_request_packet d f)) = length d \<and>
    (fst (encode_extended_search_request_packet d f) = Inr () \<longrightarrow>
      decode_extended_search_request_packet
        (take (length (extended_search_request_wire f)) (snd (encode_extended_search_request_packet d f))) =
      Inr (f\<lparr> xq_parameters := map padded (xq_parameters f) \<rparr>))"
proof (cases "extended_search_request_ok f \<and> length (extended_search_request_wire f) \<le> length d")
  case True
  then show ?thesis
    by (simp add: encode_extended_search_request_wire [OF assms] decode_extended_search_request_wire [OF assms])
next
  case False
  then have "fst (encode_extended_search_request_packet d f) \<noteq> Inr ()"
    using encode_extended_search_request_accepts [OF assms] by blast
  with False show ?thesis using encode_extended_search_request_bounds [OF assms] by simp
qed

theorem extended_search_request_roundtrip_witness:
  "hpai_wf (xq_discovery_endpoint sample_extended_search) \<and>
   fst (encode_extended_search_request_packet (replicate 30 0) sample_extended_search) = Inr () \<and>
   decode_extended_search_request_packet (take (length (extended_search_request_wire sample_extended_search))
     (snd (encode_extended_search_request_packet (replicate 30 0) sample_extended_search))) =
   Inr (sample_extended_search\<lparr> xq_parameters := map padded (xq_parameters sample_extended_search) \<rparr>)"
proof -
  have wf: "hpai_wf (xq_discovery_endpoint sample_extended_search)" by code_simp
  have "extended_search_request_ok sample_extended_search \<and>
    length (extended_search_request_wire sample_extended_search) \<le> length (replicate 30 (0 :: byte))"
    by (simp add: sample_extended_search_def sample_hpai_def extended_search_request_ok_def
      extended_search_request_wire_def hpai_wire_def parameters_wire_def parameter_ok_def parameter_defs)
  then have ok: "fst (encode_extended_search_request_packet (replicate 30 0) sample_extended_search) = Inr ()"
    using extended_search_request_roundtrip [OF wf, of "replicate 30 0"] by blast
  from extended_search_request_roundtrip [OF wf, of "replicate 30 0", THEN conjunct2, THEN conjunct2, THEN mp, OF ok]
  show ?thesis by (intro conjI wf ok)
qed

text \<open>
  The encoders of SEARCH and DESCRIPTION responses accept a response with an empty
  description, which the decoders refuse.
\<close>

theorem empty_description_not_decodable:
  "encode_search_response_packet (replicate 14 0) \<lparr> sa_control_endpoint = sample_hpai, sa_device_info_blocks = [] \<rparr> =
     (Inr (), search_response_wire \<lparr> sa_control_endpoint = sample_hpai, sa_device_info_blocks = [] \<rparr>) \<and>
   decode_search_response_packet
     (search_response_wire \<lparr> sa_control_endpoint = sample_hpai, sa_device_info_blocks = [] \<rparr>) = Inl Malformed_frame \<and>
   encode_description_response_packet (replicate 6 0) \<lparr> da_device_info_blocks = [] \<rparr> =
     (Inr (), description_response_wire \<lparr> da_device_info_blocks = [] \<rparr>) \<and>
   decode_description_response_packet (description_response_wire \<lparr> da_device_info_blocks = [] \<rparr>) = Inl Malformed_frame"
proof -
  have [simp]: "hpai_wf sample_hpai" "udp_endpoint sample_hpai" by (simp_all add: sample_hpai_def hpai_wf_def udp_iff)
  have [simp]: "description_ok n []" if "n \<le> 65535" for n
    using that by (simp add: description_ok_def valid_blocks.simps max_total_length_def)
  let ?s = "\<lparr> sa_control_endpoint = sample_hpai, sa_device_info_blocks = [] \<rparr>"
  have "encode_search_response_packet (replicate 14 0) ?s = (Inr (), search_response_wire ?s)"
    using encode_search_response_wire [of ?s "replicate 14 0"]
    by (simp add: write_at_whole search_response_wire_def)
  moreover have "decode_search_response_packet (search_response_wire ?s) = Inl Malformed_frame"
    by (simp add: decode_search_response_packet_def search_response_wire_def decode_header_wire discovery_sizes)
  moreover have "encode_description_response_packet (replicate 6 0) \<lparr> da_device_info_blocks = [] \<rparr> =
     (Inr (), description_response_wire \<lparr> da_device_info_blocks = [] \<rparr>)"
    using encode_header_wire [of "replicate 6 0" 6 description_response_service]
    by (simp add: encode_description_response_packet_def description_response_wire_def discovery_sizes
      valid_dibs_def valid_blocks.simps knx_packet_def write_at_whole)
  moreover have "decode_description_response_packet (description_response_wire \<lparr> da_device_info_blocks = [] \<rparr>) =
      Inl Malformed_frame"
    by (simp add: decode_description_response_packet_def description_response_wire_def decode_header_wire discovery_sizes)
  ultimately show ?thesis by blast
qed

end
