(* ===== verification/Knx_Routing.thy ===== *)
theory Knx_Routing
  imports Knx_Discovery
begin

section \<open>KNXnet/IP routing packets\<close>

text \<open>
  The connectionless routing services of \<open>knx/routing.hpp\<close> and \<open>knx/routing.cpp\<close>: the
  indication, which carries one cEMI message, and the two control services by which a router
  reports lost messages and asks senders to wait.
\<close>

definition indication_service :: u16 where "indication_service = 0x0530"
definition lost_message_service :: u16 where "lost_message_service = 0x0531"
definition busy_service :: u16 where "busy_service = 0x0532"
definition lost_message_structure_size :: byte where "lost_message_structure_size = 0x04"
definition busy_structure_size :: byte where "busy_structure_size = 0x06"
definition lost_message_body_size :: nat where "lost_message_body_size = unat lost_message_structure_size"
definition busy_body_size :: nat where "busy_body_size = unat busy_structure_size"

record multicast_configuration =
  mc_group :: bytes
  mc_port :: u16

definition validate_multicast :: "multicast_configuration \<Rightarrow> unit result" where
  "validate_multicast v =
     (if mc_port v = 0 then Inl Invalid_configuration
      else if mc_group v ! 0 < 224 \<or> mc_group v ! 0 > 239 then Inl Invalid_configuration
      else Inr ())"

record indication =
  in_cemi_bytes :: bytes
  in_cemi :: cemi_frame

record lost_message =
  lm_device_state :: byte
  lm_count :: u16

record busy =
  rb_device_state :: byte
  rb_wait_time_ms :: u16
  rb_control_field :: u16

definition decode_u16_be :: "bytes \<Rightarrow> nat \<Rightarrow> u16" where
  "decode_u16_be v offset = be16 (v ! offset) (v ! (offset + 1))"

definition encode_u16_be :: "bytes \<Rightarrow> nat \<Rightarrow> u16 \<Rightarrow> bytes" where
  "encode_u16_be destination offset v = write_at destination offset [hi8 v, lo8 v]"

definition validate_control_packet :: "bytes \<Rightarrow> u16 \<Rightarrow> nat \<Rightarrow> unit result" where
  "validate_control_packet packet service body_size =
     (case decode_communication_header packet of Inl e \<Rightarrow> Inl e | Inr header \<Rightarrow>
      if ch_service_type header \<noteq> service then Inl Unsupported_service
      else if unat (ch_total_length header) \<noteq> length packet \<or>
        length packet \<noteq> communication_header_size + body_size then Inl Malformed_frame
      else if packet ! communication_header_size \<noteq> word_of_nat body_size then Inl Malformed_frame
      else Inr ())"

definition begin_control_packet :: "bytes \<Rightarrow> u16 \<Rightarrow> nat \<Rightarrow> byte \<Rightarrow> unit result \<times> bytes" where
  "begin_control_packet destination service body_size device_state =
     (let total_length = communication_header_size + body_size
      in if length destination < total_length then (Inl Invalid_length, destination)
         else bind_w (encode_communication_header destination service (word_of_nat total_length) 0x10)
           (\<lambda>destination.
             (Inr (), write_at (write_at destination communication_header_size [word_of_nat body_size])
               (communication_header_size + 1) [device_state])))"

definition encode_indication_packet :: "bytes \<Rightarrow> indication \<Rightarrow> unit result \<times> bytes" where
  "encode_indication_packet destination v =
     (if in_cemi_bytes v = [] then (Inl Invalid_configuration, destination)
      else
        let total_length = communication_header_size + length (in_cemi_bytes v)
        in if total_length > max_total_length \<or> length destination < total_length
           then (Inl Invalid_length, destination)
           else bind_w (encode_communication_header destination indication_service (word_of_nat total_length) 0x10)
             (\<lambda>destination. (Inr (), write_at destination communication_header_size (in_cemi_bytes v))))"

definition decode_indication_packet :: "bytes \<Rightarrow> indication result" where
  "decode_indication_packet packet =
     (case decode_communication_header packet of Inl e \<Rightarrow> Inl e | Inr header \<Rightarrow>
      if ch_service_type header \<noteq> indication_service \<or> unat (ch_total_length header) \<noteq> length packet
      then Inl Unsupported_service
      else if length packet < communication_header_size + cemi_min_size then Inl Malformed_frame
      else
        let cemi_bytes = drop communication_header_size packet
        in case decode_cemi cemi_bytes of Inl e \<Rightarrow> Inl e
           | Inr cemi \<Rightarrow> Inr \<lparr> in_cemi_bytes = cemi_bytes, in_cemi = cemi \<rparr>)"

definition encode_lost_message_packet :: "bytes \<Rightarrow> lost_message \<Rightarrow> unit result \<times> bytes" where
  "encode_lost_message_packet destination v =
     bind_w (begin_control_packet destination lost_message_service lost_message_body_size (lm_device_state v))
       (\<lambda>destination. (Inr (), encode_u16_be destination (communication_header_size + 2) (lm_count v)))"

definition decode_lost_message_packet :: "bytes \<Rightarrow> lost_message result" where
  "decode_lost_message_packet packet =
     (case validate_control_packet packet lost_message_service lost_message_body_size of Inl e \<Rightarrow> Inl e | Inr _ \<Rightarrow>
      Inr \<lparr> lm_device_state = packet ! (communication_header_size + 1),
            lm_count = decode_u16_be packet (communication_header_size + 2) \<rparr>)"

definition encode_busy_packet :: "bytes \<Rightarrow> busy \<Rightarrow> unit result \<times> bytes" where
  "encode_busy_packet destination v =
     bind_w (begin_control_packet destination busy_service busy_body_size (rb_device_state v))
       (\<lambda>destination.
         let destination = encode_u16_be destination (communication_header_size + 2) (rb_wait_time_ms v)
         in (Inr (), encode_u16_be destination (communication_header_size + 4) (rb_control_field v)))"

definition decode_busy_packet :: "bytes \<Rightarrow> busy result" where
  "decode_busy_packet packet =
     (case validate_control_packet packet busy_service busy_body_size of Inl e \<Rightarrow> Inl e | Inr _ \<Rightarrow>
      Inr \<lparr> rb_device_state = packet ! (communication_header_size + 1),
            rb_wait_time_ms = decode_u16_be packet (communication_header_size + 2),
            rb_control_field = decode_u16_be packet (communication_header_size + 4) \<rparr>)"

subsection \<open>Wire images\<close>

text \<open>
  An indication is decoded only when its octets are a cEMI message, and then carries the decoded
  message beside them.
\<close>

definition indication_wire :: "indication \<Rightarrow> bytes" where
  "indication_wire f = knx_packet indication_service (in_cemi_bytes f)"

definition indication_ok :: "indication \<Rightarrow> bool" where
  "indication_ok f \<longleftrightarrow> cemi_decode (in_cemi_bytes f) = Inr (in_cemi f)"

definition lost_message_wire :: "lost_message \<Rightarrow> bytes" where
  "lost_message_wire f = knx_packet lost_message_service
     [4, lm_device_state f, hi8 (lm_count f), lo8 (lm_count f)]"

definition busy_wire :: "busy \<Rightarrow> bytes" where
  "busy_wire f = knx_packet busy_service
     [6, rb_device_state f, hi8 (rb_wait_time_ms f), lo8 (rb_wait_time_ms f),
      hi8 (rb_control_field f), lo8 (rb_control_field f)]"

subsection \<open>Lemmas\<close>

lemmas routing_sizes = lost_message_body_size_def busy_body_size_def lost_message_structure_size_def
  busy_structure_size_def frame_sizes

lemma validate_control_packet_iff:
  "validate_control_packet p s n = Inr u \<longleftrightarrow>
     (\<exists>b. p = knx_packet s b \<and> length b < 65530 \<and> length b = n \<and> b ! 0 = word_of_nat n)"
  (is "?L \<longleftrightarrow> ?R")
proof
  assume ?L
  then obtain h where h: "decode_communication_header p = Inr h" "unat (ch_total_length h) = length p"
      "ch_service_type h = s" "length p = 6 + n" "p ! 6 = word_of_nat n"
    by (auto simp: validate_control_packet_def frame_sizes split: sum.splits if_splits)
  from decode_header_sound [OF h(1,2)] unat_u16_less [of "ch_total_length h"] h(2)
  have "p = knx_packet s (drop 6 p)" "length (drop 6 p) < 65530" by (auto simp: h(3))
  with h(4,5) show ?R by (intro exI [of _ "drop 6 p"]) simp
next
  assume ?R
  then obtain b where b: "p = knx_packet s b" "length b < 65530" "length b = n" "b ! 0 = word_of_nat n" by blast
  have "unat (word_of_nat (6 + length b) :: u16) = 6 + length b" using b(2) by (intro unat_u16_of_nat) simp
  with b show ?L by (simp add: validate_control_packet_def decode_header_wire frame_sizes)
qed

lemma validate_control_packet_wire:
  "length b = n \<Longrightarrow> n < 65530 \<Longrightarrow> b ! 0 = word_of_nat n \<Longrightarrow> validate_control_packet (knx_packet s b) s n = Inr ()"
  using validate_control_packet_iff [of "knx_packet s b" s n "()"] by blast

lemma begin_control_packet_wire:
  assumes "6 + n \<le> length d" "2 \<le> n" "n < 65530"
  shows "begin_control_packet d s n v =
    (Inr (), write_at d 0 (header_wire s (6 + n) @ [word_of_nat n, v]))"
  using assms encode_header_wire [of d "6 + n" s]
  by (simp add: begin_control_packet_def frame_sizes Let_def wire_simps)

lemma length_begin_control_packet:
  "2 \<le> n \<Longrightarrow> length (snd (begin_control_packet d s n v)) = length d"
  by (auto simp: begin_control_packet_def Let_def frame_sizes intro!: length_bind_w)

interpretation lost_message: strict_codec lost_message_wire "\<lambda>_. True" "\<lambda>_. True"
  encode_lost_message_packet decode_lost_message_packet
proof
  fix d :: bytes and f :: lost_message
  show "encode_lost_message_packet d f = (Inr (), write_at d 0 (lost_message_wire f))"
    if "length (lost_message_wire f) \<le> length d"
    using that by (simp add: encode_lost_message_packet_def routing_sizes begin_control_packet_wire encode_u16_be_def
      lost_message_wire_def knx_packet_def wire_simps)
  show "length (snd (encode_lost_message_packet d f)) = length d"
  proof (cases "10 \<le> length d")
    case True
    then show ?thesis
      by (simp add: encode_lost_message_packet_def routing_sizes begin_control_packet_wire encode_u16_be_def wire_simps)
  qed (simp add: encode_lost_message_packet_def begin_control_packet_def routing_sizes)
  show "decode_lost_message_packet (lost_message_wire f) = Inr f"
    by (simp add: decode_lost_message_packet_def routing_sizes decode_u16_be_def lost_message_wire_def
      validate_control_packet_wire)
  show "True \<and> length (lost_message_wire f) \<le> length d" if "fst (encode_lost_message_packet d f) = Inr ()"
    using that by (auto simp: encode_lost_message_packet_def begin_control_packet_def routing_sizes Let_def
      lost_message_wire_def split: if_splits)
qed

interpretation busy: strict_codec busy_wire "\<lambda>_. True" "\<lambda>_. True" encode_busy_packet decode_busy_packet
proof
  fix d :: bytes and f :: busy
  show "encode_busy_packet d f = (Inr (), write_at d 0 (busy_wire f))" if "length (busy_wire f) \<le> length d"
    using that by (simp add: encode_busy_packet_def routing_sizes begin_control_packet_wire encode_u16_be_def
      busy_wire_def knx_packet_def wire_simps)
  show "length (snd (encode_busy_packet d f)) = length d"
  proof (cases "12 \<le> length d")
    case True
    then show ?thesis
      by (simp add: encode_busy_packet_def routing_sizes begin_control_packet_wire encode_u16_be_def wire_simps)
  qed (simp add: encode_busy_packet_def begin_control_packet_def routing_sizes)
  show "decode_busy_packet (busy_wire f) = Inr f"
    by (simp add: decode_busy_packet_def routing_sizes decode_u16_be_def busy_wire_def
      validate_control_packet_wire)
  show "True \<and> length (busy_wire f) \<le> length d" if "fst (encode_busy_packet d f) = Inr ()"
    using that by (auto simp: encode_busy_packet_def begin_control_packet_def routing_sizes Let_def
      busy_wire_def split: if_splits)
qed

lemma decode_lost_message_sound:
  assumes "decode_lost_message_packet p = Inr f"
  shows "p = lost_message_wire f"
proof -
  obtain b where b: "p = knx_packet lost_message_service b" "length b = 4" "b ! 0 = 4"
    and f: "f = \<lparr> lm_device_state = p ! 7, lm_count = be16 (p ! 8) (p ! 9) \<rparr>"
    using assms validate_control_packet_iff [of p lost_message_service 4]
    by (auto simp: decode_lost_message_packet_def routing_sizes decode_u16_be_def split: sum.splits)
  then show ?thesis using list4 [OF b(2)] by (simp add: lost_message_wire_def)
qed

lemma list6: "length b = 6 \<Longrightarrow> b = [b ! 0, b ! 1, b ! 2, b ! 3, b ! 4, b ! 5]"
  using list_prefix_nth(3) [of b] by simp

lemma decode_busy_sound:
  assumes "decode_busy_packet p = Inr f"
  shows "p = busy_wire f"
proof -
  obtain b where b: "p = knx_packet busy_service b" "length b = 6" "b ! 0 = 6"
    and f: "f = \<lparr> rb_device_state = p ! 7, rb_wait_time_ms = be16 (p ! 8) (p ! 9),
      rb_control_field = be16 (p ! 10) (p ! 11) \<rparr>"
    using assms validate_control_packet_iff [of p busy_service 6]
    by (auto simp: decode_busy_packet_def routing_sizes decode_u16_be_def split: sum.splits)
  then show ?thesis using list6 [OF b(2)] by (simp add: busy_wire_def)
qed

lemma decode_indication_iff:
  "decode_indication_packet p = Inr f \<longleftrightarrow> indication_ok f \<and> p = indication_wire f"
  (is "?L \<longleftrightarrow> ?R")
proof
  assume ?L
  then obtain h where h: "decode_communication_header p = Inr h" "unat (ch_total_length h) = length p"
      "ch_service_type h = indication_service" "cemi_decode (drop 6 p) = Inr (in_cemi f)" "in_cemi_bytes f = drop 6 p"
    by (auto simp: decode_indication_packet_def frame_sizes decode_cemi_def Let_def split: sum.splits if_splits)
  with decode_header_sound(1) [OF h(1,2)] show ?R by (simp add: indication_ok_def indication_wire_def)
next
  assume ?R
  then have c: "cemi_decode (in_cemi_bytes f) = Inr (in_cemi f)" and p: "p = indication_wire f"
    by (simp_all add: indication_ok_def)
  have len: "11 \<le> length (in_cemi_bytes f)" "length (in_cemi_bytes f) \<le> 520"
    using cemi_decode_size [OF c] by simp_all
  have "unat (word_of_nat (6 + length (in_cemi_bytes f)) :: u16) = 6 + length (in_cemi_bytes f)"
    using len(2) by (intro unat_u16_of_nat) simp
  with len c show ?L
    by (simp add: p indication_wire_def decode_indication_packet_def decode_header_wire frame_sizes cemi_min_max
      decode_cemi_def)
qed

interpretation indication: packet_codec indication_wire "\<lambda>_. True" indication_ok
  encode_indication_packet decode_indication_packet
proof
  fix d :: bytes and f :: indication
  show "encode_indication_packet d f = (Inr (), write_at d 0 (indication_wire f))"
    if "indication_ok f" "length (indication_wire f) \<le> length d"
  proof -
    have "11 \<le> length (in_cemi_bytes f)" "length (in_cemi_bytes f) \<le> 520"
      using that(1) cemi_decode_size by (auto simp: indication_ok_def)
    then show ?thesis
      using that(2) encode_header_wire [of d "6 + length (in_cemi_bytes f)" indication_service]
      by (auto simp: encode_indication_packet_def indication_wire_def frame_sizes Let_def wire_simps knx_packet_def)
  qed
  show "length (snd (encode_indication_packet d f)) = length d"
    by (auto simp: encode_indication_packet_def Let_def frame_sizes intro!: length_bind_w)
qed (simp add: decode_indication_iff)

lemma encode_lost_message_exact:
  "encode_lost_message_packet d f =
     (if length d < 10 then (Inl Invalid_length, d) else (Inr (), write_at d 0 (lost_message_wire f)))"
  using lost_message.encode_wire [of f d]
  by (simp add: lost_message_wire_def) (simp add: encode_lost_message_packet_def begin_control_packet_def routing_sizes)

lemma encode_busy_exact:
  "encode_busy_packet d f = (if length d < 12 then (Inl Invalid_length, d) else (Inr (), write_at d 0 (busy_wire f)))"
  using busy.encode_wire [of f d]
  by (simp add: busy_wire_def) (simp add: encode_busy_packet_def begin_control_packet_def routing_sizes)

lemma encode_indication_exact:
  "encode_indication_packet d f =
     (if in_cemi_bytes f = [] then (Inl Invalid_configuration, d)
      else if 6 + length (in_cemi_bytes f) > 65535 \<or> length d < 6 + length (in_cemi_bytes f) then (Inl Invalid_length, d)
      else (Inr (), write_at d 0 (indication_wire f)))"
  using encode_header_wire [of d "6 + length (in_cemi_bytes f)" indication_service]
  by (auto simp: encode_indication_packet_def indication_wire_def frame_sizes Let_def wire_simps knx_packet_def)

subsection \<open>Properties\<close>

text \<open>
  C38: the routing packets, both ways.  A packet is decoded exactly when it is the image of a lost-message
  or busy report, respectively of an indication whose octets are a cEMI message, which is returned with
  it.  An encoder either refuses and leaves the buffer as it was, or writes exactly that image at the start
  of the buffer and nothing behind it: a report whenever the buffer holds its 10 or 12 octets, an indication
  whenever it has octets at all and they fit the buffer and a datagram; that these are a cEMI message is left
  to the decoder.
\<close>

theorem routing_packets_exact:
  "(decode_lost_message_packet p = Inr f \<longleftrightarrow> p = lost_message_wire f) \<and>
   (decode_busy_packet p = Inr g \<longleftrightarrow> p = busy_wire g) \<and>
   (decode_indication_packet p = Inr h \<longleftrightarrow>
      cemi_decode (in_cemi_bytes h) = Inr (in_cemi h) \<and> p = indication_wire h) \<and>
   encode_lost_message_packet d f =
     (if length d < 10 then (Inl Invalid_length, d) else (Inr (), lost_message_wire f @ drop 10 d)) \<and>
   encode_busy_packet d g = (if length d < 12 then (Inl Invalid_length, d) else (Inr (), busy_wire g @ drop 12 d)) \<and>
   encode_indication_packet d h =
     (if in_cemi_bytes h = [] then (Inl Invalid_configuration, d)
      else if 6 + length (in_cemi_bytes h) > 65535 \<or> length d < 6 + length (in_cemi_bytes h) then (Inl Invalid_length, d)
      else (Inr (), indication_wire h @ drop (6 + length (in_cemi_bytes h)) d))"
proof (intro conjI)
  show "decode_lost_message_packet p = Inr f \<longleftrightarrow> p = lost_message_wire f"
    using decode_lost_message_sound lost_message.decode_wire by blast
  show "decode_busy_packet p = Inr g \<longleftrightarrow> p = busy_wire g" using decode_busy_sound busy.decode_wire by blast
  show "decode_indication_packet p = Inr h \<longleftrightarrow> cemi_decode (in_cemi_bytes h) = Inr (in_cemi h) \<and> p = indication_wire h"
    using decode_indication_iff by (simp add: indication_ok_def)
qed (simp_all add: encode_lost_message_exact encode_busy_exact encode_indication_exact write_at_def
  lost_message_wire_def busy_wire_def indication_wire_def)

end
