(* ===== verification/Knx_Secure_Packets.thy ===== *)
theory Knx_Secure_Packets
  imports Knx_Routing
begin

section \<open>KNX IP Secure packets\<close>

text \<open>
  The packets of KNX IP Secure: the four session services of \<open>knx/secure/session.cpp\<close>, the
  SECURE_WRAPPER of \<open>knx/secure/wrapper.cpp\<close> and the TIMER_NOTIFY of
  \<open>knx/secure/timer_notify.cpp\<close>, with the 48-bit sequence fields of \<open>knx/secure/common.hpp\<close>.
  The cryptography over these packets is modelled in the theory of the secure operations.
\<close>

subsection \<open>Common fields\<close>

definition mac_size :: nat where "mac_size = 16"
definition x25519_key_size :: nat where "x25519_key_size = 32"
definition max_sequence :: u64 where "max_sequence = push_bit 48 1 - 1"

definition encode_sequence :: "u64 \<Rightarrow> bytes" where
  "encode_sequence v = map (\<lambda>index. ucast (drop_bit (8 * (6 - 1 - index)) v AND 0xFF)) [0..<6]"

definition decode_sequence :: "bytes \<Rightarrow> u64" where
  "decode_sequence octets = foldl (\<lambda>acc octet. push_bit 8 acc OR ucast octet) 0 octets"

definition valid_serial_number :: "bytes \<Rightarrow> bool" where
  "valid_serial_number v \<longleftrightarrow> list_ex (\<lambda>octet. octet \<noteq> 0) v"

subsection \<open>Session packets\<close>

definition session_request_service :: u16 where "session_request_service = 0x0951"
definition session_response_service :: u16 where "session_response_service = 0x0952"
definition session_authenticate_service :: u16 where "session_authenticate_service = 0x0953"
definition session_status_service :: u16 where "session_status_service = 0x0954"
definition session_request_size :: nat where
  "session_request_size = communication_header_size + hpai_size + x25519_key_size"
definition session_response_size :: nat where
  "session_response_size = communication_header_size + 2 + x25519_key_size + mac_size"
definition session_authenticate_size :: nat where
  "session_authenticate_size = communication_header_size + 2 + mac_size"
definition session_status_size :: nat where "session_status_size = communication_header_size + 2"

type_synonym session_status = byte

definition status_authentication_success :: session_status where "status_authentication_success = 0x00"
definition status_authentication_failed :: session_status where "status_authentication_failed = 0x01"
definition status_unauthenticated :: session_status where "status_unauthenticated = 0x02"
definition status_timeout :: session_status where "status_timeout = 0x03"
definition status_keepalive :: session_status where "status_keepalive = 0x04"
definition status_close :: session_status where "status_close = 0x05"

record session_request_frame =
  eq_control_endpoint :: hpai
  eq_client_public_key :: bytes

record session_response_frame =
  ea_session_id :: u16
  ea_server_public_key :: bytes
  ea_mac :: bytes

record session_authenticate_frame =
  eu_user_id :: byte
  eu_mac :: bytes

record session_status_frame =
  es_status :: session_status

definition known_host_protocol :: "byte \<Rightarrow> bool" where
  "known_host_protocol protocol \<longleftrightarrow> protocol = 0x01 \<or> protocol = 0x02"

definition check_header :: "bytes \<Rightarrow> u16 \<Rightarrow> nat \<Rightarrow> unit result" where
  "check_header packet service sz =
     (case decode_communication_header packet of Inl e \<Rightarrow> Inl e | Inr header \<Rightarrow>
      if ch_service_type header \<noteq> service then Inl Unsupported_service
      else if ch_protocol_version header \<noteq> 0x10 \<or> unat (ch_total_length header) \<noteq> sz \<or> length packet \<noteq> sz
      then Inl Malformed_frame
      else Inr ())"

definition begin_frame :: "bytes \<Rightarrow> u16 \<Rightarrow> nat \<Rightarrow> unit result \<times> bytes" where
  "begin_frame destination service sz =
     (if length destination < sz then (Inl Invalid_length, destination)
      else bind_w (encode_communication_header destination service (word_of_nat sz) 0x10)
        (\<lambda>destination. (Inr (), destination)))"

definition encode_session_request_packet :: "bytes \<Rightarrow> session_request_frame \<Rightarrow> unit result \<times> bytes" where
  "encode_session_request_packet destination v =
     (if \<not> known_host_protocol (hpai_protocol (eq_control_endpoint v)) then (Inl Unsupported_hpai, destination)
      else bind_w (begin_frame destination session_request_service session_request_size)
        (\<lambda>destination.
          let endpoint = hpai_endpoint (eq_control_endpoint v);
              destination = write_at destination 6 [word_of_nat hpai_size, hpai_protocol (eq_control_endpoint v)];
              destination = write_at destination 8 (v4_address endpoint);
              destination = write_at destination 12 [hi8 (v4_port endpoint), lo8 (v4_port endpoint)]
          in (Inr (), write_at destination 14 (eq_client_public_key v))))"

definition decode_session_request_packet :: "bytes \<Rightarrow> session_request_frame result" where
  "decode_session_request_packet packet =
     (case check_header packet session_request_service session_request_size of Inl e \<Rightarrow> Inl e | Inr _ \<Rightarrow>
      if unat (packet ! 6) \<noteq> hpai_size then Inl Malformed_frame
      else if \<not> known_host_protocol (packet ! 7) then Inl Unsupported_hpai
      else Inr \<lparr> eq_control_endpoint = \<lparr> hpai_endpoint = \<lparr> v4_address = subspan packet 8 4,
                     v4_port = be16 (packet ! 12) (packet ! 13) \<rparr>, hpai_protocol = packet ! 7 \<rparr>,
                 eq_client_public_key = subspan packet 14 x25519_key_size \<rparr>)"

definition encode_session_response_packet :: "bytes \<Rightarrow> session_response_frame \<Rightarrow> unit result \<times> bytes" where
  "encode_session_response_packet destination v =
     bind_w (begin_frame destination session_response_service session_response_size)
       (\<lambda>destination.
         let destination = write_at destination 6 [hi8 (ea_session_id v), lo8 (ea_session_id v)];
             destination = write_at destination 8 (ea_server_public_key v)
         in (Inr (), write_at destination (8 + x25519_key_size) (ea_mac v)))"

definition decode_session_response_packet :: "bytes \<Rightarrow> session_response_frame result" where
  "decode_session_response_packet packet =
     (case check_header packet session_response_service session_response_size of Inl e \<Rightarrow> Inl e | Inr _ \<Rightarrow>
      Inr \<lparr> ea_session_id = be16 (packet ! 6) (packet ! 7),
            ea_server_public_key = subspan packet 8 x25519_key_size,
            ea_mac = subspan packet (8 + x25519_key_size) mac_size \<rparr>)"

definition encode_session_authenticate_packet ::
    "bytes \<Rightarrow> session_authenticate_frame \<Rightarrow> unit result \<times> bytes" where
  "encode_session_authenticate_packet destination v =
     bind_w (begin_frame destination session_authenticate_service session_authenticate_size)
       (\<lambda>destination.
         let destination = write_at destination 6 [0x00, eu_user_id v]
         in (Inr (), write_at destination 8 (eu_mac v)))"

definition decode_session_authenticate_packet :: "bytes \<Rightarrow> session_authenticate_frame result" where
  "decode_session_authenticate_packet packet =
     (case check_header packet session_authenticate_service session_authenticate_size of Inl e \<Rightarrow> Inl e | Inr _ \<Rightarrow>
      if packet ! 6 \<noteq> 0x00 then Inl Malformed_frame
      else Inr \<lparr> eu_user_id = packet ! 7, eu_mac = subspan packet 8 mac_size \<rparr>)"

definition encode_session_status_packet :: "bytes \<Rightarrow> session_status_frame \<Rightarrow> unit result \<times> bytes" where
  "encode_session_status_packet destination v =
     (if es_status v > status_close then (Inl Invalid_configuration, destination)
      else bind_w (begin_frame destination session_status_service session_status_size)
        (\<lambda>destination. (Inr (), write_at destination 6 [es_status v, 0x00])))"

definition decode_session_status_packet :: "bytes \<Rightarrow> session_status_frame result" where
  "decode_session_status_packet packet =
     (case check_header packet session_status_service session_status_size of Inl e \<Rightarrow> Inl e | Inr _ \<Rightarrow>
      if packet ! 6 > status_close then Inl Malformed_frame
      else Inr \<lparr> es_status = packet ! 6 \<rparr>)"

subsection \<open>Wrapper packets\<close>

definition wrapper_service :: u16 where "wrapper_service = 0x0950"
definition wrapper_security_header_size :: nat where "wrapper_security_header_size = 16"
definition wrapper_overhead :: nat where
  "wrapper_overhead = communication_header_size + wrapper_security_header_size + mac_size"
definition min_wrapped_frame_size :: nat where "min_wrapped_frame_size = communication_header_size"
definition max_wrapped_frame_size :: nat where "max_wrapped_frame_size = max_datagram_size - wrapper_overhead"

record wrapper_fields =
  wf_session_id :: u16
  wf_sequence :: bytes
  wf_serial_number :: bytes
  wf_message_tag :: bytes

record wrapper_frame =
  ww_session_id :: u16
  ww_sequence :: bytes
  ww_serial_number :: bytes
  ww_message_tag :: bytes
  ww_encrypted_frame :: bytes
  ww_mac :: bytes

definition services_refused_inside_wrapper :: "u16 list" where
  "services_refused_inside_wrapper = [wrapper_service, 0x0740, 0x0741, 0x0742, 0x0743]"

definition decode_wrapper_packet :: "bytes \<Rightarrow> wrapper_frame result" where
  "decode_wrapper_packet packet =
     (case decode_communication_header packet of Inl e \<Rightarrow> Inl e | Inr header \<Rightarrow>
      if ch_service_type header \<noteq> wrapper_service then Inl Unsupported_service
      else if unat (ch_total_length header) \<noteq> length packet \<or>
        length packet < wrapper_overhead + min_wrapped_frame_size then Inl Malformed_frame
      else
        let body = drop communication_header_size packet
        in Inr \<lparr> ww_session_id = be16 (body ! 0) (body ! 1), ww_sequence = subspan body 2 6,
                 ww_serial_number = subspan body 8 6, ww_message_tag = subspan body 14 2,
                 ww_encrypted_frame = subspan body wrapper_security_header_size
                   (length body - wrapper_security_header_size - mac_size),
                 ww_mac = subspan body (length body - mac_size) mac_size \<rparr>)"

definition write_wrapper_prefix :: "bytes \<Rightarrow> wrapper_fields \<Rightarrow> nat \<Rightarrow> bytes" where
  "write_wrapper_prefix destination flds total_length =
     (let destination = snd (encode_communication_header destination wrapper_service (word_of_nat total_length) 0x10)
      in update_subspan destination communication_header_size wrapper_security_header_size
        (\<lambda>body.
          let body = write_at body 0 [hi8 (wf_session_id flds), lo8 (wf_session_id flds)];
              body = write_at body 2 (wf_sequence flds);
              body = write_at body 8 (wf_serial_number flds)
          in write_at body 14 (wf_message_tag flds)))"

definition encode_wrapper_packet :: "bytes \<Rightarrow> wrapper_frame \<Rightarrow> unit result \<times> bytes" where
  "encode_wrapper_packet destination v =
     (let total_length = wrapper_overhead + length (ww_encrypted_frame v)
      in if length (ww_encrypted_frame v) < min_wrapped_frame_size then (Inl Malformed_frame, destination)
         else if total_length > max_total_length \<or> length destination < total_length
         then (Inl Invalid_length, destination)
         else
           let destination = write_wrapper_prefix destination
                 \<lparr> wf_session_id = ww_session_id v, wf_sequence = ww_sequence v,
                   wf_serial_number = ww_serial_number v, wf_message_tag = ww_message_tag v \<rparr> total_length;
               destination = write_at destination (communication_header_size + wrapper_security_header_size)
                 (ww_encrypted_frame v)
           in (Inr (), write_at destination (total_length - mac_size) (ww_mac v)))"

definition check_wrapped_frame :: "bytes \<Rightarrow> communication_header result" where
  "check_wrapped_frame plain_frame =
     (case decode_communication_header plain_frame of Inl e \<Rightarrow> Inl e | Inr header \<Rightarrow>
      if ch_protocol_version header \<noteq> 0x10 \<or> unat (ch_total_length header) \<noteq> length plain_frame
      then Inl Malformed_frame
      else if List.member services_refused_inside_wrapper (ch_service_type header) then Inl Unsupported_service
      else Inr header)"

subsection \<open>Timer notifications\<close>

definition timer_notify_service :: u16 where "timer_notify_service = 0x0955"
definition timer_notify_body_size :: nat where "timer_notify_body_size = 30"
definition timer_notify_size :: nat where
  "timer_notify_size = communication_header_size + timer_notify_body_size"

record timer_notify_frame =
  tn_timer_value :: bytes
  tn_serial_number :: bytes
  tn_message_tag :: bytes
  tn_mac :: bytes

definition decode_timer_notify_packet :: "bytes \<Rightarrow> timer_notify_frame result" where
  "decode_timer_notify_packet packet =
     (case decode_communication_header packet of Inl e \<Rightarrow> Inl e | Inr header \<Rightarrow>
      if ch_service_type header \<noteq> timer_notify_service then Inl Unsupported_service
      else if unat (ch_total_length header) \<noteq> length packet \<or> length packet \<noteq> timer_notify_size
      then Inl Malformed_frame
      else
        let body = drop communication_header_size packet
        in Inr \<lparr> tn_timer_value = subspan body 0 6, tn_serial_number = subspan body 6 6,
                 tn_message_tag = subspan body 12 2, tn_mac = subspan body 14 mac_size \<rparr>)"

definition timer_notify_header :: bytes where
  "timer_notify_header =
     snd (encode_communication_header (replicate communication_header_size 0) timer_notify_service
       (word_of_nat timer_notify_size) 0x10)"

definition encode_timer_notify_packet :: "bytes \<Rightarrow> timer_notify_frame \<Rightarrow> unit result \<times> bytes" where
  "encode_timer_notify_packet destination v =
     (if length destination < timer_notify_size then (Inl Invalid_length, destination)
      else
        let header = timer_notify_header;
            destination = write_at destination 0 header;
            field = length header;
            destination = write_at destination field (tn_timer_value v);
            field = field + length (tn_timer_value v);
            destination = write_at destination field (tn_serial_number v);
            field = field + length (tn_serial_number v);
            destination = write_at destination field (tn_message_tag v);
            field = field + length (tn_message_tag v)
        in (Inr (), write_at destination field (tn_mac v)))"

subsection \<open>Wire images\<close>

text \<open>
  The image of each packet, the lengths of its \<open>std::array\<close> members and the conditions the
  encoders put on it.
\<close>

definition session_request_wire :: "session_request_frame \<Rightarrow> bytes" where
  "session_request_wire f = knx_packet session_request_service
     (hpai_wire (eq_control_endpoint f) @ eq_client_public_key f)"

definition session_request_wf :: "session_request_frame \<Rightarrow> bool" where
  "session_request_wf f \<longleftrightarrow> hpai_wf (eq_control_endpoint f) \<and> length (eq_client_public_key f) = 32"

definition session_response_wire :: "session_response_frame \<Rightarrow> bytes" where
  "session_response_wire f = knx_packet session_response_service
     ([hi8 (ea_session_id f), lo8 (ea_session_id f)] @ ea_server_public_key f @ ea_mac f)"

definition session_response_wf :: "session_response_frame \<Rightarrow> bool" where
  "session_response_wf f \<longleftrightarrow> length (ea_server_public_key f) = 32 \<and> length (ea_mac f) = 16"

definition session_authenticate_wire :: "session_authenticate_frame \<Rightarrow> bytes" where
  "session_authenticate_wire f = knx_packet session_authenticate_service ([0, eu_user_id f] @ eu_mac f)"

definition session_status_wire :: "session_status_frame \<Rightarrow> bytes" where
  "session_status_wire f = knx_packet session_status_service [es_status f, 0]"

definition wrapper_wire :: "wrapper_frame \<Rightarrow> bytes" where
  "wrapper_wire f = knx_packet wrapper_service
     ([hi8 (ww_session_id f), lo8 (ww_session_id f)] @ ww_sequence f @ ww_serial_number f @ ww_message_tag f @
      ww_encrypted_frame f @ ww_mac f)"

definition wrapper_wf :: "wrapper_frame \<Rightarrow> bool" where
  "wrapper_wf f \<longleftrightarrow> length (ww_sequence f) = 6 \<and> length (ww_serial_number f) = 6 \<and>
     length (ww_message_tag f) = 2 \<and> length (ww_mac f) = 16"

definition wrapper_ok :: "wrapper_frame \<Rightarrow> bool" where
  "wrapper_ok f \<longleftrightarrow> 6 \<le> length (ww_encrypted_frame f) \<and> length (ww_encrypted_frame f) \<le> 65497"

definition timer_notify_wire :: "timer_notify_frame \<Rightarrow> bytes" where
  "timer_notify_wire f = knx_packet timer_notify_service
     (tn_timer_value f @ tn_serial_number f @ tn_message_tag f @ tn_mac f)"

definition timer_notify_wf :: "timer_notify_frame \<Rightarrow> bool" where
  "timer_notify_wf f \<longleftrightarrow> length (tn_timer_value f) = 6 \<and> length (tn_serial_number f) = 6 \<and>
     length (tn_message_tag f) = 2 \<and> length (tn_mac f) = 16"

definition prefix_wire :: "wrapper_fields \<Rightarrow> nat \<Rightarrow> bytes" where
  "prefix_wire w n = header_wire wrapper_service n @ [hi8 (wf_session_id w), lo8 (wf_session_id w)] @
     wf_sequence w @ wf_serial_number w @ wf_message_tag w"

definition wrapper_fields_wf :: "wrapper_fields \<Rightarrow> bool" where
  "wrapper_fields_wf w \<longleftrightarrow> length (wf_sequence w) = 6 \<and> length (wf_serial_number w) = 6 \<and>
     length (wf_message_tag w) = 2"

subsection \<open>Lemmas\<close>

lemmas secure_sizes = mac_size_def x25519_key_size_def session_request_size_def session_response_size_def
  session_authenticate_size_def session_status_size_def wrapper_security_header_size_def wrapper_overhead_def
  min_wrapped_frame_size_def max_wrapped_frame_size_def timer_notify_body_size_def timer_notify_size_def
  hpai_size_def frame_sizes

lemma check_header_iff:
  "check_header p s n = Inr u \<longleftrightarrow> (\<exists>b. p = knx_packet s b \<and> length b < 65530 \<and> 6 + length b = n)"
  (is "?L \<longleftrightarrow> ?R")
proof
  assume ?L
  then obtain h where h: "decode_communication_header p = Inr h" "unat (ch_total_length h) = length p"
      "ch_service_type h = s" "length p = n"
    by (auto simp: check_header_def split: sum.splits if_splits)
  from decode_header_sound [OF h(1,2)] unat_u16_less [of "ch_total_length h"] h(2)
  have "p = knx_packet s (drop 6 p)" "length (drop 6 p) < 65530" "6 \<le> length p" by (auto simp: h(3))
  with h(4) show ?R by (intro exI [of _ "drop 6 p"]) simp
next
  assume ?R
  then obtain b where b: "p = knx_packet s b" "length b < 65530" "6 + length b = n" by blast
  have "unat (word_of_nat (6 + length b) :: u16) = 6 + length b" using b(2) by (intro unat_u16_of_nat) simp
  with b show ?L by (auto simp: check_header_def decode_header_wire)
qed

lemma check_header_wire: "6 + length b = n \<Longrightarrow> n < 65536 \<Longrightarrow> check_header (knx_packet s b) s n = Inr ()"
  using check_header_iff [of "knx_packet s b" s n "()"] by auto

lemma checked_iff:
  "(case check_header p s n of Inl e \<Rightarrow> Inl e | Inr _ \<Rightarrow> K) = Inr x \<longleftrightarrow>
     (\<exists>b. p = knx_packet s b \<and> length b < 65530 \<and> 6 + length b = n \<and> K = Inr x)"
  using check_header_iff [of p s n] by (cases "check_header p s n") auto

lemma begin_frame_wire:
  assumes "n \<le> length d" "6 \<le> n" "n < 65536"
  shows "begin_frame d s n = (Inr (), write_at d 0 (header_wire s n))"
  using assms encode_header_wire [of d n s] by (simp add: begin_frame_def)

lemma begin_frame_short: "length d < n \<Longrightarrow> begin_frame d s n = (Inl Invalid_length, d)"
  by (simp add: begin_frame_def)

lemma known_host_protocol_eq: "known_host_protocol = known_protocol"
  by (simp add: fun_eq_iff known_host_protocol_def known_protocol_def udp_protocol_def tcp_protocol_def)

lemma split_fields2: "2 \<le> length b \<Longrightarrow> b = [b ! 0, b ! 1] @ drop 2 b"
  using list_prefix_nth(1) [of b] by simp

interpretation session_request: strict_codec session_request_wire session_request_wf
  "\<lambda>f. known_protocol (hpai_protocol (eq_control_endpoint f))"
  encode_session_request_packet decode_session_request_packet
proof
  fix d :: bytes and f :: session_request_frame
  assume wf: "session_request_wf f"
  then have len: "length (v4_address (hpai_endpoint (eq_control_endpoint f))) = 4" "length (eq_client_public_key f) = 32"
    by (simp_all add: session_request_wf_def hpai_wf_def)
  show enc: "encode_session_request_packet d f = (Inr (), write_at d 0 (session_request_wire f))"
    if "known_protocol (hpai_protocol (eq_control_endpoint f))" "length (session_request_wire f) \<le> length d" for d
    using that len by (simp add: encode_session_request_packet_def session_request_wire_def secure_sizes
      known_host_protocol_eq begin_frame_wire hpai_wire_def knx_packet_def wire_simps Let_def)
  show "length (snd (encode_session_request_packet d f)) = length d"
  proof (cases "46 \<le> length d \<and> known_protocol (hpai_protocol (eq_control_endpoint f))")
    case True
    with len enc [of d] show ?thesis by (simp add: session_request_wire_def hpai_wire_def)
  qed (auto simp: encode_session_request_packet_def secure_sizes begin_frame_short known_host_protocol_eq)
  show "decode_session_request_packet (session_request_wire f) = Inr f"
    if "known_protocol (hpai_protocol (eq_control_endpoint f))"
    using that len by (simp add: decode_session_request_packet_def session_request_wire_def secure_sizes
      check_header_wire known_host_protocol_eq hpai_wire_def wire_simps nth_append)
  show "known_protocol (hpai_protocol (eq_control_endpoint f)) \<and> length (session_request_wire f) \<le> length d"
    if "fst (encode_session_request_packet d f) = Inr ()"
    using that len by (auto simp: encode_session_request_packet_def known_host_protocol_eq secure_sizes
      begin_frame_def session_request_wire_def hpai_wire_def split: if_splits)
qed

interpretation session_response: strict_codec session_response_wire session_response_wf "\<lambda>_. True"
  encode_session_response_packet decode_session_response_packet
proof
  fix d :: bytes and f :: session_response_frame
  assume wf: "session_response_wf f"
  then have len: "length (ea_server_public_key f) = 32" "length (ea_mac f) = 16"
    by (simp_all add: session_response_wf_def)
  show enc: "encode_session_response_packet d f = (Inr (), write_at d 0 (session_response_wire f))"
    if "length (session_response_wire f) \<le> length d" for d
    using that len by (simp add: encode_session_response_packet_def session_response_wire_def secure_sizes
      begin_frame_wire knx_packet_def wire_simps Let_def)
  show "length (snd (encode_session_response_packet d f)) = length d"
  proof (cases "56 \<le> length d")
    case True
    with len enc [of d] show ?thesis by (simp add: session_response_wire_def)
  qed (simp add: encode_session_response_packet_def secure_sizes begin_frame_short)
  show "decode_session_response_packet (session_response_wire f) = Inr f"
    using len by (simp add: decode_session_response_packet_def session_response_wire_def secure_sizes
      check_header_wire wire_simps)
  show "True \<and> length (session_response_wire f) \<le> length d"
    if "fst (encode_session_response_packet d f) = Inr ()"
    using that len by (auto simp: encode_session_response_packet_def secure_sizes begin_frame_def
      session_response_wire_def split: if_splits)
qed

interpretation session_authenticate: strict_codec session_authenticate_wire "\<lambda>f. length (eu_mac f) = 16" "\<lambda>_. True"
  encode_session_authenticate_packet decode_session_authenticate_packet
proof
  fix d :: bytes and f :: session_authenticate_frame
  assume len: "length (eu_mac f) = 16"
  show enc: "encode_session_authenticate_packet d f = (Inr (), write_at d 0 (session_authenticate_wire f))"
    if "length (session_authenticate_wire f) \<le> length d" for d
    using that len by (simp add: encode_session_authenticate_packet_def session_authenticate_wire_def secure_sizes
      begin_frame_wire knx_packet_def wire_simps Let_def)
  show "length (snd (encode_session_authenticate_packet d f)) = length d"
  proof (cases "24 \<le> length d")
    case True
    with len enc [of d] show ?thesis by (simp add: session_authenticate_wire_def)
  qed (simp add: encode_session_authenticate_packet_def secure_sizes begin_frame_short)
  show "decode_session_authenticate_packet (session_authenticate_wire f) = Inr f"
    using len by (simp add: decode_session_authenticate_packet_def session_authenticate_wire_def secure_sizes
      check_header_wire wire_simps)
  show "True \<and> length (session_authenticate_wire f) \<le> length d"
    if "fst (encode_session_authenticate_packet d f) = Inr ()"
    using that len by (auto simp: encode_session_authenticate_packet_def secure_sizes begin_frame_def
      session_authenticate_wire_def split: if_splits)
qed

interpretation session_status: strict_codec session_status_wire "\<lambda>_. True" "\<lambda>f. es_status f \<le> 5"
  encode_session_status_packet decode_session_status_packet
proof
  fix d :: bytes and f :: session_status_frame
  show enc: "encode_session_status_packet d f = (Inr (), write_at d 0 (session_status_wire f))"
    if "es_status f \<le> 5" "length (session_status_wire f) \<le> length d" for d
    using leD [OF that(1)] that(2) by (simp add: encode_session_status_packet_def session_status_wire_def
      secure_sizes status_close_def begin_frame_wire knx_packet_def wire_simps)
  show "length (snd (encode_session_status_packet d f)) = length d"
  proof (cases "8 \<le> length d \<and> es_status f \<le> 5")
    case True
    with enc [of d] show ?thesis by (simp add: session_status_wire_def)
  qed (auto simp: encode_session_status_packet_def secure_sizes begin_frame_short status_close_def)
  show "decode_session_status_packet (session_status_wire f) = Inr f" if "es_status f \<le> 5"
    using leD [OF that] by (simp add: decode_session_status_packet_def session_status_wire_def secure_sizes
      check_header_wire status_close_def)
  show "es_status f \<le> 5 \<and> length (session_status_wire f) \<le> length d"
    if "fst (encode_session_status_packet d f) = Inr ()"
    using that by (auto simp: encode_session_status_packet_def secure_sizes begin_frame_def status_close_def
      session_status_wire_def split: if_splits)
qed

lemma length_prefix_wire: "wrapper_fields_wf w \<Longrightarrow> length (prefix_wire w n) = 22"
  by (simp add: prefix_wire_def wrapper_fields_wf_def)

lemma write_wrapper_prefix_wire:
  assumes "wrapper_fields_wf w" "22 \<le> length d" "6 \<le> n" "n < 65536"
  shows "write_wrapper_prefix d w n = write_at d 0 (prefix_wire w n)"
proof -
  have len: "length (wf_sequence w) = 6" "length (wf_serial_number w) = 6" "length (wf_message_tag w) = 2"
    using assms(1) by (simp_all add: wrapper_fields_wf_def)
  let ?w = "[hi8 (wf_session_id w), lo8 (wf_session_id w)] @ wf_sequence w @ wf_serial_number w @ wf_message_tag w"
  show ?thesis
    using assms(2-4) encode_header_wire [of d n wrapper_service] len
    unfolding write_wrapper_prefix_def prefix_wire_def secure_sizes Let_def
    by (simp add: update_subspan_wire [where w = ?w] write_at_chain)
qed

interpretation wrapper: strict_codec wrapper_wire wrapper_wf wrapper_ok encode_wrapper_packet decode_wrapper_packet
proof
  fix d :: bytes and f :: wrapper_frame
  assume wf: "wrapper_wf f"
  then have len: "length (ww_sequence f) = 6" "length (ww_serial_number f) = 6" "length (ww_message_tag f) = 2"
      "length (ww_mac f) = 16"
    by (simp_all add: wrapper_wf_def)
  let ?e = "ww_encrypted_frame f"
  show enc: "encode_wrapper_packet d f = (Inr (), write_at d 0 (wrapper_wire f))"
    if "wrapper_ok f" "length (wrapper_wire f) \<le> length d" for d
  proof -
    have bounds: "6 \<le> length ?e" "length ?e \<le> 65497" "38 + length ?e \<le> length d"
      using that len by (simp_all add: wrapper_ok_def wrapper_wire_def)
    let ?w = "\<lparr> wf_session_id = ww_session_id f, wf_sequence = ww_sequence f,
      wf_serial_number = ww_serial_number f, wf_message_tag = ww_message_tag f \<rparr>"
    have "wrapper_fields_wf ?w" using len by (simp add: wrapper_fields_wf_def)
    then have "write_wrapper_prefix d ?w (38 + length ?e) = write_at d 0 (prefix_wire ?w (38 + length ?e))"
      "length (prefix_wire ?w (38 + length ?e)) = 22"
      using bounds by (simp_all add: write_wrapper_prefix_wire length_prefix_wire)
    with bounds len show ?thesis
      by (simp add: encode_wrapper_packet_def secure_sizes Let_def write_at_chain wrapper_wire_def prefix_wire_def
        knx_packet_def add.commute)
  qed
  show "length (snd (encode_wrapper_packet d f)) = length d"
  proof (cases "wrapper_ok f \<and> 38 + length ?e \<le> length d")
    case True
    with len enc [of d] show ?thesis by (simp add: wrapper_wire_def)
  next
    case False
    then have "snd (encode_wrapper_packet d f) = d"
      by (auto simp: encode_wrapper_packet_def secure_sizes wrapper_ok_def Let_def)
    then show ?thesis by simp
  qed
  show "decode_wrapper_packet (wrapper_wire f) = Inr f" if "wrapper_ok f"
  proof -
    have bounds: "6 \<le> length ?e" "length ?e \<le> 65497" using that by (simp_all add: wrapper_ok_def)
    then have "unat (word_of_nat (38 + length ?e) :: u16) = 38 + length ?e" by (intro unat_u16_of_nat) simp
    with bounds len show ?thesis
      by (simp add: decode_wrapper_packet_def wrapper_wire_def decode_header_wire secure_sizes wire_simps Let_def)
  qed
  show "wrapper_ok f \<and> length (wrapper_wire f) \<le> length d" if "fst (encode_wrapper_packet d f) = Inr ()"
    using that len by (auto simp: encode_wrapper_packet_def secure_sizes wrapper_ok_def wrapper_wire_def Let_def
      split: if_splits)
qed

lemma timer_notify_header_wire: "timer_notify_header = header_wire timer_notify_service 36"
  using encode_header_wire [of "replicate 6 0" 36 timer_notify_service]
  by (simp add: timer_notify_header_def secure_sizes write_at_whole)

interpretation timer_notify: strict_codec timer_notify_wire timer_notify_wf "\<lambda>_. True"
  encode_timer_notify_packet decode_timer_notify_packet
proof
  fix d :: bytes and f :: timer_notify_frame
  assume wf: "timer_notify_wf f"
  then have len: "length (tn_timer_value f) = 6" "length (tn_serial_number f) = 6" "length (tn_message_tag f) = 2"
      "length (tn_mac f) = 16"
    by (simp_all add: timer_notify_wf_def)
  show enc: "encode_timer_notify_packet d f = (Inr (), write_at d 0 (timer_notify_wire f))"
    if "length (timer_notify_wire f) \<le> length d" for d
    using that len by (simp add: encode_timer_notify_packet_def timer_notify_wire_def secure_sizes
      timer_notify_header_wire knx_packet_def wire_simps Let_def)
  show "length (snd (encode_timer_notify_packet d f)) = length d"
  proof (cases "36 \<le> length d")
    case True
    with len enc [of d] show ?thesis by (simp add: timer_notify_wire_def)
  qed (simp add: encode_timer_notify_packet_def secure_sizes)
  show "decode_timer_notify_packet (timer_notify_wire f) = Inr f"
    using len unat_u16_of_nat [of 36]
    by (simp add: decode_timer_notify_packet_def timer_notify_wire_def decode_header_wire secure_sizes wire_simps Let_def)
  show "True \<and> length (timer_notify_wire f) \<le> length d" if "fst (encode_timer_notify_packet d f) = Inr ()"
    using that len by (auto simp: encode_timer_notify_packet_def secure_sizes timer_notify_wire_def split: if_splits)
qed

lemma encode_sequence_octets:
  "encode_sequence v = [ucast (drop_bit 40 v), ucast (drop_bit 32 v), ucast (drop_bit 24 v),
     ucast (drop_bit 16 v), ucast (drop_bit 8 v), ucast v]"
proof -
  have "ucast (w AND 0xFF) = (ucast w :: byte)" for w :: u64
    by (rule bit_word_eqI) (auto simp: bit_simps octet_mask)
  then show ?thesis by (simp add: encode_sequence_def upt_rec)
qed

lemma bit_decode_sequence:
  "bit (decode_sequence [a, b, c, d, e, f]) n \<longleftrightarrow>
     n < 48 \<and> (if n < 8 then bit f n else if n < 16 then bit e (n - 8) else if n < 24 then bit d (n - 16)
      else if n < 32 then bit c (n - 24) else if n < 40 then bit b (n - 32) else bit a (n - 40))"
  using bit_imp_le_length [of a "n - 40"] by (auto simp: decode_sequence_def bit_simps not_less)

lemma unat_max_sequence: "unat max_sequence = 2 ^ 48 - 1"
  by (simp add: max_sequence_def)

lemma decode_encode_sequence:
  assumes "v \<le> max_sequence"
  shows "decode_sequence (encode_sequence v) = v"
proof (rule bit_word_eqI)
  fix n
  have "unat v < 2 ^ 48" using assms unfolding word_le_nat_alt unat_max_sequence by simp
  then have "v = take_bit 48 v" by (simp only: take_bit_small)
  then have hi: "bit v n \<Longrightarrow> n < 48" by (metis bit_take_bit_iff)
  show "bit (decode_sequence (encode_sequence v)) n \<longleftrightarrow> bit v n"
    unfolding encode_sequence_octets bit_decode_sequence
    using hi by (auto simp: bit_simps)
qed

lemma encode_decode_sequence:
  assumes "length s = 6"
  shows "encode_sequence (decode_sequence s) = s"
proof -
  obtain a b c d e f where s: "s = [a, b, c, d, e, f]"
    using list_prefix_nth(3) [of s] assms by (metis drop_all order_refl)
  show ?thesis unfolding s encode_sequence_octets
    by (simp, intro conjI; rule bit_word_eqI) (auto simp: bit_simps bit_decode_sequence)
qed

lemma decode_session_request_iff:
  "decode_session_request_packet p = Inr f \<longleftrightarrow> session_request_wf f \<and>
     known_protocol (hpai_protocol (eq_control_endpoint f)) \<and> p = session_request_wire f"
  (is "?L \<longleftrightarrow> ?R")
proof
  assume ?L
  then obtain b where b: "p = knx_packet session_request_service b" "length b = 40"
      "unat (b ! 0) = 8" "known_protocol (b ! 1)"
    and f: "f = \<lparr> eq_control_endpoint = \<lparr> hpai_endpoint = \<lparr> v4_address = subspan b 2 4,
      v4_port = be16 (b ! 6) (b ! 7) \<rparr>, hpai_protocol = b ! 1 \<rparr>, eq_client_public_key = subspan b 8 32 \<rparr>"
    by (auto simp: decode_session_request_packet_def checked_iff secure_sizes known_host_protocol_eq split: if_splits)
  have 0: "b ! 0 = 8" using b(3) by (intro byte_eqI) simp
  have "drop 6 b = [b ! 6, b ! 7] @ drop 8 b" using list_prefix_nth(1) [of "drop 6 b"] b(2) by simp
  moreover have "drop 8 b = subspan b 8 32" using b(2) by (simp add: subspan_def)
  ultimately have E: "b = [8, b ! 1] @ subspan b 2 4 @ [b ! 6, b ! 7] @ subspan b 8 32"
    using split_fields2 [of b] drop_split [of 2 b 4] b(2) 0 by simp
  have "p = knx_packet session_request_service ([8, b ! 1] @ subspan b 2 4 @ [b ! 6, b ! 7] @ subspan b 8 32)"
    by (subst E [symmetric]) (rule b(1))
  then show ?R using b(2,4) f
    by (simp add: session_request_wf_def session_request_wire_def hpai_wf_def hpai_wire_def)
qed (simp add: session_request.decode_wire)

lemma decode_session_response_iff:
  "decode_session_response_packet p = Inr f \<longleftrightarrow> session_response_wf f \<and> p = session_response_wire f"
  (is "?L \<longleftrightarrow> ?R")
proof
  assume ?L
  then obtain b where b: "p = knx_packet session_response_service b" "length b = 50"
    and f: "f = \<lparr> ea_session_id = be16 (b ! 0) (b ! 1), ea_server_public_key = subspan b 2 32,
      ea_mac = subspan b 34 16 \<rparr>"
    by (auto simp: decode_session_response_packet_def checked_iff secure_sizes split: if_splits)
  have "drop 34 b = subspan b 34 16" using b(2) by (simp add: subspan_def)
  then have E: "b = [b ! 0, b ! 1] @ subspan b 2 32 @ subspan b 34 16"
    using split_fields2 [of b] drop_split [of 2 b 32] b(2) by simp
  have "p = knx_packet session_response_service ([b ! 0, b ! 1] @ subspan b 2 32 @ subspan b 34 16)"
    by (subst E [symmetric]) (rule b(1))
  then show ?R using b(2) f by (simp add: session_response_wf_def session_response_wire_def)
qed (simp add: session_response.decode_wire)

lemma decode_session_authenticate_iff:
  "decode_session_authenticate_packet p = Inr f \<longleftrightarrow> length (eu_mac f) = 16 \<and> p = session_authenticate_wire f"
  (is "?L \<longleftrightarrow> ?R")
proof
  assume ?L
  then obtain b where b: "p = knx_packet session_authenticate_service b" "length b = 18" "b ! 0 = 0"
    and f: "f = \<lparr> eu_user_id = b ! 1, eu_mac = subspan b 2 16 \<rparr>"
    by (auto simp: decode_session_authenticate_packet_def checked_iff secure_sizes split: if_splits)
  have "drop 2 b = subspan b 2 16" using b(2) by (simp add: subspan_def)
  then have E: "b = [0, b ! 1] @ subspan b 2 16" using split_fields2 [of b] b(2,3) by simp
  have "p = knx_packet session_authenticate_service ([0, b ! 1] @ subspan b 2 16)"
    by (subst E [symmetric]) (rule b(1))
  then show ?R using b(2) f by (simp add: session_authenticate_wire_def)
qed (simp add: session_authenticate.decode_wire)

lemma decode_session_status_iff:
  "decode_session_status_packet p = Inr f \<longleftrightarrow>
     es_status f \<le> 5 \<and> (\<exists>reserved. p = knx_packet session_status_service [es_status f, reserved])"
  (is "?L \<longleftrightarrow> ?R")
proof
  assume ?L
  then obtain b where b: "p = knx_packet session_status_service b" "length b = 2" "b ! 0 \<le> 5"
    and f: "f = \<lparr> es_status = b ! 0 \<rparr>"
    by (auto simp: decode_session_status_packet_def checked_iff secure_sizes status_close_def split: if_splits)
  have "p = knx_packet session_status_service [b ! 0, b ! 1]"
    by (subst list2 [OF b(2), symmetric]) (rule b(1))
  with b(3) f show ?R by auto
next
  assume ?R
  then obtain r where "\<not> 5 < es_status f" "p = knx_packet session_status_service [es_status f, r]" by auto
  then show ?L by (simp add: decode_session_status_packet_def secure_sizes check_header_wire status_close_def)
qed

lemma decode_wrapper_iff:
  "decode_wrapper_packet p = Inr f \<longleftrightarrow> wrapper_wf f \<and> wrapper_ok f \<and> p = wrapper_wire f"
  (is "?L \<longleftrightarrow> ?R")
proof
  assume ?L
  then obtain h where h: "decode_communication_header p = Inr h" "unat (ch_total_length h) = length p"
      "ch_service_type h = wrapper_service" and len: "44 \<le> length p"
    and f: "f = \<lparr> ww_session_id = be16 (drop 6 p ! 0) (drop 6 p ! 1), ww_sequence = subspan (drop 6 p) 2 6,
      ww_serial_number = subspan (drop 6 p) 8 6, ww_message_tag = subspan (drop 6 p) 14 2,
      ww_encrypted_frame = subspan (drop 6 p) 16 (length (drop 6 p) - 16 - 16),
      ww_mac = subspan (drop 6 p) (length (drop 6 p) - 16) 16 \<rparr>"
    by (auto simp: decode_wrapper_packet_def secure_sizes Let_def split: sum.splits if_splits)
  define b where "b = drop 6 p"
  have p: "p = knx_packet wrapper_service b" "length p \<le> 65535"
    using decode_header_sound(1) [OF h(1,2)] h(2,3) unat_u16_less [of "ch_total_length h"] by (simp_all add: b_def)
  then have lb: "38 \<le> length b" "length b \<le> 65529" using len by simp_all
  have tail: "drop (length b - 16) b = subspan b (length b - 16) 16" using lb by (simp add: subspan_def)
  have "drop 16 b = subspan b 16 (length b - 16 - 16) @ subspan b (length b - 16) 16"
    using drop_split [of 16 b "length b - 16 - 16"] lb tail by simp
  then have E: "b = [b ! 0, b ! 1] @ subspan b 2 6 @ subspan b 8 6 @ subspan b 14 2 @
      subspan b 16 (length b - 16 - 16) @ subspan b (length b - 16) 16"
    using split_fields2 [of b] drop_split [of 2 b 6] drop_split [of 8 b 6] drop_split [of 14 b 2] lb by simp
  have "p = knx_packet wrapper_service ([b ! 0, b ! 1] @ subspan b 2 6 @ subspan b 8 6 @ subspan b 14 2 @
      subspan b 16 (length b - 16 - 16) @ subspan b (length b - 16) 16)"
    by (subst E [symmetric]) (rule p(1))
  moreover have "f = \<lparr> ww_session_id = be16 (b ! 0) (b ! 1), ww_sequence = subspan b 2 6,
      ww_serial_number = subspan b 8 6, ww_message_tag = subspan b 14 2,
      ww_encrypted_frame = subspan b 16 (length b - 16 - 16), ww_mac = subspan b (length b - 16) 16 \<rparr>"
    using f by (simp only: b_def)
  moreover have "6 \<le> length b - 32" "length b - 32 \<le> 65497" using lb by simp_all
  ultimately show ?R
    using lb by (simp add: wrapper_wf_def wrapper_ok_def wrapper_wire_def)
qed (simp add: wrapper.decode_wire)

lemma decode_timer_notify_iff:
  "decode_timer_notify_packet p = Inr f \<longleftrightarrow> timer_notify_wf f \<and> p = timer_notify_wire f"
  (is "?L \<longleftrightarrow> ?R")
proof
  assume ?L
  then obtain h where h: "decode_communication_header p = Inr h" "unat (ch_total_length h) = length p"
      "ch_service_type h = timer_notify_service" and len: "length p = 36"
    and f: "f = \<lparr> tn_timer_value = subspan (drop 6 p) 0 6, tn_serial_number = subspan (drop 6 p) 6 6,
      tn_message_tag = subspan (drop 6 p) 12 2, tn_mac = subspan (drop 6 p) 14 16 \<rparr>"
    by (auto simp: decode_timer_notify_packet_def secure_sizes Let_def split: sum.splits if_splits)
  define b where "b = drop 6 p"
  have p: "p = knx_packet timer_notify_service b"
    using decode_header_sound(1) [OF h(1,2)] h(3) by (simp add: b_def)
  have lb: "length b = 30" using len by (simp add: b_def)
  have "drop 14 b = subspan b 14 16" using lb by (simp add: subspan_def)
  then have "drop 0 b = subspan b 0 6 @ subspan b 6 6 @ subspan b 12 2 @ subspan b 14 16"
    using drop_split [of 0 b 6] drop_split [of 6 b 6] drop_split [of 12 b 2] by simp
  then have "p = knx_packet timer_notify_service
      (subspan b 0 6 @ subspan b 6 6 @ subspan b 12 2 @ subspan b 14 16)"
    using p by (metis drop0)
  moreover have "f = \<lparr> tn_timer_value = subspan b 0 6, tn_serial_number = subspan b 6 6,
      tn_message_tag = subspan b 12 2, tn_mac = subspan b 14 16 \<rparr>"
    using f by (simp only: b_def)
  ultimately show ?R using lb by (simp add: timer_notify_wf_def timer_notify_wire_def)
qed (simp add: timer_notify.decode_wire)

subsection \<open>Properties\<close>

text \<open>
  Each KNX IP Secure packet is decoded exactly when it is the image of a frame: a session
  request with a known host protocol, a session response, an authentication whose reserved octet is
  zero, a named status (whose reserved octet is not looked at), a wrapper around at least one
  KNXnet/IP header, a timer notification.
\<close>

theorem secure_packets_exact:
  "(decode_session_request_packet p = Inr rq \<longleftrightarrow> session_request_wf rq \<and>
      known_protocol (hpai_protocol (eq_control_endpoint rq)) \<and> p = session_request_wire rq) \<and>
   (decode_session_response_packet p = Inr rs \<longleftrightarrow> session_response_wf rs \<and> p = session_response_wire rs) \<and>
   (decode_session_authenticate_packet p = Inr au \<longleftrightarrow> length (eu_mac au) = 16 \<and> p = session_authenticate_wire au) \<and>
   (decode_session_status_packet p = Inr st \<longleftrightarrow>
      es_status st \<le> 5 \<and> (\<exists>reserved. p = knx_packet session_status_service [es_status st, reserved])) \<and>
   (decode_wrapper_packet p = Inr wr \<longleftrightarrow> wrapper_wf wr \<and> wrapper_ok wr \<and> p = wrapper_wire wr) \<and>
   (decode_timer_notify_packet p = Inr tn \<longleftrightarrow> timer_notify_wf tn \<and> p = timer_notify_wire tn)"
  by (intro conjI decode_session_request_iff decode_session_response_iff decode_session_authenticate_iff
    decode_session_status_iff decode_wrapper_iff decode_timer_notify_iff)

end
