(* ===== verification/Knx_Secure_Crypto.thy ===== *)
theory Knx_Secure_Crypto
  imports Knx_Secure_Packets
begin

section \<open>KNX IP Secure: authenticated encryption of packets\<close>

text \<open>
  The composition of CBC-MAC and CTR encryption of \<open>knx/secure/detail/ccm.cpp\<close>, the sealing and
  opening of wrappers and timer notifications of \<open>knx/secure/detail/wrapper_crypto.cpp\<close> and the
  handshake codes of \<open>knx/secure/detail/session_crypto.cpp\<close> and \<open>knx/secure/session.cpp\<close>.

  The primitives come from OpenSSL or BoringSSL and are not part of the repository.  The code
  reaches them through the function table \<open>crypto_backend\<close>, which is a parameter here: \<open>None\<close> is a
  call that reports failure, and \<open>cb_ctr\<close> also gives the two runs of octets it worked on in place.
  What the theorems need of it is stated as two predicates: CTR encryption and decryption are the
  same operation (\<open>ctr_symmetric\<close>) and a MAC is one AES block (\<open>mac_is_block\<close>).
\<close>

subsection \<open>Primitives\<close>

record crypto_backend =
  cb_cbc_mac :: "bytes \<Rightarrow> bytes \<Rightarrow> bytes option"
  cb_ctr :: "bytes \<Rightarrow> bytes \<Rightarrow> bytes \<Rightarrow> bytes \<Rightarrow> bool \<times> bytes \<times> bytes"
  cb_sha256 :: "bytes \<Rightarrow> bytes option"
  cb_pbkdf2_sha256 :: "bytes \<Rightarrow> bytes \<Rightarrow> u32 \<Rightarrow> nat \<Rightarrow> bytes option"
  cb_x25519_derive :: "bytes \<Rightarrow> bytes \<Rightarrow> bytes option"

record cipher =
  ci_backend :: crypto_backend
  ci_key :: bytes

record crypto_message =
  cm_block_0 :: bytes
  cm_counter_0 :: bytes
  cm_associated_data :: bytes
  cm_payload :: bytes

definition aes_block_size :: nat where "aes_block_size = 16"
definition key_size :: nat where "key_size = 16"
definition max_mac_input_size :: nat where "max_mac_input_size = 2048"
definition password_iterations :: u32 where "password_iterations = 65536"

definition constant_time_equal :: "bytes \<Rightarrow> bytes \<Rightarrow> bool" where
  "constant_time_equal lhs rhs \<longleftrightarrow> length lhs = length rhs \<and> (lhs = [] \<or> lhs = rhs)"

definition cleanse :: "bytes \<Rightarrow> bytes" where
  "cleanse octets = replicate (length octets) 0"

subsection \<open>Authenticated encryption\<close>

definition cbc_mac :: "cipher \<Rightarrow> bytes \<Rightarrow> bytes \<Rightarrow> bytes \<Rightarrow> bytes result" where
  "cbc_mac w block_0 associated_data payload =
     (let unpadded = length block_0 + 2 + length associated_data + length payload;
          padded = ((unpadded + aes_block_size - 1) div aes_block_size) * aes_block_size
      in if padded > max_mac_input_size \<or> length associated_data > 0xFFFF then Inl Invalid_length
         else
           let octets = block_0 @ [word_of_nat (length associated_data div 256), word_of_nat (length associated_data)] @
                 associated_data @ payload
           in case cb_cbc_mac (ci_backend w) (ci_key w) (octets @ replicate (padded - unpadded) 0) of
                None \<Rightarrow> Inl Crypto_failure
              | Some mac \<Rightarrow> Inr mac)"

definition ctr :: "cipher \<Rightarrow> bytes \<Rightarrow> bytes \<Rightarrow> bytes \<Rightarrow> unit result \<times> bytes \<times> bytes" where
  "ctr w counter_0 mac payload =
     (let (ok, mac, payload) = cb_ctr (ci_backend w) (ci_key w) counter_0 mac payload
      in (if ok then Inr () else Inl Crypto_failure, mac, payload))"

definition seal :: "cipher \<Rightarrow> crypto_message \<Rightarrow> bytes result \<times> bytes" where
  "seal w v =
     (case cbc_mac w (cm_block_0 v) (cm_associated_data v) (cm_payload v) of
        Inl e \<Rightarrow> (Inl e, cm_payload v)
      | Inr mac \<Rightarrow>
          let (encrypted, mac, payload) = ctr w (cm_counter_0 v) mac (cm_payload v)
          in (case encrypted of Inl e \<Rightarrow> Inl e | Inr _ \<Rightarrow> Inr mac, payload))"

definition open_message :: "cipher \<Rightarrow> crypto_message \<Rightarrow> bytes \<Rightarrow> unit result \<times> bytes" where
  "open_message w v mac =
     (let (decrypted, received_mac, payload) = ctr w (cm_counter_0 v) mac (cm_payload v)
      in case decrypted of
           Inl e \<Rightarrow> (Inl e, payload)
         | Inr _ \<Rightarrow>
             (case cbc_mac w (cm_block_0 v) (cm_associated_data v) payload of
                Inl e \<Rightarrow> (Inl e, cleanse payload)
              | Inr expected_mac \<Rightarrow>
                  if \<not> constant_time_equal received_mac expected_mac
                  then (Inl Secure_authentication_failed, cleanse payload)
                  else (Inr (), payload)))"

definition wrapper_block_0 :: "bytes \<Rightarrow> bytes \<Rightarrow> bytes \<Rightarrow> u16 \<Rightarrow> bytes" where
  "wrapper_block_0 sq serial_number message_tag payload_length =
     sq @ serial_number @ message_tag @ [hi8 payload_length, lo8 payload_length]"

definition wrapper_counter_0 :: "bytes \<Rightarrow> bytes \<Rightarrow> bytes \<Rightarrow> bytes" where
  "wrapper_counter_0 sq serial_number message_tag =
     (wrapper_block_0 sq serial_number message_tag 0)[14 := 0xFF, 15 := 0x00]"

definition handshake_counter_0 :: bytes where
  "handshake_counter_0 = (replicate aes_block_size 0)[14 := 0xFF]"

definition derive_session_key :: "crypto_backend \<Rightarrow> bytes \<Rightarrow> bytes \<Rightarrow> bytes result" where
  "derive_session_key backend private_key peer_public_key =
     (case cb_x25519_derive backend private_key peer_public_key of
        None \<Rightarrow> Inl Crypto_failure
      | Some shared \<Rightarrow>
          (case cb_sha256 backend shared of
             None \<Rightarrow> Inl Crypto_failure
           | Some digest \<Rightarrow> Inr (take key_size digest)))"

definition derive_password_key :: "crypto_backend \<Rightarrow> bytes \<Rightarrow> bytes \<Rightarrow> bytes result" where
  "derive_password_key backend password salt =
     (case cb_pbkdf2_sha256 backend password salt password_iterations key_size of
        None \<Rightarrow> Inl Crypto_failure
      | Some key \<Rightarrow> Inr key)"

subsection \<open>Wrappers\<close>

definition basic_seal_wrapper :: "cipher \<Rightarrow> bytes \<Rightarrow> wrapper_fields \<Rightarrow> bytes \<Rightarrow> nat result \<times> bytes" where
  "basic_seal_wrapper w destination flds plain_frame =
     (case check_wrapped_frame plain_frame of Inl e \<Rightarrow> (Inl e, destination) | Inr _ \<Rightarrow>
      let total_length = wrapper_overhead + length plain_frame
      in if length plain_frame > max_wrapped_frame_size \<or> length destination < total_length
         then (Inl Invalid_length, destination)
         else
           let destination = write_wrapper_prefix destination flds total_length;
               at = communication_header_size + wrapper_security_header_size;
               destination = write_at destination at plain_frame;
               payload_length = word_of_nat (length plain_frame);
               (mac, payload) = seal w
                 \<lparr> cm_block_0 = wrapper_block_0 (wf_sequence flds) (wf_serial_number flds) (wf_message_tag flds)
                     payload_length,
                   cm_counter_0 = wrapper_counter_0 (wf_sequence flds) (wf_serial_number flds) (wf_message_tag flds),
                   cm_associated_data = take (communication_header_size + 2) destination,
                   cm_payload = subspan destination at (length plain_frame) \<rparr>;
               destination = write_at destination at payload
           in case mac of
                Inl e \<Rightarrow> (Inl e, write_at destination 0 (cleanse (take total_length destination)))
              | Inr mac \<Rightarrow> (Inr total_length, write_at destination (total_length - mac_size) mac))"

definition basic_open_wrapper :: "cipher \<Rightarrow> bytes \<Rightarrow> wrapper_frame \<Rightarrow> nat result \<times> bytes" where
  "basic_open_wrapper w destination v =
     (let sz = length (ww_encrypted_frame v)
      in if length destination < sz \<or> wrapper_overhead + sz > max_total_length
         then (Inl Invalid_length, destination)
         else
           let prefix = write_wrapper_prefix
                 (replicate (communication_header_size + wrapper_security_header_size) 0)
                 \<lparr> wf_session_id = ww_session_id v, wf_sequence = ww_sequence v,
                   wf_serial_number = ww_serial_number v, wf_message_tag = ww_message_tag v \<rparr>
                 (wrapper_overhead + sz);
               destination = write_at destination 0 (ww_encrypted_frame v);
               (opened, payload) = open_message w
                 \<lparr> cm_block_0 = wrapper_block_0 (ww_sequence v) (ww_serial_number v) (ww_message_tag v) (word_of_nat sz),
                   cm_counter_0 = wrapper_counter_0 (ww_sequence v) (ww_serial_number v) (ww_message_tag v),
                   cm_associated_data = take (communication_header_size + 2) prefix,
                   cm_payload = take sz destination \<rparr> (ww_mac v);
               destination = write_at destination 0 payload
           in case opened of
                Inl e \<Rightarrow> (Inl e, write_at destination 0 (cleanse (take sz destination)))
              | Inr _ \<Rightarrow> (Inr sz, destination))"

subsection \<open>Timer notifications\<close>

definition basic_make_timer_notify :: "cipher \<Rightarrow> u64 \<Rightarrow> bytes \<Rightarrow> bytes \<Rightarrow> timer_notify_frame result" where
  "basic_make_timer_notify w timer_value serial_number message_tag =
     (if timer_value > max_sequence then Inl Invalid_configuration
      else
        let timer = encode_sequence timer_value;
            (mac, payload) = seal w
              \<lparr> cm_block_0 = wrapper_block_0 timer serial_number message_tag 0,
                cm_counter_0 = wrapper_counter_0 timer serial_number message_tag,
                cm_associated_data = timer_notify_header, cm_payload = [] \<rparr>
        in case mac of
             Inl e \<Rightarrow> Inl e
           | Inr mac \<Rightarrow> Inr \<lparr> tn_timer_value = timer, tn_serial_number = serial_number,
                             tn_message_tag = message_tag, tn_mac = mac \<rparr>)"

definition basic_verify_timer_notify :: "cipher \<Rightarrow> timer_notify_frame \<Rightarrow> unit result" where
  "basic_verify_timer_notify w v =
     fst (open_message w
       \<lparr> cm_block_0 = wrapper_block_0 (tn_timer_value v) (tn_serial_number v) (tn_message_tag v) 0,
         cm_counter_0 = wrapper_counter_0 (tn_timer_value v) (tn_serial_number v) (tn_message_tag v),
         cm_associated_data = timer_notify_header, cm_payload = [] \<rparr> (tn_mac v))"

subsection \<open>Handshake\<close>

definition header_octets :: "u16 \<Rightarrow> nat \<Rightarrow> bytes" where
  "header_octets service sz = [0x06, 0x10, hi8 service, lo8 service, word_of_nat (sz div 256), word_of_nat sz]"

definition public_keys_xor :: "bytes \<Rightarrow> bytes \<Rightarrow> bytes" where
  "public_keys_xor client_public_key server_public_key =
     map (\<lambda>index. client_public_key ! index XOR server_public_key ! index) [0..<x25519_key_size]"

definition handshake_mac :: "cipher \<Rightarrow> bytes \<Rightarrow> bytes result" where
  "handshake_mac w associated_data =
     (case cbc_mac w (replicate aes_block_size 0) associated_data [] of
        Inl e \<Rightarrow> Inl e
      | Inr mac \<Rightarrow>
          let (encrypted, mac, _) = ctr w handshake_counter_0 mac []
          in case encrypted of Inl e \<Rightarrow> Inl e | Inr _ \<Rightarrow> Inr mac)"

definition basic_session_response_mac :: "cipher \<Rightarrow> u16 \<Rightarrow> bytes \<Rightarrow> bytes \<Rightarrow> bytes result" where
  "basic_session_response_mac w session_id client_public_key server_public_key =
     handshake_mac w (header_octets session_response_service session_response_size @
       [hi8 session_id, lo8 session_id] @ public_keys_xor client_public_key server_public_key)"

definition basic_session_authenticate_mac :: "cipher \<Rightarrow> byte \<Rightarrow> bytes \<Rightarrow> bytes \<Rightarrow> bytes result" where
  "basic_session_authenticate_mac w user_id client_public_key server_public_key =
     handshake_mac w (header_octets session_authenticate_service session_authenticate_size @
       [0, user_id] @ public_keys_xor client_public_key server_public_key)"

definition verify_session_response :: "cipher \<Rightarrow> session_response_frame \<Rightarrow> bytes \<Rightarrow> unit result" where
  "verify_session_response w response client_public_key =
     (case basic_session_response_mac w (ea_session_id response) client_public_key (ea_server_public_key response) of
        Inl e \<Rightarrow> Inl e
      | Inr expected \<Rightarrow>
          if \<not> constant_time_equal expected (ea_mac response) then Inl Secure_authentication_failed else Inr ())"

definition verify_session_authenticate ::
    "cipher \<Rightarrow> session_authenticate_frame \<Rightarrow> bytes \<Rightarrow> bytes \<Rightarrow> unit result" where
  "verify_session_authenticate w v client_public_key server_public_key =
     (case basic_session_authenticate_mac w (eu_user_id v) client_public_key server_public_key of
        Inl e \<Rightarrow> Inl e
      | Inr expected \<Rightarrow>
          if \<not> constant_time_equal expected (eu_mac v) then Inl Secure_authentication_failed else Inr ())"

subsection \<open>What the primitives promise, and the message a wrapper protects\<close>

definition ctr_symmetric :: "crypto_backend \<Rightarrow> bool" where
  "ctr_symmetric b \<longleftrightarrow> (\<forall>k c f s f' s'. cb_ctr b k c f s = (True, f', s') \<longrightarrow>
     length f' = length f \<and> length s' = length s \<and> cb_ctr b k c f' s' = (True, f, s))"

definition mac_is_block :: "crypto_backend \<Rightarrow> bool" where
  "mac_is_block b \<longleftrightarrow> (\<forall>k blocks m. cb_cbc_mac b k blocks = Some m \<longrightarrow> length m = 16)"

definition wrapper_message :: "wrapper_fields \<Rightarrow> bytes \<Rightarrow> crypto_message" where
  "wrapper_message flds payload =
     \<lparr> cm_block_0 = wrapper_block_0 (wf_sequence flds) (wf_serial_number flds) (wf_message_tag flds)
         (word_of_nat (length payload)),
       cm_counter_0 = wrapper_counter_0 (wf_sequence flds) (wf_serial_number flds) (wf_message_tag flds),
       cm_associated_data = take 8 (prefix_wire flds (38 + length payload)),
       cm_payload = payload \<rparr>"

definition fields_of :: "wrapper_frame \<Rightarrow> wrapper_fields" where
  "fields_of v = \<lparr> wf_session_id = ww_session_id v, wf_sequence = ww_sequence v,
     wf_serial_number = ww_serial_number v, wf_message_tag = ww_message_tag v \<rparr>"

definition wrapper_of :: "wrapper_fields \<Rightarrow> bytes \<Rightarrow> bytes \<Rightarrow> wrapper_frame" where
  "wrapper_of flds encrypted mac = \<lparr> ww_session_id = wf_session_id flds, ww_sequence = wf_sequence flds,
     ww_serial_number = wf_serial_number flds, ww_message_tag = wf_message_tag flds,
     ww_encrypted_frame = encrypted, ww_mac = mac \<rparr>"

definition sample_backend :: crypto_backend where
  "sample_backend = \<lparr> cb_cbc_mac = (\<lambda>k blocks. Some (replicate 16 (foldl (+) 7 blocks))),
     cb_ctr = (\<lambda>k c f s. (True, map (\<lambda>x. x XOR 0x5A) f, map (\<lambda>x. x XOR 0xA5) s)),
     cb_sha256 = (\<lambda>x. Some (replicate 32 (foldl (+) 0 x))),
     cb_pbkdf2_sha256 = (\<lambda>p s i n. Some (replicate n (foldl (+) 0 (p @ s)))),
     cb_x25519_derive = (\<lambda>a b. Some a) \<rparr>"

definition sample_cipher :: cipher where
  "sample_cipher = \<lparr> ci_backend = sample_backend, ci_key = replicate 16 3 \<rparr>"

definition sample_fields :: wrapper_fields where
  "sample_fields = \<lparr> wf_session_id = 1, wf_sequence = [0, 0, 0, 0, 0, 9], wf_serial_number = [1, 2, 3, 4, 5, 6],
     wf_message_tag = [0, 0] \<rparr>"

definition sample_plain :: bytes where
  "sample_plain = [6, 0x10, 2, 9, 0, 8, 21, 0]"

subsection \<open>Lemmas\<close>

lemma ctr_symmetricD:
  assumes "ctr_symmetric (ci_backend w)" "ctr w c m p = (Inr (), m', p')"
  shows "length m' = length m" "length p' = length p" "ctr w c m' p' = (Inr (), m, p)"
proof -
  have "cb_ctr (ci_backend w) (ci_key w) c m p = (True, m', p')"
    using assms(2) by (auto simp: ctr_def split: prod.splits if_splits)
  with assms(1) have "length m' = length m \<and> length p' = length p \<and>
      cb_ctr (ci_backend w) (ci_key w) c m' p' = (True, m, p)"
    unfolding ctr_symmetric_def by blast
  then show "length m' = length m" "length p' = length p" "ctr w c m' p' = (Inr (), m, p)"
    by (simp_all add: ctr_def)
qed

lemma length_cbc_mac: "mac_is_block (ci_backend w) \<Longrightarrow> cbc_mac w b a p = Inr m \<Longrightarrow> length m = 16"
  by (auto simp: cbc_mac_def Let_def mac_is_block_def split: if_splits option.splits)

lemma constant_time_equal_iff: "constant_time_equal x y \<longleftrightarrow> x = y"
  by (auto simp: constant_time_equal_def)

lemma seal_iff:
  "seal w v = (Inr mac, c) \<longleftrightarrow>
     (\<exists>m. cbc_mac w (cm_block_0 v) (cm_associated_data v) (cm_payload v) = Inr m \<and>
        ctr w (cm_counter_0 v) m (cm_payload v) = (Inr (), mac, c))"
  by (auto simp: seal_def split: sum.splits prod.splits)

lemma open_message_iff:
  "open_message w v mac = (Inr (), p) \<longleftrightarrow>
     (\<exists>m. ctr w (cm_counter_0 v) mac (cm_payload v) = (Inr (), m, p) \<and>
        cbc_mac w (cm_block_0 v) (cm_associated_data v) p = Inr m)"
  by (auto simp: open_message_def constant_time_equal_iff split: sum.splits prod.splits if_splits)

lemma open_seal:
  assumes "ctr_symmetric (ci_backend w)"
  shows "seal w v = (Inr mac, c) \<longleftrightarrow> open_message w (v\<lparr> cm_payload := c \<rparr>) mac = (Inr (), cm_payload v)"
proof -
  have "ctr w (cm_counter_0 v) m (cm_payload v) = (Inr (), mac, c) \<longleftrightarrow>
      ctr w (cm_counter_0 v) mac c = (Inr (), m, cm_payload v)" for m
    using ctr_symmetricD(3) [OF assms] by blast
  then show ?thesis by (simp add: seal_iff open_message_iff conj_commute)
qed

lemma length_seal:
  assumes "ctr_symmetric (ci_backend w)" "seal w v = (Inr mac, c)"
  shows "length c = length (cm_payload v)" "mac_is_block (ci_backend w) \<Longrightarrow> length mac = 16"
proof -
  obtain m where m: "cbc_mac w (cm_block_0 v) (cm_associated_data v) (cm_payload v) = Inr m"
      "ctr w (cm_counter_0 v) m (cm_payload v) = (Inr (), mac, c)"
    using assms(2) unfolding seal_iff by blast
  show "length c = length (cm_payload v)" "mac_is_block (ci_backend w) \<Longrightarrow> length mac = 16"
    using ctr_symmetricD(1,2) [OF assms(1) m(2)] length_cbc_mac [OF _ m(1)] by simp_all
qed

lemma check_wrapped_frame_size: "check_wrapped_frame p = Inr h \<Longrightarrow> 6 \<le> length p"
  by (auto simp: check_wrapped_frame_def dest: decode_header_fields split: sum.splits if_splits)

lemma wrapper_message_payload [simp]:
  "cm_payload (wrapper_message flds p) = p"
  "length c = length p \<Longrightarrow> wrapper_message flds p\<lparr> cm_payload := c \<rparr> = wrapper_message flds c"
  by (simp_all add: wrapper_message_def)

lemma wrapper_wire_prefix:
  "wrapper_wire (wrapper_of flds e m) = prefix_wire flds (22 + length e + length m) @ e @ m"
  if "wrapper_fields_wf flds"
  using that by (simp add: wrapper_wire_def wrapper_of_def prefix_wire_def knx_packet_def wrapper_fields_wf_def add.assoc)

lemma seal_wrapper_body:
  assumes wf: "wrapper_fields_wf flds" and h: "check_wrapped_frame plain = Inr h" "length plain \<le> 1434"
    "38 + length plain \<le> length d" and s: "seal w (wrapper_message flds plain) = (r, enc)"
  shows "basic_seal_wrapper w d flds plain =
     (let destination = write_at (write_at d 0 (prefix_wire flds (38 + length plain) @ plain)) 22 enc
      in case r of Inl e \<Rightarrow> (Inl e, write_at destination 0 (cleanse (take (38 + length plain) destination)))
         | Inr mac \<Rightarrow> (Inr (38 + length plain), write_at destination (22 + length plain) mac))"
proof -
  have pre: "write_wrapper_prefix d flds (38 + length plain) = write_at d 0 (prefix_wire flds (38 + length plain))"
    "length (prefix_wire flds (38 + length plain)) = 22"
    using wf h(2,3) by (simp_all add: write_wrapper_prefix_wire length_prefix_wire)
  have msg: "take 8 (write_at d 0 (prefix_wire flds (38 + length plain) @ plain)) =
      take 8 (prefix_wire flds (38 + length plain))"
    "subspan (write_at d 0 (prefix_wire flds (38 + length plain) @ plain)) 22 (length plain) = plain"
    using pre(2) by (simp_all add: write_at_def subspan_def)
  have chain: "write_at (write_at d 0 (prefix_wire flds (38 + length plain))) 22 plain =
      write_at d 0 (prefix_wire flds (38 + length plain) @ plain)"
    using pre(2) h(3) by (simp add: write_at_chain)
  show ?thesis
    using h s unfolding wrapper_message_def
    by (cases r) (simp_all add: basic_seal_wrapper_def secure_sizes max_datagram_size_def Let_def pre(1) chain msg)
qed

lemma seal_wrapper_layout:
  assumes sym: "ctr_symmetric (ci_backend w)" and blk: "mac_is_block (ci_backend w)"
    and wf: "wrapper_fields_wf flds"
    and sealed: "basic_seal_wrapper w d flds plain = (Inr n, d')"
  obtains enc mac where "seal w (wrapper_message flds plain) = (Inr mac, enc)" "n = 38 + length plain"
    "length enc = length plain" "length mac = 16" "6 \<le> length plain" "length plain \<le> 1434"
    "d' = write_at d 0 (wrapper_wire (wrapper_of flds enc mac))" "38 + length plain \<le> length d"
proof -
  obtain h where h: "check_wrapped_frame plain = Inr h" "length plain \<le> 1434" "38 + length plain \<le> length d"
    using sealed by (auto simp: basic_seal_wrapper_def secure_sizes max_datagram_size_def Let_def
      split: sum.splits if_splits)
  have len: "6 \<le> length plain" using check_wrapped_frame_size [OF h(1)] .
  have pre: "length (prefix_wire flds (38 + length plain)) = 22" using wf by (simp add: length_prefix_wire)
  obtain r enc where s: "seal w (wrapper_message flds plain) = (r, enc)" by fastforce
  note body = seal_wrapper_body [OF wf h s]
  obtain mac where r: "r = Inr mac" using sealed body by (cases r) (auto simp: Let_def)
  have lens: "length enc = length plain" "length mac = 16"
    using length_seal [OF sym] s r blk by auto
  have "write_at (write_at d 0 (prefix_wire flds (38 + length plain) @ plain)) 22 enc =
      write_at d 0 (prefix_wire flds (38 + length plain) @ enc)"
    using pre lens(1) h(3) by (simp add: write_at_def)
  then have n: "n = 38 + length plain" and
      "d' = write_at (write_at d 0 (prefix_wire flds (38 + length plain) @ enc)) (22 + length plain) mac"
    using sealed body r by (auto simp: Let_def)
  then have "d' = write_at d 0 (wrapper_wire (wrapper_of flds enc mac))"
    using lens pre h(3) by (simp add: wrapper_wire_prefix [OF wf] write_at_chain add.commute add.left_commute)
  with that s r n lens len h(2,3) show thesis by blast
qed

lemma fields_wrapper_of [simp]: "fields_of (wrapper_of flds e m) = flds"
  "ww_encrypted_frame (wrapper_of flds e m) = e" "ww_mac (wrapper_of flds e m) = m"
  by (simp_all add: fields_of_def wrapper_of_def)

lemma open_wrapper_layout:
  assumes wf: "wrapper_fields_wf (fields_of v)" and len: "length (ww_encrypted_frame v) \<le> length e"
    "length (ww_encrypted_frame v) \<le> 65497"
  shows "basic_open_wrapper w e v =
    (let (opened, payload) = open_message w (wrapper_message (fields_of v) (ww_encrypted_frame v)) (ww_mac v);
         destination = write_at (write_at e 0 (ww_encrypted_frame v)) 0 payload
     in case opened of
          Inl err \<Rightarrow> (Inl err, write_at destination 0 (cleanse (take (length (ww_encrypted_frame v)) destination)))
        | Inr _ \<Rightarrow> (Inr (length (ww_encrypted_frame v)), destination))"
proof -
  let ?n = "length (ww_encrypted_frame v)"
  have "write_wrapper_prefix (replicate 22 0) (fields_of v) (38 + ?n) = prefix_wire (fields_of v) (38 + ?n)"
    using wf len(2) write_wrapper_prefix_wire [of "fields_of v" "replicate 22 0" "38 + ?n"]
    by (simp add: write_at_whole length_prefix_wire)
  with len show ?thesis
    by (simp add: basic_open_wrapper_def secure_sizes Let_def wrapper_message_def fields_of_def)
qed

lemma open_wrapper_ok:
  assumes "ctr_symmetric (ci_backend w)" "wrapper_fields_wf (fields_of v)"
    "length (ww_encrypted_frame v) \<le> length e" "length (ww_encrypted_frame v) \<le> 65497"
    "seal w (wrapper_message (fields_of v) plain) = (Inr (ww_mac v), ww_encrypted_frame v)"
  shows "basic_open_wrapper w e v = (Inr (length plain), write_at e 0 plain)"
proof -
  have len: "length (ww_encrypted_frame v) = length plain" using length_seal(1) [OF assms(1,5)] by simp
  then have "open_message w (wrapper_message (fields_of v) (ww_encrypted_frame v)) (ww_mac v) = (Inr (), plain)"
    using assms(5) open_seal [OF assms(1), of "wrapper_message (fields_of v) plain"] by simp
  then show ?thesis
    using len assms(3) by (simp add: open_wrapper_layout [OF assms(2-4)] write_at_def)
qed

lemma open_wrapper_accepts:
  assumes "ctr_symmetric (ci_backend w)" "wrapper_fields_wf (fields_of v)" "basic_open_wrapper w e v = (Inr n, e')"
  shows "n = length (ww_encrypted_frame v)" "n \<le> length e" "length e' = length e" "drop n e' = drop n e"
    "seal w (wrapper_message (fields_of v) (take n e')) = (Inr (ww_mac v), ww_encrypted_frame v)"
proof -
  let ?c = "ww_encrypted_frame v"
  have len: "length ?c \<le> length e" "length ?c \<le> 65497"
    using assms(3) by (auto simp: basic_open_wrapper_def Let_def secure_sizes split: if_splits)
  obtain p where o: "open_message w (wrapper_message (fields_of v) ?c) (ww_mac v) = (Inr (), p)"
    and n: "n = length ?c" and e': "e' = write_at (write_at e 0 ?c) 0 p"
    using assms(3) unfolding open_wrapper_layout [OF assms(2) len]
    by (auto simp: Let_def split: prod.splits sum.splits)
  obtain m where "ctr w (cm_counter_0 (wrapper_message (fields_of v) ?c)) (ww_mac v) ?c = (Inr (), m, p)"
    using o unfolding open_message_iff by auto
  then have p: "length p = length ?c" using ctr_symmetricD(2) [OF assms(1)] by blast
  then have e2: "e' = write_at e 0 p" using e' len(1) by (simp add: write_at_def)
  have "seal w (wrapper_message (fields_of v) p) = (Inr (ww_mac v), ?c)"
    using o p open_seal [OF assms(1), of "wrapper_message (fields_of v) p" "ww_mac v" ?c] by simp
  with e2 p n len show "n = length ?c" "n \<le> length e" "length e' = length e" "drop n e' = drop n e"
    "seal w (wrapper_message (fields_of v) (take n e')) = (Inr (ww_mac v), ?c)"
    by simp_all
qed

lemma open_wrapper_refuses:
  assumes "basic_open_wrapper w e v = (Inl err, e')"
  shows "e' = e \<or> take (length (ww_encrypted_frame v)) e' = replicate (length (ww_encrypted_frame v)) 0"
proof -
  let ?n = "length (ww_encrypted_frame v)"
  show ?thesis
  proof (cases "length e < ?n \<or> wrapper_overhead + ?n > max_total_length")
    case True
    with assms show ?thesis by (auto simp: basic_open_wrapper_def Let_def)
  next
    case False
    then obtain x y where "x = write_at (write_at e 0 (ww_encrypted_frame v)) 0 y" "e' = write_at x 0 (cleanse (take ?n x))"
      using assms by (auto simp: basic_open_wrapper_def Let_def split: prod.splits sum.splits)
    moreover have "?n \<le> length (write_at (write_at e 0 (ww_encrypted_frame v)) 0 y)" for y
      using False by (simp add: write_at_def)
    ultimately show ?thesis by (simp add: cleanse_def)
  qed
qed

lemma sealed_wrapper:
  assumes "ctr_symmetric (ci_backend w)" "mac_is_block (ci_backend w)" "wrapper_fields_wf flds"
    and "basic_seal_wrapper w d flds plain = (Inr n, d')" and "length plain \<le> length e"
  shows "n = wrapper_overhead + length plain \<and> length d' = length d \<and> drop n d' = drop n d \<and>
    (\<exists>v. decode_wrapper_packet (take n d') = Inr v \<and> fields_of v = flds \<and>
       basic_open_wrapper w e v = (Inr (length plain), write_at e 0 plain))"
proof -
  obtain enc mac where s: "seal w (wrapper_message flds plain) = (Inr mac, enc)" "n = 38 + length plain"
    "length enc = length plain" "length mac = 16" "6 \<le> length plain" "length plain \<le> 1434"
    "d' = write_at d 0 (wrapper_wire (wrapper_of flds enc mac))" "38 + length plain \<le> length d"
    using seal_wrapper_layout [OF assms(1-4)] .
  let ?v = "wrapper_of flds enc mac"
  have len: "length (wrapper_wire ?v) = n"
    using s(2-4) assms(3) by (simp add: wrapper_wire_prefix length_prefix_wire)
  have "wrapper_wf ?v" "wrapper_ok ?v"
    using s(3-6) assms(3) by (simp_all add: wrapper_wf_def wrapper_ok_def wrapper_of_def wrapper_fields_wf_def)
  then have "decode_wrapper_packet (take n d') = Inr ?v" using wrapper.decode_wire s(7) len by simp
  moreover have "basic_open_wrapper w e ?v = (Inr (length plain), write_at e 0 plain)"
    using open_wrapper_ok [OF assms(1), of ?v e plain] s assms(3,5) by simp
  ultimately show ?thesis using s(2,7,8) len by (auto simp: secure_sizes)
qed

lemma verify_make_timer_notify:
  assumes "ctr_symmetric (ci_backend w)" "basic_make_timer_notify w t serial tag = Inr v"
  shows "basic_verify_timer_notify w v = Inr ()" "decode_sequence (tn_timer_value v) = t"
proof -
  have t: "t \<le> max_sequence" using assms(2) by (auto simp: basic_make_timer_notify_def split: if_splits)
  let ?m = "\<lparr> cm_block_0 = wrapper_block_0 (encode_sequence t) serial tag 0,
    cm_counter_0 = wrapper_counter_0 (encode_sequence t) serial tag,
    cm_associated_data = timer_notify_header, cm_payload = [] \<rparr>"
  obtain mac c where s: "seal w ?m = (Inr mac, c)" and
    v: "v = \<lparr> tn_timer_value = encode_sequence t, tn_serial_number = serial, tn_message_tag = tag, tn_mac = mac \<rparr>"
    using assms(2) by (auto simp: basic_make_timer_notify_def Let_def split: if_splits prod.splits sum.splits)
  have "c = []" using length_seal(1) [OF assms(1) s] by simp
  then have "open_message w ?m mac = (Inr (), [])" using s open_seal [OF assms(1), of ?m mac c] by simp
  then show "basic_verify_timer_notify w v = Inr ()" "decode_sequence (tn_timer_value v) = t"
    by (simp_all add: v basic_verify_timer_notify_def decode_encode_sequence [OF t])
qed

lemma verify_session_response_iff:
  "verify_session_response w r ck = Inr () \<longleftrightarrow>
     basic_session_response_mac w (ea_session_id r) ck (ea_server_public_key r) = Inr (ea_mac r)"
  by (auto simp: verify_session_response_def constant_time_equal_iff split: sum.splits)

lemma verify_session_authenticate_iff:
  "verify_session_authenticate w v ck sk = Inr () \<longleftrightarrow>
     basic_session_authenticate_mac w (eu_user_id v) ck sk = Inr (eu_mac v)"
  by (auto simp: verify_session_authenticate_def constant_time_equal_iff split: sum.splits)

lemma sample_backend_ok: "ctr_symmetric (ci_backend sample_cipher)" "mac_is_block (ci_backend sample_cipher)"
  by (auto simp: ctr_symmetric_def mac_is_block_def sample_cipher_def sample_backend_def xor.assoc o_def)

lemma sample_seal:
  "\<exists>d'. basic_seal_wrapper sample_cipher (replicate 50 0) sample_fields sample_plain = (Inr 46, d')"
  by (simp add: basic_seal_wrapper_def check_wrapped_frame_def decode_communication_header_def sample_plain_def
    services_refused_inside_wrapper_def wrapper_service_def secure_sizes max_datagram_size_def Let_def be16_def
    seal_def cbc_mac_def ctr_def sample_cipher_def sample_backend_def aes_block_size_def max_mac_input_size_def
    sample_fields_def wrapper_block_0_def write_wrapper_prefix_def encode_communication_header_def
    update_subspan_def subspan_def write_at_def)

subsection \<open>Properties\<close>

text \<open>
  C31: a KNXnet/IP packet sealed into a SECURE_WRAPPER is, as written, a wrapper the decoder accepts
  with the sender's fields, the buffer is not overrun, and opening that wrapper under the same key
  gives back the packet and leaves the rest of the receiving buffer alone.
\<close>

theorem wrapper_roundtrip:
  assumes "ctr_symmetric (ci_backend w)" "mac_is_block (ci_backend w)" "wrapper_fields_wf flds"
    and "basic_seal_wrapper w d flds plain = (Inr n, d')" and "length plain \<le> length e"
  shows "n = wrapper_overhead + length plain \<and> length d' = length d \<and> drop n d' = drop n d \<and>
    (\<exists>v. decode_wrapper_packet (take n d') = Inr v \<and> fields_of v = flds \<and>
       basic_open_wrapper w e v = (Inr (length plain), write_at e 0 plain))"
  using assms by (rule sealed_wrapper)

theorem wrapper_roundtrip_witness:
  "\<exists>v d'. basic_seal_wrapper sample_cipher (replicate 50 0) sample_fields sample_plain = (Inr 46, d') \<and>
     decode_wrapper_packet (take 46 d') = Inr v \<and>
     basic_open_wrapper sample_cipher sample_plain v = (Inr 8, sample_plain)"
proof -
  obtain d' where d': "basic_seal_wrapper sample_cipher (replicate 50 0) sample_fields sample_plain = (Inr 46, d')"
    using sample_seal by blast
  have "wrapper_fields_wf sample_fields" by (simp add: wrapper_fields_wf_def sample_fields_def)
  from wrapper_roundtrip [OF sample_backend_ok this d' order_refl]
  show ?thesis using d' by (auto simp: sample_plain_def write_at_whole)
qed

text \<open>
  C30: opening a wrapper is all or nothing.  What is accepted is exactly what sealing the returned
  packet under the same key and fields gives, so an altered field, payload or code is not accepted;
  when it is refused the receiving buffer is untouched or its payload octets are wiped, so no
  unauthenticated plaintext is left behind.
\<close>

theorem wrapper_authentic:
  assumes "ctr_symmetric (ci_backend w)" "wrapper_fields_wf (fields_of v)" "basic_open_wrapper w e v = (r, e')"
  shows "case r of
      Inr n \<Rightarrow> n = length (ww_encrypted_frame v) \<and> drop n e' = drop n e \<and>
        seal w (wrapper_message (fields_of v) (take n e')) = (Inr (ww_mac v), ww_encrypted_frame v)
    | Inl _ \<Rightarrow> e' = e \<or>
        take (length (ww_encrypted_frame v)) e' = replicate (length (ww_encrypted_frame v)) 0"
  using assms open_wrapper_accepts [OF assms(1,2), of e _ e'] open_wrapper_refuses [of w e v _ e']
  by (auto split: sum.split)

theorem wrapper_authentic_witness:
  "\<exists>e'. basic_open_wrapper sample_cipher [1, 1, 1, 1, 1, 1]
     (wrapper_of sample_fields [9, 9, 9, 9, 9, 9] (replicate 16 0)) = (Inl Secure_authentication_failed, e') \<and>
     (e' = [1, 1, 1, 1, 1, 1] \<or> take 6 e' = replicate 6 0)"
proof -
  let ?v = "wrapper_of sample_fields [9, 9, 9, 9, 9, 9] (replicate 16 0)"
  have f: "wrapper_fields_wf (fields_of ?v)" by (simp add: wrapper_fields_wf_def sample_fields_def)
  have "\<exists>e'. basic_open_wrapper sample_cipher [1, 1, 1, 1, 1, 1] ?v = (Inl Secure_authentication_failed, e')"
    by (subst open_wrapper_layout [OF f], simp_all add: wrapper_of_def)
      (simp add: fields_of_def open_message_def cbc_mac_def ctr_def sample_cipher_def sample_backend_def
      aes_block_size_def max_mac_input_size_def Let_def wrapper_message_def wrapper_block_0_def sample_fields_def
      prefix_wire_def header_wire_def constant_time_equal_iff wrapper_service_def hi8_def lo8_def)
  then obtain e' where o: "basic_open_wrapper sample_cipher [1, 1, 1, 1, 1, 1] ?v = (Inl Secure_authentication_failed, e')"
    by blast
  from wrapper_authentic [OF sample_backend_ok(1) f o] o show ?thesis by (auto simp: wrapper_of_def numeral_eq_Suc)
qed

text \<open>
  A timer notification that was made under a key verifies under that key and carries the timer
  value it was made from; a session response or authentication verifies exactly when its code is
  the one the handshake computes.
\<close>

theorem handshake_and_timer_verified:
  assumes "ctr_symmetric (ci_backend w)"
  shows "(basic_make_timer_notify w t serial tag = Inr v \<longrightarrow>
      basic_verify_timer_notify w v = Inr () \<and> decode_sequence (tn_timer_value v) = t) \<and>
    (verify_session_response w r ck = Inr () \<longleftrightarrow>
      basic_session_response_mac w (ea_session_id r) ck (ea_server_public_key r) = Inr (ea_mac r)) \<and>
    (verify_session_authenticate w a ck sk = Inr () \<longleftrightarrow>
      basic_session_authenticate_mac w (eu_user_id a) ck sk = Inr (eu_mac a))"
  using verify_make_timer_notify [OF assms, of t serial tag v] verify_session_response_iff
    verify_session_authenticate_iff by blast

theorem handshake_and_timer_verified_witness:
  "\<exists>v. basic_make_timer_notify sample_cipher 77 [1, 2, 3, 4, 5, 6] [0, 0] = Inr v \<and>
     basic_verify_timer_notify sample_cipher v = Inr ()"
proof -
  obtain v where "basic_make_timer_notify sample_cipher 77 [1, 2, 3, 4, 5, 6] [0, 0] = Inr v"
    by (simp add: basic_make_timer_notify_def seal_def cbc_mac_def ctr_def sample_cipher_def sample_backend_def
      aes_block_size_def max_mac_input_size_def Let_def wrapper_block_0_def timer_notify_header_wire header_wire_def
      encode_sequence_octets max_sequence_def timer_notify_service_def)
  with handshake_and_timer_verified [OF sample_backend_ok(1)] show ?thesis by blast
qed

end
