(* ===== verification/Knx_Datagram.thy ===== *)
theory Knx_Datagram
  imports Knx_Secure_Crypto
begin

section \<open>KNXnet/IP datagrams\<close>

text \<open>
  The service dispatch of \<open>knx/datagram.cpp\<close>: the closed variant of every frame the library reads,
  the five groups of service decoders and encoders, and the answer built from a request.  The
  variant is a datatype with one constructor per alternative, in the order of the source.
\<close>

subsection \<open>The variant\<close>

datatype datagram_payload =
    Payload_search_request search_request_frame
  | Payload_ipv6_search_request ipv6_search_request_frame
  | Payload_search_response search_response_frame
  | Payload_ipv6_search_response ipv6_search_response_frame
  | Payload_description_request description_request_frame
  | Payload_description_response description_response_frame
  | Payload_extended_search_request extended_search_request_frame
  | Payload_extended_search_response extended_search_response_frame
  | Payload_connect_request connect_request_frame
  | Payload_ipv6_connect_request ipv6_connect_request_frame
  | Payload_management_connect_request management_connect_request_frame
  | Payload_connect_response connect_response_frame
  | Payload_ipv6_connect_response ipv6_connect_response_frame
  | Payload_management_connect_response management_connect_response_frame
  | Payload_connectionstate_request connectionstate_request_frame
  | Payload_connectionstate_response connectionstate_response_frame
  | Payload_disconnect_request disconnect_request_frame
  | Payload_disconnect_response disconnect_response_frame
  | Payload_indication indication
  | Payload_lost_message lost_message
  | Payload_busy busy
  | Payload_tunnelling_request tunnelling_request_frame
  | Payload_tunnelling_ack tunnelling_ack_frame
  | Payload_device_configuration device_configuration_frame
  | Payload_tunnelling_feature tunnelling_feature_frame
  | Payload_wrapper wrapper_frame
  | Payload_session_request session_request_frame
  | Payload_session_response session_response_frame
  | Payload_session_authenticate session_authenticate_frame
  | Payload_session_status session_status_frame
  | Payload_timer_notify timer_notify_frame

record datagram =
  dg_service_type :: u16
  dg_payload :: datagram_payload

subsection \<open>Decoding\<close>

definition as_datagram ::
    "('a \<Rightarrow> datagram_payload) \<Rightarrow> u16 \<Rightarrow> bytes \<Rightarrow> (bytes \<Rightarrow> 'a result) \<Rightarrow> datagram result" where
  "as_datagram wrap service packet decode =
     (case decode packet of
        Inl e \<Rightarrow> Inl e
      | Inr v \<Rightarrow> Inr \<lparr> dg_service_type = service, dg_payload = wrap v \<rparr>)"

definition decode_connect_request :: "u16 \<Rightarrow> bytes \<Rightarrow> nat \<Rightarrow> datagram result" where
  "decode_connect_request service packet len =
     (if len = communication_header_size + ipv6_connect_request_body_size
      then as_datagram Payload_ipv6_connect_request service packet decode_ipv6_connect_request_packet
      else
        case (if len = communication_header_size + management_connect_request_body_size
              then decode_management_connect_request_packet packet else Inl Malformed_frame) of
          Inr v \<Rightarrow> Inr \<lparr> dg_service_type = service, dg_payload = Payload_management_connect_request v \<rparr>
        | Inl _ \<Rightarrow> as_datagram Payload_connect_request service packet decode_connect_request_packet)"

definition decode_connect_response :: "u16 \<Rightarrow> bytes \<Rightarrow> nat \<Rightarrow> datagram result" where
  "decode_connect_response service packet len =
     (if len = communication_header_size + ipv6_connect_response_body_size
      then as_datagram Payload_ipv6_connect_response service packet decode_ipv6_connect_response_packet
      else
        case (if len = communication_header_size + management_connect_response_body_size
              then decode_management_connect_response_packet packet else Inl Malformed_frame) of
          Inr v \<Rightarrow> Inr \<lparr> dg_service_type = service, dg_payload = Payload_management_connect_response v \<rparr>
        | Inl _ \<Rightarrow> as_datagram Payload_connect_response service packet decode_connect_response_packet)"

definition decode_discovery_service :: "u16 \<Rightarrow> bytes \<Rightarrow> nat \<Rightarrow> datagram result option" where
  "decode_discovery_service service packet len =
     (if service = search_request_service then
        Some (if len = communication_header_size + ipv6_search_request_body_size
              then as_datagram Payload_ipv6_search_request service packet decode_ipv6_search_request_packet
              else as_datagram Payload_search_request service packet decode_search_request_packet)
      else if service = search_response_service then
        Some (case (if len \<ge> communication_header_size + ipv6_hpai_size + 2
                    then decode_ipv6_search_response_packet packet else Inl Malformed_frame) of
                Inr v \<Rightarrow> Inr \<lparr> dg_service_type = service, dg_payload = Payload_ipv6_search_response v \<rparr>
              | Inl _ \<Rightarrow> as_datagram Payload_search_response service packet decode_search_response_packet)
      else if service = search_request_extended_service then
        Some (as_datagram Payload_extended_search_request service packet decode_extended_search_request_packet)
      else if service = search_response_extended_service then
        Some (as_datagram Payload_extended_search_response service packet decode_extended_search_response_packet)
      else if service = description_request_service then
        Some (as_datagram Payload_description_request service packet decode_description_request_packet)
      else if service = description_response_service then
        Some (as_datagram Payload_description_response service packet decode_description_response_packet)
      else None)"

definition decode_connection_service :: "u16 \<Rightarrow> bytes \<Rightarrow> nat \<Rightarrow> datagram result option" where
  "decode_connection_service service packet len =
     (if service = connect_request_service then
        Some (decode_connect_request service packet len)
      else if service = connect_response_service then
        Some (decode_connect_response service packet len)
      else if service = connectionstate_request_service then
        Some (as_datagram Payload_connectionstate_request service packet decode_connectionstate_request_packet)
      else if service = connectionstate_response_service then
        Some (as_datagram Payload_connectionstate_response service packet decode_connectionstate_response_packet)
      else if service = disconnect_request_service then
        Some (as_datagram Payload_disconnect_request service packet decode_disconnect_request_packet)
      else if service = disconnect_response_service then
        Some (as_datagram Payload_disconnect_response service packet decode_disconnect_response_packet)
      else None)"

definition decode_tunnelling_service :: "u16 \<Rightarrow> bytes \<Rightarrow> datagram result option" where
  "decode_tunnelling_service service packet =
     (if service = tunnelling_request_service then
        Some (as_datagram Payload_tunnelling_request service packet decode_tunnelling_request_packet)
      else if service = tunnelling_ack_service then
        Some (as_datagram Payload_tunnelling_ack service packet decode_tunnelling_ack_packet)
      else if service = device_configuration_request_service then
        Some (as_datagram Payload_device_configuration service packet decode_device_configuration_request_packet)
      else if service = device_configuration_ack_service then
        Some (as_datagram Payload_tunnelling_ack service packet decode_device_configuration_ack_packet)
      else if service = tunnelling_feature_get_service \<or> service = tunnelling_feature_response_service \<or>
        service = tunnelling_feature_set_service \<or> service = tunnelling_feature_info_service then
        Some (as_datagram Payload_tunnelling_feature service packet decode_tunnelling_feature_packet)
      else None)"

definition decode_routing_service :: "u16 \<Rightarrow> bytes \<Rightarrow> datagram result option" where
  "decode_routing_service service packet =
     (if service = indication_service then
        Some (as_datagram Payload_indication service packet decode_indication_packet)
      else if service = lost_message_service then
        Some (as_datagram Payload_lost_message service packet decode_lost_message_packet)
      else if service = busy_service then
        Some (as_datagram Payload_busy service packet decode_busy_packet)
      else None)"

definition decode_secure_service :: "u16 \<Rightarrow> bytes \<Rightarrow> datagram result option" where
  "decode_secure_service service packet =
     (if service = wrapper_service then
        Some (as_datagram Payload_wrapper service packet decode_wrapper_packet)
      else if service = session_request_service then
        Some (as_datagram Payload_session_request service packet decode_session_request_packet)
      else if service = session_response_service then
        Some (as_datagram Payload_session_response service packet decode_session_response_packet)
      else if service = session_authenticate_service then
        Some (as_datagram Payload_session_authenticate service packet decode_session_authenticate_packet)
      else if service = session_status_service then
        Some (as_datagram Payload_session_status service packet decode_session_status_packet)
      else if service = timer_notify_service then
        Some (as_datagram Payload_timer_notify service packet decode_timer_notify_packet)
      else None)"

definition decode_datagram :: "bytes \<Rightarrow> datagram result" where
  "decode_datagram packet =
     (case decode_communication_header packet of
        Inl e \<Rightarrow> Inl e
      | Inr hdr \<Rightarrow>
          if ch_protocol_version hdr \<noteq> 0x10 then Inl Unsupported_service
          else if unat (ch_total_length hdr) \<noteq> length packet then Inl Malformed_frame
          else
            let service = ch_service_type hdr; len = unat (ch_total_length hdr)
            in case decode_discovery_service service packet len of Some d \<Rightarrow> d | None \<Rightarrow>
               (case decode_connection_service service packet len of Some d \<Rightarrow> d | None \<Rightarrow>
               (case decode_tunnelling_service service packet of Some d \<Rightarrow> d | None \<Rightarrow>
               (case decode_routing_service service packet of Some d \<Rightarrow> d | None \<Rightarrow>
               (case decode_secure_service service packet of Some d \<Rightarrow> d | None \<Rightarrow>
                  Inl Unsupported_service)))))"

subsection \<open>Encoding\<close>

definition encode_payload ::
    "(datagram_payload \<Rightarrow> 'a option) \<Rightarrow> bytes \<Rightarrow> datagram \<Rightarrow> (bytes \<Rightarrow> 'a \<Rightarrow> unit result \<times> bytes) \<Rightarrow>
     unit result \<times> bytes" where
  "encode_payload get_if packet v encode =
     (case get_if (dg_payload v) of
        None \<Rightarrow> (Inl Invalid_configuration, packet)
      | Some payload \<Rightarrow> encode packet payload)"

definition encode_search_request :: "bytes \<Rightarrow> datagram \<Rightarrow> unit result \<times> bytes" where
  "encode_search_request packet v =
     (case dg_payload v of
        Payload_ipv6_search_request f \<Rightarrow> encode_ipv6_search_request_packet packet f
      | _ \<Rightarrow> encode_payload (\<lambda>p. case p of Payload_search_request f \<Rightarrow> Some f | _ \<Rightarrow> None) packet v
          encode_search_request_packet)"

definition encode_search_response :: "bytes \<Rightarrow> datagram \<Rightarrow> unit result \<times> bytes" where
  "encode_search_response packet v =
     (case dg_payload v of
        Payload_ipv6_search_response f \<Rightarrow> encode_ipv6_search_response_packet packet f
      | _ \<Rightarrow> encode_payload (\<lambda>p. case p of Payload_search_response f \<Rightarrow> Some f | _ \<Rightarrow> None) packet v
          encode_search_response_packet)"

definition encode_connect_request :: "bytes \<Rightarrow> datagram \<Rightarrow> unit result \<times> bytes" where
  "encode_connect_request packet v =
     (case dg_payload v of
        Payload_ipv6_connect_request f \<Rightarrow> encode_ipv6_connect_request_packet packet f
      | Payload_management_connect_request f \<Rightarrow> encode_management_connect_request_packet packet f
      | _ \<Rightarrow> encode_payload (\<lambda>p. case p of Payload_connect_request f \<Rightarrow> Some f | _ \<Rightarrow> None) packet v
          encode_connect_request_packet)"

definition encode_connect_response :: "bytes \<Rightarrow> datagram \<Rightarrow> unit result \<times> bytes" where
  "encode_connect_response packet v =
     (case dg_payload v of
        Payload_ipv6_connect_response f \<Rightarrow> encode_ipv6_connect_response_packet packet f
      | Payload_management_connect_response f \<Rightarrow> encode_management_connect_response_packet packet f
      | _ \<Rightarrow> encode_payload (\<lambda>p. case p of Payload_connect_response f \<Rightarrow> Some f | _ \<Rightarrow> None) packet v
          encode_connect_response_packet)"

definition encode_tunnelling :: "bytes \<Rightarrow> tunnelling_request_frame \<Rightarrow> unit result \<times> bytes" where
  "encode_tunnelling packet request =
     (if tr_cemi_bytes request = [] then (Inl Malformed_frame, packet)
      else encode_tunnelling_request_packet packet (tr_channel_id request) (tr_sequence_number request)
             (tr_cemi_bytes request))"

definition encode_discovery_service :: "u16 \<Rightarrow> bytes \<Rightarrow> datagram \<Rightarrow> (unit result \<times> bytes) option" where
  "encode_discovery_service service packet v =
     (if service = search_request_service then
        Some (encode_search_request packet v)
      else if service = search_response_service then
        Some (encode_search_response packet v)
      else if service = search_request_extended_service then
        Some (encode_payload (\<lambda>p. case p of Payload_extended_search_request f \<Rightarrow> Some f | _ \<Rightarrow> None) packet v
          encode_extended_search_request_packet)
      else if service = search_response_extended_service then
        Some (encode_payload (\<lambda>p. case p of Payload_extended_search_response f \<Rightarrow> Some f | _ \<Rightarrow> None) packet v
          encode_extended_search_response_packet)
      else if service = description_request_service then
        Some (encode_payload (\<lambda>p. case p of Payload_description_request f \<Rightarrow> Some f | _ \<Rightarrow> None) packet v
          encode_description_request_packet)
      else if service = description_response_service then
        Some (encode_payload (\<lambda>p. case p of Payload_description_response f \<Rightarrow> Some f | _ \<Rightarrow> None) packet v
          encode_description_response_packet)
      else None)"

definition encode_connection_service :: "u16 \<Rightarrow> bytes \<Rightarrow> datagram \<Rightarrow> (unit result \<times> bytes) option" where
  "encode_connection_service service packet v =
     (if service = connect_request_service then
        Some (encode_connect_request packet v)
      else if service = connect_response_service then
        Some (encode_connect_response packet v)
      else if service = connectionstate_request_service then
        Some (encode_payload (\<lambda>p. case p of Payload_connectionstate_request f \<Rightarrow> Some f | _ \<Rightarrow> None) packet v
          encode_connectionstate_request_packet)
      else if service = connectionstate_response_service then
        Some (encode_payload (\<lambda>p. case p of Payload_connectionstate_response f \<Rightarrow> Some f | _ \<Rightarrow> None) packet v
          encode_connectionstate_response_packet)
      else if service = disconnect_request_service then
        Some (encode_payload (\<lambda>p. case p of Payload_disconnect_request f \<Rightarrow> Some f | _ \<Rightarrow> None) packet v
          encode_disconnect_request_packet)
      else if service = disconnect_response_service then
        Some (encode_payload (\<lambda>p. case p of Payload_disconnect_response f \<Rightarrow> Some f | _ \<Rightarrow> None) packet v
          encode_disconnect_response_packet)
      else None)"

definition encode_tunnelling_service :: "u16 \<Rightarrow> bytes \<Rightarrow> datagram \<Rightarrow> (unit result \<times> bytes) option" where
  "encode_tunnelling_service service packet v =
     (if service = tunnelling_request_service then
        Some (encode_payload (\<lambda>p. case p of Payload_tunnelling_request f \<Rightarrow> Some f | _ \<Rightarrow> None) packet v
          encode_tunnelling)
      else if service = tunnelling_ack_service then
        Some (encode_payload (\<lambda>p. case p of Payload_tunnelling_ack f \<Rightarrow> Some f | _ \<Rightarrow> None) packet v
          encode_ack)
      else if service = tunnelling_feature_get_service \<or> service = tunnelling_feature_response_service \<or>
        service = tunnelling_feature_set_service \<or> service = tunnelling_feature_info_service then
        Some (encode_payload (\<lambda>p. case p of Payload_tunnelling_feature f \<Rightarrow> Some f | _ \<Rightarrow> None) packet v
          encode_feature)
      else None)"

definition encode_routing_service :: "u16 \<Rightarrow> bytes \<Rightarrow> datagram \<Rightarrow> (unit result \<times> bytes) option" where
  "encode_routing_service service packet v =
     (if service = indication_service then
        Some (encode_payload (\<lambda>p. case p of Payload_indication f \<Rightarrow> Some f | _ \<Rightarrow> None) packet v
          encode_indication_packet)
      else if service = lost_message_service then
        Some (encode_payload (\<lambda>p. case p of Payload_lost_message f \<Rightarrow> Some f | _ \<Rightarrow> None) packet v
          encode_lost_message_packet)
      else if service = busy_service then
        Some (encode_payload (\<lambda>p. case p of Payload_busy f \<Rightarrow> Some f | _ \<Rightarrow> None) packet v
          encode_busy_packet)
      else None)"

definition encode_secure_service :: "u16 \<Rightarrow> bytes \<Rightarrow> datagram \<Rightarrow> (unit result \<times> bytes) option" where
  "encode_secure_service service packet v =
     (if service = wrapper_service then
        Some (encode_payload (\<lambda>p. case p of Payload_wrapper f \<Rightarrow> Some f | _ \<Rightarrow> None) packet v
          encode_wrapper_packet)
      else if service = session_request_service then
        Some (encode_payload (\<lambda>p. case p of Payload_session_request f \<Rightarrow> Some f | _ \<Rightarrow> None) packet v
          encode_session_request_packet)
      else if service = session_response_service then
        Some (encode_payload (\<lambda>p. case p of Payload_session_response f \<Rightarrow> Some f | _ \<Rightarrow> None) packet v
          encode_session_response_packet)
      else if service = session_authenticate_service then
        Some (encode_payload (\<lambda>p. case p of Payload_session_authenticate f \<Rightarrow> Some f | _ \<Rightarrow> None) packet v
          encode_session_authenticate_packet)
      else if service = session_status_service then
        Some (encode_payload (\<lambda>p. case p of Payload_session_status f \<Rightarrow> Some f | _ \<Rightarrow> None) packet v
          encode_session_status_packet)
      else if service = timer_notify_service then
        Some (encode_payload (\<lambda>p. case p of Payload_timer_notify f \<Rightarrow> Some f | _ \<Rightarrow> None) packet v
          encode_timer_notify_packet)
      else None)"

definition encode_datagram :: "bytes \<Rightarrow> datagram \<Rightarrow> unit result \<times> bytes" where
  "encode_datagram packet v =
     (let service = dg_service_type v
      in case encode_secure_service service packet v of Some r \<Rightarrow> r | None \<Rightarrow>
         (case encode_discovery_service service packet v of Some r \<Rightarrow> r | None \<Rightarrow>
         (case encode_connection_service service packet v of Some r \<Rightarrow> r | None \<Rightarrow>
         (case encode_tunnelling_service service packet v of Some r \<Rightarrow> r | None \<Rightarrow>
         (case encode_routing_service service packet v of Some r \<Rightarrow> r | None \<Rightarrow>
            (Inl Unsupported_service, packet))))))"

definition encode_response_datagram :: "bytes \<Rightarrow> datagram \<Rightarrow> byte \<Rightarrow> unit result \<times> bytes" where
  "encode_response_datagram packet request status =
     (case dg_payload request of
        Payload_tunnelling_request f \<Rightarrow>
          if dg_service_type request \<noteq> tunnelling_request_service then (Inl Invalid_configuration, packet)
          else encode_tunnelling_ack_packet packet (tr_channel_id f) (tr_sequence_number f) status
      | Payload_connectionstate_request f \<Rightarrow>
          if dg_service_type request \<noteq> connectionstate_request_service then (Inl Invalid_configuration, packet)
          else encode_connectionstate_response_packet packet \<lparr> ss_channel_id = sr_channel_id f, ss_status = status \<rparr>
      | Payload_disconnect_request f \<Rightarrow>
          if dg_service_type request \<noteq> disconnect_request_service then (Inl Invalid_configuration, packet)
          else encode_disconnect_response_packet packet \<lparr> ds_channel_id = dr_channel_id f, ds_status = status \<rparr>
      | _ \<Rightarrow> (Inl Unsupported_service, packet))"

subsection \<open>Which service carries which frame\<close>

text \<open>
  The services an alternative is read from, the octets that carry it, the C++ types' own
  well-formedness (array extents) and what the codec of the alternative accepts.
\<close>

fun payload_services :: "datagram_payload \<Rightarrow> u16 list" where
  "payload_services (Payload_search_request _) = [search_request_service]"
| "payload_services (Payload_ipv6_search_request _) = [search_request_service]"
| "payload_services (Payload_search_response _) = [search_response_service]"
| "payload_services (Payload_ipv6_search_response _) = [search_response_service]"
| "payload_services (Payload_description_request _) = [description_request_service]"
| "payload_services (Payload_description_response _) = [description_response_service]"
| "payload_services (Payload_extended_search_request _) = [search_request_extended_service]"
| "payload_services (Payload_extended_search_response _) = [search_response_extended_service]"
| "payload_services (Payload_connect_request _) = [connect_request_service]"
| "payload_services (Payload_ipv6_connect_request _) = [connect_request_service]"
| "payload_services (Payload_management_connect_request _) = [connect_request_service]"
| "payload_services (Payload_connect_response _) = [connect_response_service]"
| "payload_services (Payload_ipv6_connect_response _) = [connect_response_service]"
| "payload_services (Payload_management_connect_response _) = [connect_response_service]"
| "payload_services (Payload_connectionstate_request _) = [connectionstate_request_service]"
| "payload_services (Payload_connectionstate_response _) = [connectionstate_response_service]"
| "payload_services (Payload_disconnect_request _) = [disconnect_request_service]"
| "payload_services (Payload_disconnect_response _) = [disconnect_response_service]"
| "payload_services (Payload_indication _) = [indication_service]"
| "payload_services (Payload_lost_message _) = [lost_message_service]"
| "payload_services (Payload_busy _) = [busy_service]"
| "payload_services (Payload_tunnelling_request _) = [tunnelling_request_service]"
| "payload_services (Payload_tunnelling_ack _) = [tunnelling_ack_service, device_configuration_ack_service]"
| "payload_services (Payload_device_configuration _) = [device_configuration_request_service]"
| "payload_services (Payload_tunnelling_feature f) = [tf_service_type f]"
| "payload_services (Payload_wrapper _) = [wrapper_service]"
| "payload_services (Payload_session_request _) = [session_request_service]"
| "payload_services (Payload_session_response _) = [session_response_service]"
| "payload_services (Payload_session_authenticate _) = [session_authenticate_service]"
| "payload_services (Payload_session_status _) = [session_status_service]"
| "payload_services (Payload_timer_notify _) = [timer_notify_service]"

fun payload_wire :: "datagram_payload \<Rightarrow> bytes" where
  "payload_wire (Payload_search_request f) = search_request_wire f"
| "payload_wire (Payload_ipv6_search_request f) = ipv6_search_request_wire f"
| "payload_wire (Payload_search_response f) = search_response_wire f"
| "payload_wire (Payload_ipv6_search_response f) = ipv6_search_response_wire f"
| "payload_wire (Payload_description_request f) = description_request_wire f"
| "payload_wire (Payload_description_response f) = description_response_wire f"
| "payload_wire (Payload_extended_search_request f) = extended_search_request_wire f"
| "payload_wire (Payload_extended_search_response f) = extended_search_response_wire f"
| "payload_wire (Payload_connect_request f) = connect_request_wire f"
| "payload_wire (Payload_ipv6_connect_request f) = ipv6_connect_request_wire f"
| "payload_wire (Payload_management_connect_request f) = management_request_wire f"
| "payload_wire (Payload_connect_response f) = connect_response_wire f"
| "payload_wire (Payload_ipv6_connect_response f) = ipv6_connect_response_wire f"
| "payload_wire (Payload_management_connect_response f) = management_response_wire f"
| "payload_wire (Payload_connectionstate_request f) = connectionstate_request_wire f"
| "payload_wire (Payload_connectionstate_response f) = connectionstate_response_wire f"
| "payload_wire (Payload_disconnect_request f) = disconnect_request_wire f"
| "payload_wire (Payload_disconnect_response f) = disconnect_response_wire f"
| "payload_wire (Payload_indication f) = indication_wire f"
| "payload_wire (Payload_lost_message f) = lost_message_wire f"
| "payload_wire (Payload_busy f) = busy_wire f"
| "payload_wire (Payload_tunnelling_request f) = tunnelling_request_wire f"
| "payload_wire (Payload_tunnelling_ack f) = tunnelling_ack_wire f"
| "payload_wire (Payload_device_configuration f) = device_configuration_wire f"
| "payload_wire (Payload_tunnelling_feature f) = tunnelling_feature_wire f"
| "payload_wire (Payload_wrapper f) = wrapper_wire f"
| "payload_wire (Payload_session_request f) = session_request_wire f"
| "payload_wire (Payload_session_response f) = session_response_wire f"
| "payload_wire (Payload_session_authenticate f) = session_authenticate_wire f"
| "payload_wire (Payload_session_status f) = session_status_wire f"
| "payload_wire (Payload_timer_notify f) = timer_notify_wire f"

fun payload_wf :: "datagram_payload \<Rightarrow> bool" where
  "payload_wf (Payload_search_request f) \<longleftrightarrow> hpai_wf (sq_discovery_endpoint f)"
| "payload_wf (Payload_ipv6_search_request f) \<longleftrightarrow> ipv6_hpai_wf (sq6_discovery_endpoint f)"
| "payload_wf (Payload_search_response f) \<longleftrightarrow> hpai_wf (sa_control_endpoint f)"
| "payload_wf (Payload_ipv6_search_response f) \<longleftrightarrow> ipv6_hpai_wf (sa6_control_endpoint f)"
| "payload_wf (Payload_description_request f) \<longleftrightarrow> hpai_wf (dq_control_endpoint f)"
| "payload_wf (Payload_description_response _) \<longleftrightarrow> True"
| "payload_wf (Payload_extended_search_request f) \<longleftrightarrow> hpai_wf (xq_discovery_endpoint f)"
| "payload_wf (Payload_extended_search_response f) \<longleftrightarrow> hpai_wf (xs_control_endpoint f)"
| "payload_wf (Payload_connect_request f) \<longleftrightarrow> connect_request_wf f"
| "payload_wf (Payload_ipv6_connect_request f) \<longleftrightarrow> ipv6_connect_request_wf f"
| "payload_wf (Payload_management_connect_request f) \<longleftrightarrow> management_request_wf f"
| "payload_wf (Payload_connect_response f) \<longleftrightarrow> hpai_wf (cs_data_endpoint f)"
| "payload_wf (Payload_ipv6_connect_response f) \<longleftrightarrow> ipv6_hpai_wf (cs6_data_endpoint f)"
| "payload_wf (Payload_management_connect_response f) \<longleftrightarrow> hpai_wf (ms_data_endpoint f)"
| "payload_wf (Payload_connectionstate_request f) \<longleftrightarrow> hpai_wf (sr_control_endpoint f)"
| "payload_wf (Payload_connectionstate_response _) \<longleftrightarrow> True"
| "payload_wf (Payload_disconnect_request f) \<longleftrightarrow> hpai_wf (dr_control_endpoint f)"
| "payload_wf (Payload_disconnect_response _) \<longleftrightarrow> True"
| "payload_wf (Payload_indication _) \<longleftrightarrow> True"
| "payload_wf (Payload_lost_message _) \<longleftrightarrow> True"
| "payload_wf (Payload_busy _) \<longleftrightarrow> True"
| "payload_wf (Payload_tunnelling_request f) \<longleftrightarrow> tunnelling_request_wf f"
| "payload_wf (Payload_tunnelling_ack _) \<longleftrightarrow> True"
| "payload_wf (Payload_device_configuration f) \<longleftrightarrow> device_configuration_wf f"
| "payload_wf (Payload_tunnelling_feature f) \<longleftrightarrow> tunnelling_feature_wf f"
| "payload_wf (Payload_wrapper f) \<longleftrightarrow> wrapper_wf f"
| "payload_wf (Payload_session_request f) \<longleftrightarrow> session_request_wf f"
| "payload_wf (Payload_session_response f) \<longleftrightarrow> session_response_wf f"
| "payload_wf (Payload_session_authenticate f) \<longleftrightarrow> length (eu_mac f) = 16"
| "payload_wf (Payload_session_status _) \<longleftrightarrow> True"
| "payload_wf (Payload_timer_notify f) \<longleftrightarrow> timer_notify_wf f"

fun payload_ok :: "datagram_payload \<Rightarrow> bool" where
  "payload_ok (Payload_search_request f) \<longleftrightarrow> udp_endpoint (sq_discovery_endpoint f)"
| "payload_ok (Payload_ipv6_search_request f) \<longleftrightarrow> udp6_endpoint (sq6_discovery_endpoint f)"
| "payload_ok (Payload_search_response f) \<longleftrightarrow> udp_endpoint (sa_control_endpoint f) \<and> description_ok 14 (sa_device_info_blocks f) \<and>
     sa_device_info_blocks f \<noteq> []"
| "payload_ok (Payload_ipv6_search_response f) \<longleftrightarrow> udp6_endpoint (sa6_control_endpoint f) \<and> description_ok 26 (sa6_device_info_blocks f) \<and>
     sa6_device_info_blocks f \<noteq> []"
| "payload_ok (Payload_description_request f) \<longleftrightarrow> udp_endpoint (dq_control_endpoint f)"
| "payload_ok (Payload_description_response f) \<longleftrightarrow> description_ok 6 (da_device_info_blocks f) \<and> da_device_info_blocks f \<noteq> []"
| "payload_ok (Payload_extended_search_request f) \<longleftrightarrow> extended_search_request_ok f \<and>
     (\<forall>p \<in> set (xq_parameters f). even (length (sp_data p)))"
| "payload_ok (Payload_extended_search_response f) \<longleftrightarrow> udp_endpoint (xs_control_endpoint f) \<and> description_ok 14 (xs_device_info_blocks f)"
| "payload_ok (Payload_connect_request f) \<longleftrightarrow> connect_request_ok f"
| "payload_ok (Payload_ipv6_connect_request f) \<longleftrightarrow> ipv6_connect_request_ok f"
| "payload_ok (Payload_management_connect_request f) \<longleftrightarrow> management_request_ok f"
| "payload_ok (Payload_connect_response f) \<longleftrightarrow> connect_response_ok f"
| "payload_ok (Payload_ipv6_connect_response f) \<longleftrightarrow> ipv6_connect_response_ok f"
| "payload_ok (Payload_management_connect_response f) \<longleftrightarrow> management_response_ok f"
| "payload_ok (Payload_connectionstate_request f) \<longleftrightarrow> known_protocol (hpai_protocol (sr_control_endpoint f))"
| "payload_ok (Payload_connectionstate_response f) \<longleftrightarrow> valid_status (ss_status f)"
| "payload_ok (Payload_disconnect_request f) \<longleftrightarrow> known_protocol (hpai_protocol (dr_control_endpoint f))"
| "payload_ok (Payload_disconnect_response f) \<longleftrightarrow> valid_status (ds_status f)"
| "payload_ok (Payload_indication f) \<longleftrightarrow> indication_ok f"
| "payload_ok (Payload_lost_message _) \<longleftrightarrow> True"
| "payload_ok (Payload_busy _) \<longleftrightarrow> True"
| "payload_ok (Payload_tunnelling_request f) \<longleftrightarrow> tunnelling_request_ok f"
| "payload_ok (Payload_tunnelling_ack f) \<longleftrightarrow> ta_channel_id f \<noteq> 0"
| "payload_ok (Payload_device_configuration f) \<longleftrightarrow> device_configuration_ok f"
| "payload_ok (Payload_tunnelling_feature f) \<longleftrightarrow> tunnelling_feature_ok f"
| "payload_ok (Payload_wrapper f) \<longleftrightarrow> wrapper_ok f"
| "payload_ok (Payload_session_request f) \<longleftrightarrow> known_protocol (hpai_protocol (eq_control_endpoint f))"
| "payload_ok (Payload_session_response _) \<longleftrightarrow> True"
| "payload_ok (Payload_session_authenticate _) \<longleftrightarrow> True"
| "payload_ok (Payload_session_status f) \<longleftrightarrow> es_status f \<le> 5"
| "payload_ok (Payload_timer_notify _) \<longleftrightarrow> True"

text \<open>
  A datagram is of its service when the service carries that alternative and the codec of the
  alternative accepts the frame.  \<open>encode_datagram\<close> has no case for the two device configuration services,
  which \<open>decode_datagram\<close> reads: \<open>datagram_ok\<close> is a datagram of any other service.
\<close>

definition datagram_wf :: "datagram \<Rightarrow> bool" where
  "datagram_wf d \<longleftrightarrow> payload_wf (dg_payload d)"

definition datagram_of_service :: "datagram \<Rightarrow> bool" where
  "datagram_of_service d \<longleftrightarrow> payload_ok (dg_payload d) \<and> dg_service_type d \<in> set (payload_services (dg_payload d))"

definition configuration_service :: "u16 \<Rightarrow> bool" where
  "configuration_service s \<longleftrightarrow> s = device_configuration_request_service \<or> s = device_configuration_ack_service"

definition datagram_ok :: "datagram \<Rightarrow> bool" where
  "datagram_ok d \<longleftrightarrow> datagram_of_service d \<and> \<not> configuration_service (dg_service_type d)"

definition datagram_wire :: "datagram \<Rightarrow> bytes" where
  "datagram_wire d =
     (case dg_payload d of
        Payload_tunnelling_ack f \<Rightarrow>
          if dg_service_type d = device_configuration_ack_service then device_configuration_ack_wire f else tunnelling_ack_wire f
      | p \<Rightarrow> payload_wire p)"

text \<open>The answer to a request: its service, and the channel and sequence it repeats.\<close>

definition answers :: "datagram_payload \<Rightarrow> byte \<Rightarrow> datagram_payload \<Rightarrow> bool" where
  "answers request status answer \<longleftrightarrow>
     (case request of
        Payload_tunnelling_request f \<Rightarrow> answer = Payload_tunnelling_ack
          \<lparr> ta_channel_id = tr_channel_id f, ta_sequence_number = tr_sequence_number f, ta_status = status \<rparr>
      | Payload_connectionstate_request f \<Rightarrow> answer = Payload_connectionstate_response
          \<lparr> ss_channel_id = sr_channel_id f, ss_status = status \<rparr>
      | Payload_disconnect_request f \<Rightarrow> answer = Payload_disconnect_response
          \<lparr> ds_channel_id = dr_channel_id f, ds_status = status \<rparr>
      | _ \<Rightarrow> False)"

text \<open>The dispatch after the header has been read.\<close>

definition decode_service :: "u16 \<Rightarrow> bytes \<Rightarrow> nat \<Rightarrow> datagram result" where
  "decode_service service packet len =
     (case decode_discovery_service service packet len of Some d \<Rightarrow> d | None \<Rightarrow>
     (case decode_connection_service service packet len of Some d \<Rightarrow> d | None \<Rightarrow>
     (case decode_tunnelling_service service packet of Some d \<Rightarrow> d | None \<Rightarrow>
     (case decode_routing_service service packet of Some d \<Rightarrow> d | None \<Rightarrow>
     (case decode_secure_service service packet of Some d \<Rightarrow> d | None \<Rightarrow> Inl Unsupported_service)))))"

definition typed :: "u16 \<Rightarrow> datagram result option \<Rightarrow> bool" where
  "typed s r \<longleftrightarrow> (\<forall>d. r = Some (Inr d) \<longrightarrow> dg_service_type d = s \<and> s \<in> set (payload_services (dg_payload d)))"

definition in_bounds :: "bytes \<Rightarrow> (unit result \<times> bytes) option \<Rightarrow> bool" where
  "in_bounds d r \<longleftrightarrow> (\<forall>x. r = Some x \<longrightarrow> length (snd x) = length d)"

subsection \<open>Lemmas\<close>

lemmas service_values = search_request_service_def search_response_service_def description_request_service_def
  description_response_service_def search_request_extended_service_def search_response_extended_service_def
  connect_request_service_def connect_response_service_def connectionstate_request_service_def
  connectionstate_response_service_def disconnect_request_service_def disconnect_response_service_def
  tunnelling_request_service_def tunnelling_ack_service_def device_configuration_request_service_def
  device_configuration_ack_service_def tunnelling_feature_get_service_def tunnelling_feature_response_service_def
  tunnelling_feature_set_service_def tunnelling_feature_info_service_def indication_service_def
  lost_message_service_def busy_service_def session_request_service_def session_response_service_def
  session_authenticate_service_def session_status_service_def wrapper_service_def timer_notify_service_def

lemma decode_datagram_packet:
  assumes "6 + length b < 65536"
  shows "decode_datagram (knx_packet s b) = decode_service s (knx_packet s b) (6 + length b)"
  using assms unat_u16_of_nat [of "6 + length b"]
  by (simp add: decode_datagram_def decode_header_wire decode_service_def Let_def)

lemma decode_datagram_accepts:
  assumes "decode_datagram packet = Inr d"
  obtains s b where "packet = knx_packet s b" "length b < 65530" "decode_service s packet (length packet) = Inr d"
proof -
  from assms obtain h where h: "decode_communication_header packet = Inr h" "unat (ch_total_length h) = length packet"
    by (auto simp: decode_datagram_def split: sum.splits if_splits)
  have p: "packet = knx_packet (ch_service_type h) (drop 6 packet)" and l: "6 \<le> length packet"
    using decode_header_sound [OF h] .
  have "length packet < 65536" using h(2) unat_u16_less [of "ch_total_length h"] by simp
  with l have b: "length (drop 6 packet) < 65530" by simp
  have "decode_service (ch_service_type h) packet (length packet) = Inr d"
    using assms h decode_header_fields [OF h(1)]
    by (simp add: decode_datagram_def decode_service_def Let_def split: if_splits)
  with p b that show ?thesis by blast
qed

text \<open>Every branch of the dispatch yields a datagram of the service it was asked for.\<close>

lemma as_datagram_iff:
  "as_datagram wrap s p dec = Inr d \<longleftrightarrow> (\<exists>v. dec p = Inr v \<and> d = \<lparr> dg_service_type = s, dg_payload = wrap v \<rparr>)"
  by (auto simp: as_datagram_def split: sum.splits)

lemma fallback_iff:
  "(case r of Inr v \<Rightarrow> Inr (g v) | Inl _ \<Rightarrow> q) = Inr d \<longleftrightarrow> (\<exists>v. r = Inr v \<and> d = g v) \<or> (\<exists>e. r = Inl e) \<and> q = Inr d"
  by (auto split: sum.splits)

lemma knx_packet_inject: "knx_packet s b = knx_packet s' b' \<longleftrightarrow> s = s' \<and> b = b'"
proof
  assume e: "knx_packet s b = knx_packet s' b'"
  then have "hi8 s = hi8 s'" "lo8 s = lo8 s'" "b = b'" by (simp_all add: knx_packet_def header_wire_def)
  then show "s = s' \<and> b = b'" by (metis be16_hi_lo)
qed simp

lemma feature_service:
  assumes "decode_tunnelling_feature_packet (knx_packet s b) = Inr f"
  shows "tf_service_type f = s"
proof -
  have "knx_packet s b = tunnelling_feature_wire f" using assms tunnelling_features_canonical.decode_iff by blast
  then show ?thesis by (simp add: tunnelling_feature_wire_def knx_packet_inject)
qed

lemma as_datagram_typed:
  assumes "\<And>v. dec p = Inr v \<Longrightarrow> s \<in> set (payload_services (wrap v))"
  shows "typed s (Some (as_datagram wrap s p dec))"
  using assms by (auto simp: typed_def as_datagram_iff)

lemma fallback_typed:
  assumes "\<And>v. s \<in> set (payload_services (wrap v))" "typed s (Some q)"
  shows "typed s (Some (case r of Inr v \<Rightarrow> Inr \<lparr> dg_service_type = s, dg_payload = wrap v \<rparr> | Inl _ \<Rightarrow> q))"
  using assms by (auto simp: typed_def fallback_iff)

lemma typed_None [simp]: "typed s None"
  by (simp add: typed_def)

lemma typed_if:
  "(c \<Longrightarrow> typed s r) \<Longrightarrow> (\<not> c \<Longrightarrow> typed s r') \<Longrightarrow> typed s (if c then r else r')"
  "(c \<Longrightarrow> typed s (Some q)) \<Longrightarrow> (\<not> c \<Longrightarrow> typed s (Some q')) \<Longrightarrow> typed s (Some (if c then q else q'))"
  by simp_all

lemma decode_group_typed:
  "typed s (decode_discovery_service s p n)" "typed s (decode_connection_service s p n)"
  "typed s (decode_routing_service s p)" "typed s (decode_secure_service s p)"
  unfolding decode_discovery_service_def decode_connection_service_def decode_routing_service_def
    decode_secure_service_def decode_connect_request_def decode_connect_response_def
  by (intro typed_if as_datagram_typed fallback_typed typed_None; simp)+

lemma decode_tunnelling_typed: "typed s (decode_tunnelling_service s (knx_packet s b))"
  unfolding decode_tunnelling_service_def
  by (intro typed_if as_datagram_typed typed_None; simp add: feature_service)

lemma decode_service_typed:
  assumes "decode_service s (knx_packet s b) n = Inr d"
  shows "dg_service_type d = s \<and> s \<in> set (payload_services (dg_payload d))"
  using assms decode_group_typed [where s = s and p = "knx_packet s b"] decode_tunnelling_typed [of s b]
  by (auto simp: typed_def decode_service_def split: option.splits)

text \<open>Each alternative that is written is a packet of its service, and is read back as itself.\<close>

lemmas wire_defs = search_request_wire_def ipv6_search_request_wire_def search_response_wire_def
  ipv6_search_response_wire_def description_request_wire_def description_response_wire_def
  extended_search_request_wire_def extended_search_response_wire_def connect_request_wire_def
  ipv6_connect_request_wire_def management_request_wire_def connect_response_wire_def ipv6_connect_response_wire_def
  management_response_wire_def connectionstate_request_wire_def connectionstate_response_wire_def
  disconnect_request_wire_def disconnect_response_wire_def indication_wire_def lost_message_wire_def busy_wire_def
  tunnelling_request_wire_def tunnelling_ack_wire_def device_configuration_wire_def tunnelling_feature_wire_def
  wrapper_wire_def session_request_wire_def session_response_wire_def session_authenticate_wire_def
  session_status_wire_def timer_notify_wire_def

lemma requested_wire_length: "length (requested_wire r) \<le> 2"
  by (simp add: requested_wire_def split: option.split)

lemma cemi_image_length: "cemi_decode b = Inr f \<Longrightarrow> length b \<le> 520"
  using cemi_decode_size [of b f] by (simp add: cemi_min_max)

lemma packet_ex: "(\<exists>b. knx_packet s x = knx_packet s' b \<and> length b < n) \<longleftrightarrow> s = s' \<and> length x < n"
  by (auto simp: knx_packet_inject)

lemma payload_wire_packet:
  assumes "payload_wf p" "payload_ok p" "s \<in> set (payload_services p)" "s \<noteq> device_configuration_ack_service"
  shows "\<exists>b. payload_wire p = knx_packet s b \<and> length b < 65530"
proof (cases p)
  case (Payload_connect_request f)
  then show ?thesis using assms requested_wire_length [of "cr_requested_address f"]
    by (simp add: packet_ex connect_request_wire_def connect_request_wf_def)
next
  case (Payload_indication f)
  then show ?thesis using assms cemi_image_length [of "in_cemi_bytes f"]
    by (simp add: packet_ex indication_wire_def indication_ok_def)
next
  case (Payload_tunnelling_request f)
  then show ?thesis using assms cemi_image_length [of "tr_cemi_bytes f"]
    by (simp add: packet_ex tunnelling_request_wire_def tunnelling_request_ok_def)
qed (use assms in \<open>simp add: packet_ex wire_defs description_ok_def frame_sizes extended_search_request_ok_def
    ipv6_connect_request_wf_def management_request_wf_def session_request_wf_def session_response_wf_def
    timer_notify_wf_def wrapper_wf_def wrapper_ok_def device_configuration_ok_def tunnelling_feature_ok_def
    cemi_min_max\<close>)+

text \<open>Reading back what was written\<close>

lemmas decode_dispatch = decode_service_def decode_discovery_service_def decode_connection_service_def
  decode_tunnelling_service_def decode_routing_service_def decode_secure_service_def as_datagram_def

lemma valid_blocks_length: "valid_blocks bs \<Longrightarrow> bs \<noteq> [] \<Longrightarrow> 2 \<le> length bs"
  by (subst (asm) valid_blocks.simps) (auto simp: dib_sizes Let_def split: if_splits)

lemma search_response_not_ipv6:
  assumes "hpai_wf (sa_control_endpoint f)"
  shows "\<exists>e. decode_ipv6_search_response_packet (search_response_wire f) = Inl e"
proof (cases "decode_ipv6_search_response_packet (search_response_wire f)")
  case (Inr v)
  then have "search_response_wire f = ipv6_search_response_wire v" by (simp add: decode_ipv6_search_response_iff)
  then have False
    by (simp add: search_response_wire_def ipv6_search_response_wire_def knx_packet_inject hpai_wire_def ipv6_hpai_wire_def)
  then show ?thesis ..
qed simp

lemmas decode_wires = search_request.decode_wire ipv6_search_request.decode_wire search_response.decode_wire
  ipv6_search_response.decode_wire description_request.decode_wire description_response.decode_wire
  extended_search_request.decode_wire extended_search_response.decode_wire connect_request.decode_wire
  ipv6_connect_request.decode_wire management_request.decode_wire connect_response.decode_wire
  ipv6_connect_response.decode_wire management_response.decode_wire connectionstate_request.decode_wire
  connectionstate_response.decode_wire disconnect_request.decode_wire disconnect_response.decode_wire
  indication.decode_wire lost_message.decode_wire busy.decode_wire tunnelling_request.decode_wire
  tunnelling_ack.decode_wire device_configuration.decode_wire tunnelling_features.decode_wire
  wrapper.decode_wire session_request.decode_wire session_response.decode_wire
  session_authenticate.decode_wire session_status.decode_wire timer_notify.decode_wire

lemmas encode_wires = search_request.encode_wire ipv6_search_request.encode_wire search_response.encode_wire
  ipv6_search_response.encode_wire description_request.encode_wire description_response.encode_wire
  extended_search_request.encode_wire extended_search_response.encode_wire connect_request.encode_wire
  ipv6_connect_request.encode_wire management_request.encode_wire connect_response.encode_wire
  ipv6_connect_response.encode_wire management_response.encode_wire connectionstate_request.encode_wire
  connectionstate_response.encode_wire disconnect_request.encode_wire disconnect_response.encode_wire
  indication.encode_wire lost_message.encode_wire busy.encode_wire tunnelling_request.encode_wire
  tunnelling_ack.encode_wire device_configuration.encode_wire tunnelling_features.encode_wire
  wrapper.encode_wire session_request.encode_wire session_response.encode_wire
  session_authenticate.encode_wire session_status.encode_wire timer_notify.encode_wire

lemmas encode_bounds = search_request.encode_bounds ipv6_search_request.encode_bounds
  search_response.encode_bounds ipv6_search_response.encode_bounds description_request.encode_bounds
  description_response.encode_bounds extended_search_request.encode_bounds
  extended_search_response.encode_bounds connect_request.encode_bounds ipv6_connect_request.encode_bounds
  management_request.encode_bounds connect_response.encode_bounds ipv6_connect_response.encode_bounds
  management_response.encode_bounds connectionstate_request.encode_bounds
  connectionstate_response.encode_bounds disconnect_request.encode_bounds disconnect_response.encode_bounds
  indication.encode_bounds lost_message.encode_bounds busy.encode_bounds tunnelling_request.encode_bounds
  tunnelling_ack.encode_bounds device_configuration.encode_bounds tunnelling_features.encode_bounds
  wrapper.encode_bounds session_request.encode_bounds session_response.encode_bounds
  session_authenticate.encode_bounds session_status.encode_bounds timer_notify.encode_bounds

lemma decode_service_wire:
  assumes "payload_wf p" "payload_ok p" "s \<in> set (payload_services p)"
    "s \<noteq> device_configuration_ack_service"
  shows "decode_service s (payload_wire p) (length (payload_wire p)) = Inr \<lparr> dg_service_type = s, dg_payload = p \<rparr>"
proof (cases p)
  case (Payload_search_request f)
  then show ?thesis using assms search_request.decode_wire [of f]
    by (simp add: decode_dispatch search_request_wire_def discovery_sizes)
next
  case (Payload_ipv6_search_request f)
  then show ?thesis using assms ipv6_search_request.decode_wire [of f]
    by (simp add: decode_dispatch ipv6_search_request_wire_def discovery_sizes)
next
  case (Payload_search_response f)
  then obtain e where "decode_ipv6_search_response_packet (search_response_wire f) = Inl e"
    using search_response_not_ipv6 assms by fastforce
  then show ?thesis using assms search_response.decode_wire [of f] Payload_search_response
    by (simp add: decode_dispatch service_values)
next
  case (Payload_ipv6_search_response f)
  then have "28 \<le> length (ipv6_search_response_wire f)"
    using assms valid_blocks_length [of "sa6_device_info_blocks f"]
    by (simp add: ipv6_search_response_wire_def description_ok_def)
  then show ?thesis using assms ipv6_search_response.decode_wire [of f] Payload_ipv6_search_response
    by (simp add: decode_dispatch service_values discovery_sizes)
next
  case (Payload_connect_request f)
  then show ?thesis using assms connect_request.decode_wire [of f] requested_wire_length [of "cr_requested_address f"]
    by (simp add: decode_dispatch service_values decode_connect_request_def)
       (simp add: connect_request_wire_def connection_sizes connect_request_wf_def)
next
  case (Payload_tunnelling_feature f)
  then show ?thesis using assms tunnelling_features.decode_wire [of f]
    by (auto simp: decode_dispatch service_values tunnelling_feature_ok_def is_tunnelling_feature_service_def)
qed (use assms in \<open>simp add: decode_dispatch service_values decode_connect_request_def decode_connect_response_def
    decode_wires; simp add: wire_defs connection_sizes ipv6_connect_request_wf_def management_request_wf_def decode_wires\<close>)+

lemmas datagram_ok_defs = datagram_ok_def datagram_of_service_def configuration_service_def

lemma datagram_wire_payload:
  "dg_service_type d \<noteq> device_configuration_ack_service \<Longrightarrow> datagram_wire d = payload_wire (dg_payload d)"
  by (simp add: datagram_wire_def split: datagram_payload.split)

lemma decode_datagram_wire:
  assumes "datagram_wf d" "datagram_of_service d"
  shows "decode_datagram (datagram_wire d) = Inr d"
proof (cases "dg_service_type d = device_configuration_ack_service")
  case True
  then obtain f where f: "dg_payload d = Payload_tunnelling_ack f" "ta_channel_id f \<noteq> 0"
    using assms by (cases "dg_payload d")
      (auto simp: datagram_of_service_def service_values tunnelling_feature_ok_def is_tunnelling_feature_service_def)
  have "decode_device_configuration_ack_packet (device_configuration_ack_wire f) = Inr f"
    using configuration_ack.decode_wire f(2) by simp
  with True f show ?thesis
    by (cases d) (simp add: datagram_wire_def device_configuration_ack_wire_def decode_datagram_packet connection_wire_def
      decode_dispatch service_values)
next
  case False
  have p: "payload_wf (dg_payload d)" "payload_ok (dg_payload d)" "dg_service_type d \<in> set (payload_services (dg_payload d))"
    using assms by (simp_all add: datagram_wf_def datagram_of_service_def)
  obtain b where "payload_wire (dg_payload d) = knx_packet (dg_service_type d) b" "length b < 65530"
    using payload_wire_packet [OF p False] by blast
  then show ?thesis using decode_service_wire [OF p False] by (simp add: datagram_wire_payload [OF False] decode_datagram_packet)
qed

text \<open>Writing\<close>

lemmas encode_dispatch = encode_secure_service_def encode_discovery_service_def encode_connection_service_def
  encode_tunnelling_service_def encode_routing_service_def encode_search_request_def encode_search_response_def
  encode_connect_request_def encode_connect_response_def encode_payload_def

lemma encode_tunnelling_request_eq:
  "tr_cemi_bytes f \<noteq> [] \<Longrightarrow> encode_tunnelling d f = encode_request d f"
  by (simp add: encode_tunnelling_def encode_request_def)

lemma cemi_nonempty: "cemi_decode b = Inr f \<Longrightarrow> b \<noteq> []"
  using cemi_decode_size(1) [of b f] by auto

lemma encode_datagram_wire:
  assumes "payload_wf p" "payload_ok p" "s \<in> set (payload_services p)"
    "s \<noteq> device_configuration_request_service" "s \<noteq> device_configuration_ack_service"
    "length (payload_wire p) \<le> length d"
  shows "encode_datagram d \<lparr> dg_service_type = s, dg_payload = p \<rparr> = (Inr (), write_at d 0 (payload_wire p))"
proof (cases p)
  case (Payload_tunnelling_request f)
  then show ?thesis using assms encode_wires
    by (simp add: encode_datagram_def Let_def encode_dispatch service_values encode_tunnelling_request_eq
      tunnelling_request_ok_def cemi_nonempty)
next
  case (Payload_tunnelling_feature f)
  then show ?thesis using assms tunnelling_features.encode_wire [of f d]
    by (auto simp: encode_datagram_def Let_def encode_dispatch service_values tunnelling_feature_ok_def
      is_tunnelling_feature_service_def)
qed (use assms in \<open>simp add: encode_datagram_def Let_def encode_dispatch service_values encode_wires\<close>)+

lemma encode_tunnelling_bounds: "tunnelling_request_wf f \<Longrightarrow> length (snd (encode_tunnelling d f)) = length d"
  using tunnelling_request.encode_bounds [of f d] by (simp add: encode_tunnelling_def encode_request_def)

lemma in_bounds_if: "(c \<Longrightarrow> in_bounds d r) \<Longrightarrow> (\<not> c \<Longrightarrow> in_bounds d r') \<Longrightarrow> in_bounds d (if c then r else r')"
  by simp

lemma in_bounds_None: "in_bounds d None"
  by (simp add: in_bounds_def)

lemma encode_payload_bounds:
  assumes "\<And>f. get_if (dg_payload v) = Some f \<Longrightarrow> length (snd (enc d f)) = length d"
  shows "in_bounds d (Some (encode_payload get_if d v enc))"
  using assms by (auto simp: in_bounds_def encode_payload_def split: option.split)

lemma encode_group_bounds:
  assumes "payload_wf (dg_payload v)"
  shows "in_bounds d (encode_secure_service s d v)" "in_bounds d (encode_routing_service s d v)"
    "in_bounds d (encode_tunnelling_service s d v)" "in_bounds d (encode_connection_service s d v)"
    "in_bounds d (encode_discovery_service s d v)"
  unfolding encode_dispatch(1-5)
  by (intro in_bounds_if in_bounds_None encode_payload_bounds; cases "dg_payload v";
      use assms in \<open>simp add: in_bounds_def encode_dispatch(6-10) encode_bounds encode_tunnelling_bounds\<close>)+

interpretation datagram: packet_codec datagram_wire datagram_wf datagram_ok encode_datagram decode_datagram
proof
  fix d :: bytes and v :: datagram
  assume wf: "datagram_wf v"
  show "encode_datagram d v = (Inr (), write_at d 0 (datagram_wire v))" if "datagram_ok v" "length (datagram_wire v) \<le> length d"
    using encode_datagram_wire [of "dg_payload v" "dg_service_type v" d] wf that
    by (cases v) (simp add: datagram_wf_def datagram_ok_defs datagram_wire_payload)
  show "length (snd (encode_datagram d v)) = length d"
    using wf encode_group_bounds [of v d "dg_service_type v"]
    by (simp add: datagram_wf_def encode_datagram_def Let_def in_bounds_def split: option.split)
  show "decode_datagram (datagram_wire v) = Inr v" if "datagram_ok v"
    using wf that decode_datagram_wire by (simp add: datagram_ok_def)
qed

text \<open>Answers\<close>

lemma encode_response_cases:
  assumes "encode_response_datagram p r st = (Inr (), p')"
  obtains v where "answers (dg_payload r) st v" "payload_wf v" "payload_ok v"
    "payload_services (dg_payload r) = [dg_service_type r]" "length (payload_wire v) \<le> length p"
    "p' = write_at p 0 (payload_wire v)"
proof (cases "dg_payload r")
  case (Payload_tunnelling_request f)
  let ?a = "\<lparr> ta_channel_id = tr_channel_id f, ta_sequence_number = tr_sequence_number f, ta_status = st \<rparr>"
  have "encode_ack p ?a = (Inr (), p')"
    using assms Payload_tunnelling_request by (simp add: encode_response_datagram_def encode_ack_def split: if_splits)
  with tunnelling_ack.encode_ok_iff [where x = ?a and d = p] tunnelling_ack.encode_wire [where x = ?a and d = p] show ?thesis
    using assms Payload_tunnelling_request
    by (intro that [of "Payload_tunnelling_ack ?a"])
      (auto simp: answers_def encode_response_datagram_def split: if_splits)
next
  case (Payload_connectionstate_request f)
  let ?a = "\<lparr> ss_channel_id = sr_channel_id f, ss_status = st \<rparr>"
  have "encode_connectionstate_response_packet p ?a = (Inr (), p')"
    using assms Payload_connectionstate_request by (simp add: encode_response_datagram_def split: if_splits)
  with connectionstate_response.encode_ok_iff [where x = ?a and d = p] connectionstate_response.encode_wire [where x = ?a and d = p] show ?thesis
    using assms Payload_connectionstate_request
    by (intro that [of "Payload_connectionstate_response ?a"])
      (auto simp: answers_def encode_response_datagram_def split: if_splits)
next
  case (Payload_disconnect_request f)
  let ?a = "\<lparr> ds_channel_id = dr_channel_id f, ds_status = st \<rparr>"
  have "encode_disconnect_response_packet p ?a = (Inr (), p')"
    using assms Payload_disconnect_request by (simp add: encode_response_datagram_def split: if_splits)
  with disconnect_response.encode_ok_iff [where x = ?a and d = p] disconnect_response.encode_wire [where x = ?a and d = p] show ?thesis
    using assms Payload_disconnect_request
    by (intro that [of "Payload_disconnect_response ?a"])
      (auto simp: answers_def encode_response_datagram_def split: if_splits)
qed (use assms in \<open>simp_all add: encode_response_datagram_def\<close>)

lemma answer_readable:
  assumes "answers request status v" "payload_wf v" "payload_ok v"
  shows "decode_datagram (payload_wire v) = Inr \<lparr> dg_service_type = hd (payload_services v), dg_payload = v \<rparr>"
proof -
  let ?r = "\<lparr> dg_service_type = hd (payload_services v), dg_payload = v \<rparr>"
  have "datagram_wf ?r" "datagram_ok ?r"
    using assms by (auto simp: datagram_wf_def datagram_ok_defs answers_def service_values split: datagram_payload.splits)
  then show ?thesis using decode_datagram_wire [of ?r] datagram_wire_payload [of ?r] by (simp add: datagram_ok_defs)
qed

lemma encode_configuration_refused:
  "configuration_service (dg_service_type v) \<Longrightarrow> encode_datagram d v = (Inl Unsupported_service, d)"
  by (auto simp: configuration_service_def encode_datagram_def encode_dispatch service_values Let_def)

lemma decoded_tunnelling_alternative:
  assumes "decode_service s packet n = Inr v"
  shows "s = tunnelling_request_service \<Longrightarrow> \<exists>f. dg_payload v = Payload_tunnelling_request f"
    "s = device_configuration_request_service \<Longrightarrow> \<exists>f. dg_payload v = Payload_device_configuration f"
    "s = tunnelling_ack_service \<Longrightarrow> \<exists>f. dg_payload v = Payload_tunnelling_ack f"
    "s = device_configuration_ack_service \<Longrightarrow> \<exists>f. dg_payload v = Payload_tunnelling_ack f"
  using assms by (auto simp: decode_service_def decode_discovery_service_def decode_connection_service_def
    decode_tunnelling_service_def service_values as_datagram_iff)

subsection \<open>Properties\<close>

text \<open>
  C32: writing and reading datagrams.  Take a frame that its own codec both writes and reads
  (\<open>payload_ok\<close>, which leaves out what an encoder writes and its decoder refuses or reads otherwise:
  discovery responses without a description block, search parameters of odd length, which are padded, and
  management responses with an undefined status).  A datagram of a service other than the two device configuration services is written by \<open>encode_datagram\<close> within the buffer, leaving the
  octets behind it alone, and \<open>decode_datagram\<close> reads exactly that datagram back, although several
  alternatives share one service type and are told apart by length or by trial.  A datagram of a device
  configuration service is read by \<open>decode_datagram\<close> but refused by \<open>encode_datagram\<close>, which has no case for
  those services although \<open>datagram.hpp\<close> documents it without that exception; the buffer is then untouched.
\<close>

theorem datagram_roundtrip:
  assumes "datagram_wf v" "datagram_of_service v" "length (datagram_wire v) \<le> length d"
  shows "if configuration_service (dg_service_type v)
    then encode_datagram d v = (Inl Unsupported_service, d) \<and> decode_datagram (datagram_wire v) = Inr v
    else \<exists>d'. encode_datagram d v = (Inr (), d') \<and> length d' = length d \<and>
      drop (length (datagram_wire v)) d' = drop (length (datagram_wire v)) d \<and>
      decode_datagram (take (length (datagram_wire v)) d') = Inr v"
  using assms encode_configuration_refused [of v d] decode_datagram_wire datagram.round_trip [of v d]
  by (simp add: datagram_ok_def)

theorem datagram_roundtrip_witness:
  "(\<exists>d'. encode_datagram (replicate 12 0xFF) \<lparr> dg_service_type = 0x0421, dg_payload = Payload_tunnelling_ack
       \<lparr> ta_channel_id = 7, ta_sequence_number = 3, ta_status = 0 \<rparr> \<rparr> = (Inr (), d') \<and>
     length d' = 12 \<and>
     decode_datagram (take 10 d') = Inr \<lparr> dg_service_type = 0x0421, dg_payload = Payload_tunnelling_ack
       \<lparr> ta_channel_id = 7, ta_sequence_number = 3, ta_status = 0 \<rparr> \<rparr>) \<and>
   encode_datagram (replicate 12 0xFF) \<lparr> dg_service_type = 0x0311, dg_payload = Payload_tunnelling_ack
       \<lparr> ta_channel_id = 7, ta_sequence_number = 3, ta_status = 0 \<rparr> \<rparr> = (Inl Unsupported_service, replicate 12 0xFF)"
  using datagram_roundtrip [of "\<lparr> dg_service_type = 0x0421, dg_payload = Payload_tunnelling_ack
       \<lparr> ta_channel_id = 7, ta_sequence_number = 3, ta_status = 0 \<rparr> \<rparr>" "replicate 12 0xFF"]
    datagram_roundtrip [of "\<lparr> dg_service_type = 0x0311, dg_payload = Payload_tunnelling_ack
       \<lparr> ta_channel_id = 7, ta_sequence_number = 3, ta_status = 0 \<rparr> \<rparr>" "replicate 12 0xFF"]
  by (auto simp: datagram_wf_def datagram_of_service_def configuration_service_def datagram_wire_def tunnelling_ack_wire_def
    device_configuration_ack_wire_def service_values)

text \<open>
  C33: a decoded datagram is well typed: its alternative is one of those its service type names, the
  service type is the one of the packet's header, and the header's length is the packet's.  In particular
  a TUNNELLING_REQUEST and a DEVICE_CONFIGURATION_REQUEST decode to different alternatives, against the
  comment of \<open>datagram.hpp\<close>, which says they share a frame type; it is their acknowledgements that do.
\<close>

theorem decoded_datagram_typed:
  assumes "decode_datagram packet = Inr d"
  shows "dg_service_type d \<in> set (payload_services (dg_payload d)) \<and>
    decode_communication_header packet = Inr \<lparr> ch_protocol_version = 0x10, ch_service_type = dg_service_type d,
      ch_total_length = word_of_nat (length packet) \<rparr> \<and> length packet < 65536 \<and>
    (dg_service_type d = tunnelling_request_service \<longrightarrow> (\<exists>f. dg_payload d = Payload_tunnelling_request f)) \<and>
    (dg_service_type d = device_configuration_request_service \<longrightarrow> (\<exists>f. dg_payload d = Payload_device_configuration f)) \<and>
    (dg_service_type d \<in> {tunnelling_ack_service, device_configuration_ack_service} \<longrightarrow>
      (\<exists>f. dg_payload d = Payload_tunnelling_ack f))"
  using assms
proof (rule decode_datagram_accepts)
  fix s b
  assume p: "packet = knx_packet s b" "length b < 65530" "decode_service s packet (length packet) = Inr d"
  then have "dg_service_type d = s" "s \<in> set (payload_services (dg_payload d))"
    using decode_service_typed [of s b "length packet" d] by simp_all
  then show ?thesis using p(1,2) decoded_tunnelling_alternative [OF p(3)] by (simp add: decode_header_wire)
qed

theorem decoded_datagram_typed_witness:
  "\<exists>d f. decode_datagram [6, 0x10, 4, 0x21, 0, 10, 4, 7, 3, 0] = Inr d \<and>
     dg_service_type d \<in> set (payload_services (dg_payload d)) \<and> dg_service_type d = 0x0421 \<and>
     dg_payload d = Payload_tunnelling_ack f"
proof -
  let ?d = "\<lparr> dg_service_type = 0x0421, dg_payload = Payload_tunnelling_ack
       \<lparr> ta_channel_id = 7, ta_sequence_number = 3, ta_status = 0 \<rparr> \<rparr>"
  have "datagram_wire ?d = [6, 0x10, 4, 0x21, 0, 10, 4, 7, 3, 0]"
    by (simp add: datagram_wire_def tunnelling_ack_wire_def service_values knx_packet_def header_wire_def
      connection_wire_def hi8_def lo8_def)
  then have "decode_datagram [6, 0x10, 4, 0x21, 0, 10, 4, 7, 3, 0] = Inr ?d"
    using decode_datagram_wire [of ?d] by (simp add: datagram_wf_def datagram_of_service_def service_values)
  with decoded_datagram_typed [OF this] show ?thesis by simp
qed

text \<open>
  An answer built from a request is a datagram of the answering service that repeats the
  request's channel (and, for a tunnelling request, its sequence number) with the given status; it
  is read back as such, and nothing else in the buffer changes.
\<close>

theorem response_answers_request:
  assumes "encode_response_datagram p request status = (Inr (), p')"
  shows "\<exists>v n. answers (dg_payload request) status v \<and> n \<le> length p \<and>
    decode_datagram (take n p') = Inr \<lparr> dg_service_type = hd (payload_services v), dg_payload = v \<rparr> \<and>
    length p' = length p \<and> drop n p' = drop n p"
  using assms
proof (rule encode_response_cases)
  fix v
  assume v: "answers (dg_payload request) status v" "payload_wf v" "payload_ok v"
    "length (payload_wire v) \<le> length p" "p' = write_at p 0 (payload_wire v)"
  have "decode_datagram (payload_wire v) = Inr \<lparr> dg_service_type = hd (payload_services v), dg_payload = v \<rparr>"
    using v(1-3) by (rule answer_readable)
  with v show ?thesis by (intro exI [of _ v] exI [of _ "length (payload_wire v)"]) simp
qed

theorem response_answers_request_witness:
  "\<exists>v p'. encode_response_datagram (replicate 8 0) \<lparr> dg_service_type = 0x0209, dg_payload = Payload_disconnect_request
       \<lparr> dr_channel_id = 9, dr_control_endpoint = sample_hpai \<rparr> \<rparr> 0 = (Inr (), p') \<and>
     answers (Payload_disconnect_request \<lparr> dr_channel_id = 9, dr_control_endpoint = sample_hpai \<rparr>) 0 v"
proof -
  let ?a = "\<lparr> ds_channel_id = 9, ds_status = 0 \<rparr> :: disconnect_response_frame"
  have "encode_disconnect_response_packet (replicate 8 0) ?a = (Inr (), write_at (replicate 8 0) 0 (disconnect_response_wire ?a))"
    by (rule disconnect_response.encode_wire) (simp_all add: valid_status_def no_error_def disconnect_response_wire_def)
  then have "encode_response_datagram (replicate 8 0) \<lparr> dg_service_type = 0x0209, dg_payload = Payload_disconnect_request
       \<lparr> dr_channel_id = 9, dr_control_endpoint = sample_hpai \<rparr> \<rparr> 0 =
     (Inr (), write_at (replicate 8 0) 0 (disconnect_response_wire ?a))"
    by (simp add: encode_response_datagram_def service_values)
  with response_answers_request [OF this] show ?thesis by auto
qed

end
