(* ===== verification/Knx_Session.thy ===== *)
theory Knx_Session
  imports Knx_Datagram
begin

section \<open>The tunnelling session\<close>

text \<open>
  The protocol state machine of \<open>knx/tunnelling_session.hpp\<close> and \<open>knx/tunnelling_session.cpp\<close>, which
  does no I/O and reads no clock: a caller asks it for packets and feeds back frames and expired
  deadlines.  An operation takes the session and returns its outcome, the packet buffer it was given
  where it writes one, and the session after it.  Counters keep the widths the class declares, and the
  deadline comparisons are the 32-bit signed differences of the source.
\<close>

subsection \<open>Configuration and state\<close>

record tunnelling_config =
  tc_max_retries :: u16
  tc_ack_timeout_ms :: u32
  tc_connect_timeout_ms :: u32
  tc_connectionstate_timeout_ms :: u32
  tc_disconnect_timeout_ms :: u32
  tc_heartbeat_interval_ms :: u32
  tc_heartbeat_failure_limit :: byte
  tc_inactivity_timeout_ms :: u32

definition default_tunnelling_config :: tunnelling_config where
  "default_tunnelling_config = \<lparr> tc_max_retries = 2, tc_ack_timeout_ms = 1000, tc_connect_timeout_ms = 10000,
     tc_connectionstate_timeout_ms = 10000, tc_disconnect_timeout_ms = 10000, tc_heartbeat_interval_ms = 60000,
     tc_heartbeat_failure_limit = 3, tc_inactivity_timeout_ms = 120000 \<rparr>"

datatype session_state = Idle | Connecting | Connected | Waiting_ack | Closing | Closed

record tunnelling_session =
  ts_config :: tunnelling_config
  ts_state :: session_state
  ts_pending :: bool
  ts_retries :: u32
  ts_channel_id :: u16
  ts_expected_sequence :: u16
  ts_next_sequence :: byte
  ts_connect_retries :: u16
  ts_disconnect_retries :: u16
  ts_heartbeat_failures :: byte
  ts_last_activity_ms :: u32
  ts_incoming_sequence_valid :: bool
  ts_last_incoming_sequence :: byte
  ts_next_incoming_sequence :: byte
  ts_assigned_address :: individual_address
  ts_request_packet :: bytes
  ts_connect_packet :: bytes
  ts_last_deadline_ms :: u32
  ts_stream :: bool
  ts_heartbeat_outstanding :: bool
  ts_heartbeat_deadline_ms :: u32
  ts_control_endpoint :: hpai

definition new_session :: "tunnelling_config \<Rightarrow> tunnelling_session" where
  "new_session cfg = \<lparr> ts_config = cfg, ts_state = Idle, ts_pending = False, ts_retries = 0, ts_channel_id = 0,
     ts_expected_sequence = 0, ts_next_sequence = 0, ts_connect_retries = 0, ts_disconnect_retries = 0,
     ts_heartbeat_failures = 0, ts_last_activity_ms = 0, ts_incoming_sequence_valid = False,
     ts_last_incoming_sequence = 0, ts_next_incoming_sequence = 0, ts_assigned_address = Individual_address 0,
     ts_request_packet = [], ts_connect_packet = [], ts_last_deadline_ms = 0, ts_stream = False,
     ts_heartbeat_outstanding = False, ts_heartbeat_deadline_ms = 0, ts_control_endpoint = default_hpai \<rparr>"

definition reset :: "tunnelling_session \<Rightarrow> tunnelling_session" where
  "reset s = s \<lparr> ts_state := Idle, ts_pending := False, ts_connect_retries := 0, ts_disconnect_retries := 0,
     ts_retries := 0, ts_channel_id := 0, ts_expected_sequence := 0, ts_next_sequence := 0,
     ts_heartbeat_failures := 0, ts_last_activity_ms := 0, ts_incoming_sequence_valid := False,
     ts_last_incoming_sequence := 0, ts_next_incoming_sequence := 0, ts_assigned_address := Individual_address 0,
     ts_request_packet := [], ts_connect_packet := [], ts_last_deadline_ms := 0,
     ts_heartbeat_outstanding := False, ts_heartbeat_deadline_ms := 0, ts_control_endpoint := default_hpai \<rparr>"

definition use_stream_rules :: "bool \<Rightarrow> tunnelling_session \<Rightarrow> tunnelling_session" where
  "use_stream_rules stream s = s \<lparr> ts_stream := stream \<rparr>"

definition shutdown :: "tunnelling_session \<Rightarrow> tunnelling_session" where
  "shutdown s = s \<lparr> ts_pending := False, ts_heartbeat_outstanding := False, ts_state := Closed,
     ts_request_packet := [], ts_connect_packet := [] \<rparr>"

text \<open>The total length the header of an encoded packet carries, read back from its octets.\<close>

definition encoded_length :: "bytes \<Rightarrow> nat" where
  "encoded_length packet = unat (be16 (packet ! 4) (packet ! 5))"

subsection \<open>Connecting\<close>

definition prepare_connect_request_packet ::
    "bytes \<Rightarrow> connect_request_frame \<Rightarrow> tunnelling_session \<Rightarrow> unit result \<times> bytes \<times> tunnelling_session" where
  "prepare_connect_request_packet packet request s =
     (if ts_state s \<noteq> Idle then (Inl Invalid_configuration, packet, s)
      else
        case encode_connect_request_packet packet request of
          (Inl e, packet) \<Rightarrow> (Inl e, packet, s)
        | (Inr _, packet) \<Rightarrow> (Inr (), packet, s \<lparr> ts_connect_packet := take (encoded_length packet) packet \<rparr>))"

definition start_connect ::
    "bytes \<Rightarrow> connect_request_frame \<Rightarrow> u32 \<Rightarrow> tunnelling_session \<Rightarrow> unit result \<times> bytes \<times> tunnelling_session" where
  "start_connect packet request deadline_ms s =
     (if ts_state s \<noteq> Idle then (Inl Invalid_configuration, packet, s)
      else
        case prepare_connect_request_packet packet request s of
          (Inl e, packet, s) \<Rightarrow> (Inl e, packet, s)
        | (Inr _, packet, s) \<Rightarrow>
            (Inr (), packet, s \<lparr> ts_control_endpoint := cr_control_endpoint request, ts_state := Connecting,
               ts_connect_retries := 0, ts_last_deadline_ms := deadline_ms \<rparr>))"

definition start_connect_raw :: "bytes \<Rightarrow> u32 \<Rightarrow> tunnelling_session \<Rightarrow> unit result \<times> tunnelling_session" where
  "start_connect_raw packet deadline_ms s =
     (if ts_state s \<noteq> Idle then (Inl Invalid_configuration, s)
      else if length packet < communication_header_size \<or> length packet > max_datagram_size
      then (Inl Invalid_length, s)
      else (Inr (), s \<lparr> ts_connect_packet := packet, ts_control_endpoint := default_hpai, ts_state := Connecting,
             ts_connect_retries := 0, ts_last_deadline_ms := deadline_ms \<rparr>))"

definition prepare_connect_retry_packet :: "bytes \<Rightarrow> tunnelling_session \<Rightarrow> unit result \<times> bytes" where
  "prepare_connect_retry_packet packet s =
     (if ts_state s \<noteq> Connecting \<or> ts_connect_packet s = [] \<or> ts_connect_retries s = 0
      then (Inl Invalid_configuration, packet)
      else if length packet < length (ts_connect_packet s) then (Inl Invalid_length, packet)
      else (Inr (), write_at packet 0 (ts_connect_packet s)))"

definition abandon_connect :: "tunnelling_session \<Rightarrow> tunnelling_session" where
  "abandon_connect s =
     (if ts_state s \<noteq> Connecting then s
      else s \<lparr> ts_state := Idle, ts_connect_packet := [], ts_connect_retries := 0 \<rparr>)"

definition on_connect_response ::
    "connect_response_frame \<Rightarrow> tunnelling_session \<Rightarrow> unit result \<times> tunnelling_session" where
  "on_connect_response response s =
     (if ts_state s \<noteq> Idle \<and> ts_state s \<noteq> Connecting then (Inl Invalid_configuration, s)
      else if cs_status response \<noteq> no_error then (Inl Connection_failed, abandon_connect s)
      else if cs_channel_id response = 0 then (Inl Sequence_error, abandon_connect s)
      else (Inr (), s \<lparr> ts_channel_id := ucast (cs_channel_id response),
             ts_assigned_address := cs_assigned_address response, ts_state := Connected, ts_pending := False,
             ts_retries := 0, ts_connect_retries := 0, ts_disconnect_retries := 0, ts_connect_packet := [],
             ts_heartbeat_failures := 0, ts_last_activity_ms := 0, ts_incoming_sequence_valid := False \<rparr>))"

definition on_ipv6_connect_response ::
    "ipv6_connect_response_frame \<Rightarrow> tunnelling_session \<Rightarrow> unit result \<times> tunnelling_session" where
  "on_ipv6_connect_response response s =
     on_connect_response \<lparr> cs_channel_id = cs6_channel_id response, cs_status = cs6_status response,
       cs_data_endpoint = default_hpai, cs_assigned_address = cs6_assigned_address response \<rparr> s"

definition on_connect_response_packet :: "bytes \<Rightarrow> tunnelling_session \<Rightarrow> unit result \<times> tunnelling_session" where
  "on_connect_response_packet packet s =
     (case decode_connect_response_packet packet of
        Inl e \<Rightarrow> (Inl e, s)
      | Inr response \<Rightarrow> on_connect_response response s)"

definition on_connect_timeout :: "tunnelling_session \<Rightarrow> unit result \<times> tunnelling_session" where
  "on_connect_timeout s =
     (if ts_state s \<noteq> Connecting then (Inl Invalid_configuration, s)
      else
        let s = s \<lparr> ts_connect_retries := ts_connect_retries s + 1 \<rparr>
        in if ts_stream s \<or> ts_connect_retries s > tc_max_retries (ts_config s)
           then (Inl Timeout, s \<lparr> ts_state := Closed, ts_connect_packet := [] \<rparr>)
           else (Inr (), s \<lparr> ts_last_deadline_ms := ts_last_deadline_ms s + tc_connect_timeout_ms (ts_config s) \<rparr>))"

definition connect_expired :: "u32 \<Rightarrow> tunnelling_session \<Rightarrow> bool" where
  "connect_expired now_ms s \<longleftrightarrow> ts_state s = Connecting \<and> sint (now_ms - ts_last_deadline_ms s) \<ge> 0"

subsection \<open>Requests and acknowledgements\<close>

definition begin_request :: "u16 \<Rightarrow> u16 \<Rightarrow> u32 \<Rightarrow> tunnelling_session \<Rightarrow> unit result \<times> tunnelling_session" where
  "begin_request channel_id sequence deadline_ms s =
     (if ts_pending s then (Inl Send_queue_full, s)
      else if ts_state s = Closing \<or> ts_state s = Closed then (Inl Shutdown, s)
      else if channel_id = 0 \<or> channel_id > 0xFF \<or> sequence > 0xFF then (Inl Sequence_error, s)
      else
        let s = s \<lparr> ts_channel_id := ucast (ucast channel_id :: byte),
                    ts_expected_sequence := ucast (ucast sequence :: byte) \<rparr>;
            s = s \<lparr> ts_next_sequence := ucast (ts_expected_sequence s + 1) \<rparr>
        in if ts_stream s then (Inr (), s)
           else (Inr (), s \<lparr> ts_pending := True, ts_state := Waiting_ack, ts_last_deadline_ms := deadline_ms \<rparr>))"

definition begin_next_request :: "byte \<Rightarrow> u32 \<Rightarrow> tunnelling_session \<Rightarrow> byte result \<times> tunnelling_session" where
  "begin_next_request channel_id deadline_ms s =
     (let sequence = ts_next_sequence s
      in case begin_request (ucast channel_id) (ucast sequence) deadline_ms s of
           (Inl e, s) \<Rightarrow> (Inl e, s)
         | (Inr _, s) \<Rightarrow> (Inr sequence, s))"

definition prepare_request_packet ::
    "bytes \<Rightarrow> byte \<Rightarrow> bytes \<Rightarrow> u32 \<Rightarrow> tunnelling_session \<Rightarrow> byte result \<times> bytes \<times> tunnelling_session" where
  "prepare_request_packet packet channel_id cemi_bytes deadline_ms s =
     (if ts_pending s then (Inl Send_queue_full, packet, s)
      else if ts_state s = Closing \<or> ts_state s = Closed then (Inl Shutdown, packet, s)
      else if channel_id = 0 then (Inl Sequence_error, packet, s)
      else
        let sequence = ts_next_sequence s
        in case encode_tunnelling_request_packet packet channel_id sequence cemi_bytes of
             (Inl e, packet) \<Rightarrow> (Inl e, packet, s)
           | (Inr _, packet) \<Rightarrow>
               (let s = (if ts_stream s then s
                         else s \<lparr> ts_request_packet := take (encoded_length packet) packet \<rparr>)
                in case begin_request (ucast channel_id) (ucast sequence) deadline_ms s of
                     (Inl e, s) \<Rightarrow> (Inl e, packet, s)
                   | (Inr _, s) \<Rightarrow> (Inr sequence, packet, s)))"

definition prepare_retry_packet :: "bytes \<Rightarrow> tunnelling_session \<Rightarrow> unit result \<times> bytes" where
  "prepare_retry_packet packet s =
     (if \<not> ts_pending s \<or> ts_retries s = 0 \<or> ts_request_packet s = [] then (Inl Invalid_configuration, packet)
      else if length packet < length (ts_request_packet s) then (Inl Invalid_length, packet)
      else (Inr (), write_at packet 0 (ts_request_packet s)))"

definition on_ack :: "u16 \<Rightarrow> u16 \<Rightarrow> tunnelling_session \<Rightarrow> unit result \<times> tunnelling_session" where
  "on_ack channel_id sequence s =
     (if \<not> ts_pending s then (Inl Sequence_error, s)
      else if ts_channel_id s \<noteq> channel_id \<or> ts_expected_sequence s \<noteq> sequence then (Inl Sequence_error, s)
      else (Inr (), s \<lparr> ts_pending := False, ts_request_packet := [], ts_state := Connected, ts_retries := 0,
             ts_channel_id := channel_id, ts_expected_sequence := sequence \<rparr>))"

definition on_ack_frame :: "tunnelling_ack_frame \<Rightarrow> tunnelling_session \<Rightarrow> unit result \<times> tunnelling_session" where
  "on_ack_frame ack s =
     (if ta_status ack \<noteq> 0 then (Inl Connection_failed, s)
      else on_ack (ucast (ta_channel_id ack)) (ucast (ta_sequence_number ack)) s)"

definition on_ack_packet :: "bytes \<Rightarrow> tunnelling_session \<Rightarrow> unit result \<times> tunnelling_session" where
  "on_ack_packet packet s =
     (case decode_tunnelling_ack_packet packet of
        Inl e \<Rightarrow> (Inl e, s)
      | Inr ack \<Rightarrow> on_ack_frame ack s)"

definition on_timeout :: "tunnelling_session \<Rightarrow> unit result \<times> tunnelling_session" where
  "on_timeout s =
     (if \<not> ts_pending s then (Inl Invalid_configuration, s)
      else
        let s = s \<lparr> ts_retries := ts_retries s + 1 \<rparr>
        in if ts_retries s > ucast (tc_max_retries (ts_config s))
           then (Inl Timeout, s \<lparr> ts_pending := False, ts_request_packet := [], ts_state := Closed \<rparr>)
           else (Inr (), s \<lparr> ts_last_deadline_ms := ts_last_deadline_ms s + tc_ack_timeout_ms (ts_config s),
                  ts_state := Waiting_ack \<rparr>))"

definition expired :: "u32 \<Rightarrow> tunnelling_session \<Rightarrow> bool" where
  "expired now_ms s \<longleftrightarrow> ts_pending s \<and> sint (now_ms - ts_last_deadline_ms s) \<ge> 0"

subsection \<open>Supervision\<close>

definition prepare_connectionstate_request_packet :: "bytes \<Rightarrow> tunnelling_session \<Rightarrow> unit result \<times> bytes" where
  "prepare_connectionstate_request_packet packet s =
     (if ts_state s \<noteq> Connected then (Inl Shutdown, packet)
      else encode_connectionstate_request_packet packet
             \<lparr> sr_channel_id = ucast (ts_channel_id s), sr_control_endpoint = ts_control_endpoint s \<rparr>)"

definition note_activity :: "u32 \<Rightarrow> tunnelling_session \<Rightarrow> tunnelling_session" where
  "note_activity now_ms s = (if ts_state s = Connected then s \<lparr> ts_last_activity_ms := now_ms \<rparr> else s)"

definition inactive :: "u32 \<Rightarrow> tunnelling_session \<Rightarrow> bool" where
  "inactive now_ms s \<longleftrightarrow> ts_state s = Connected \<and>
     sint (now_ms - ts_last_activity_ms s) \<ge> sint (tc_inactivity_timeout_ms (ts_config s))"

definition check_inactivity :: "u32 \<Rightarrow> tunnelling_session \<Rightarrow> unit result \<times> tunnelling_session" where
  "check_inactivity now_ms s =
     (if \<not> inactive now_ms s then (Inr (), s)
      else (Inl Inactivity_timeout, s \<lparr> ts_state := Closed, ts_pending := False \<rparr>))"

text \<open>The failure count of both heartbeat handlers: it stops at 255, and reaching the limit closes the session.\<close>

definition count_heartbeat_failure :: "tunnelling_session \<Rightarrow> unit result \<times> tunnelling_session" where
  "count_heartbeat_failure s =
     (let s = (if ts_heartbeat_failures s < 0xFF then s \<lparr> ts_heartbeat_failures := ts_heartbeat_failures s + 1 \<rparr> else s)
      in if tc_heartbeat_failure_limit (ts_config s) = 0 \<or>
            ts_heartbeat_failures s \<ge> tc_heartbeat_failure_limit (ts_config s)
         then (Inl Heartbeat_failed, s \<lparr> ts_state := Closed \<rparr>)
         else (Inl Connection_failed, s))"

definition on_connectionstate_response ::
    "connectionstate_response_frame \<Rightarrow> tunnelling_session \<Rightarrow> unit result \<times> tunnelling_session" where
  "on_connectionstate_response response s =
     (if ts_state s \<noteq> Connected then (Inl Invalid_configuration, s)
      else if ucast (ss_channel_id response) \<noteq> ts_channel_id s then (Inl Sequence_error, s)
      else
        let s = s \<lparr> ts_heartbeat_outstanding := False \<rparr>
        in if ss_status response \<noteq> no_error then count_heartbeat_failure s
           else (Inr (), s \<lparr> ts_heartbeat_failures := 0 \<rparr>))"

definition on_connectionstate_response_packet ::
    "bytes \<Rightarrow> tunnelling_session \<Rightarrow> unit result \<times> tunnelling_session" where
  "on_connectionstate_response_packet packet s =
     (case decode_connectionstate_response_packet packet of
        Inl e \<Rightarrow> (Inl e, s)
      | Inr response \<Rightarrow> on_connectionstate_response response s)"

definition on_connectionstate_timeout :: "tunnelling_session \<Rightarrow> unit result \<times> tunnelling_session" where
  "on_connectionstate_timeout s =
     (if ts_state s \<noteq> Connected then (Inl Invalid_configuration, s) else count_heartbeat_failure s)"

definition note_heartbeat_sent :: "u32 \<Rightarrow> tunnelling_session \<Rightarrow> tunnelling_session" where
  "note_heartbeat_sent deadline_ms s =
     (if ts_heartbeat_outstanding s then s
      else s \<lparr> ts_heartbeat_outstanding := True, ts_heartbeat_deadline_ms := deadline_ms \<rparr>)"

definition check_heartbeat :: "u32 \<Rightarrow> tunnelling_session \<Rightarrow> unit result \<times> tunnelling_session" where
  "check_heartbeat now_ms s =
     (if \<not> ts_heartbeat_outstanding s \<or> sint (now_ms - ts_heartbeat_deadline_ms s) < 0 then (Inr (), s)
      else on_connectionstate_timeout (s \<lparr> ts_heartbeat_outstanding := False \<rparr>))"

subsection \<open>Disconnecting\<close>

definition prepare_disconnect_request_packet ::
    "bytes \<Rightarrow> tunnelling_session \<Rightarrow> unit result \<times> bytes \<times> tunnelling_session" where
  "prepare_disconnect_request_packet packet s =
     (if ts_state s = Closed then (Inl Shutdown, packet, s)
      else if ts_state s \<noteq> Connected then (Inl Invalid_configuration, packet, s)
      else
        case encode_disconnect_request_packet packet
               \<lparr> dr_channel_id = ucast (ts_channel_id s), dr_control_endpoint = ts_control_endpoint s \<rparr> of
          (Inl e, packet) \<Rightarrow> (Inl e, packet, s)
        | (Inr _, packet) \<Rightarrow> (Inr (), packet, s \<lparr> ts_state := Closing, ts_disconnect_retries := 0 \<rparr>))"

definition on_disconnect_timeout :: "tunnelling_session \<Rightarrow> unit result \<times> tunnelling_session" where
  "on_disconnect_timeout s =
     (if ts_state s \<noteq> Closing then (Inl Invalid_configuration, s)
      else
        let s = s \<lparr> ts_disconnect_retries := ts_disconnect_retries s + 1 \<rparr>
        in if ts_stream s \<or> ts_disconnect_retries s > tc_max_retries (ts_config s)
           then (Inl Timeout, s \<lparr> ts_state := Closed \<rparr>)
           else (Inr (), s))"

definition on_disconnect_request ::
    "disconnect_request_frame \<Rightarrow> tunnelling_session \<Rightarrow> unit result \<times> tunnelling_session" where
  "on_disconnect_request request s =
     (if ts_state s \<noteq> Connected \<and> ts_state s \<noteq> Closing then (Inl Invalid_configuration, s)
      else if ucast (dr_channel_id request) \<noteq> ts_channel_id s then (Inl Sequence_error, s)
      else (Inr (), s \<lparr> ts_state := Closing \<rparr>))"

definition on_disconnect_response ::
    "disconnect_response_frame \<Rightarrow> tunnelling_session \<Rightarrow> unit result \<times> tunnelling_session" where
  "on_disconnect_response response s =
     (if ts_state s = Closed then (Inl Shutdown, s)
      else if ts_state s \<noteq> Closing then (Inl Invalid_configuration, s)
      else if ucast (ds_channel_id response) \<noteq> ts_channel_id s then (Inl Sequence_error, s)
      else if ds_status response \<noteq> no_error then (Inl Connection_failed, s)
      else (Inr (), shutdown s))"

definition on_disconnect_response_packet :: "bytes \<Rightarrow> tunnelling_session \<Rightarrow> unit result \<times> tunnelling_session" where
  "on_disconnect_response_packet packet s =
     (if ts_state s = Closed then (Inl Shutdown, s)
      else if ts_state s \<noteq> Closing then (Inl Invalid_configuration, s)
      else
        case decode_disconnect_response_packet packet of
          Inl e \<Rightarrow> (Inl e, s)
        | Inr response \<Rightarrow>
            if ucast (ds_channel_id response) \<noteq> ts_channel_id s then (Inl Sequence_error, s)
            else if ds_status response \<noteq> no_error then (Inl Connection_failed, s)
            else (Inr (), shutdown s))"

subsection \<open>Indications and datagrams\<close>

definition duplicate_indication :: "tunnelling_request_frame \<Rightarrow> tunnelling_session \<Rightarrow> bool" where
  "duplicate_indication request s \<longleftrightarrow> \<not> ts_stream s \<and> ts_state s = Connected \<and>
     ucast (tr_channel_id request) = ts_channel_id s \<and> ts_incoming_sequence_valid s \<and>
     tr_sequence_number request = ts_last_incoming_sequence s"

definition out_of_order_indication :: "tunnelling_request_frame \<Rightarrow> tunnelling_session \<Rightarrow> bool" where
  "out_of_order_indication request s \<longleftrightarrow> \<not> ts_stream s \<and> ts_incoming_sequence_valid s \<and>
     tr_sequence_number request \<noteq> ts_next_incoming_sequence s"

definition on_indication ::
    "tunnelling_request_frame \<Rightarrow> tunnelling_session \<Rightarrow> unit result \<times> tunnelling_session" where
  "on_indication request s =
     (if ts_state s \<noteq> Connected then (Inl Invalid_configuration, s)
      else if ucast (tr_channel_id request) \<noteq> ts_channel_id s then (Inl Sequence_error, s)
      else if tr_cemi_bytes request = [] then (Inl Malformed_frame, s)
      else if duplicate_indication request s \<or> out_of_order_indication request s then (Inl Sequence_error, s)
      else (Inr (), s \<lparr> ts_incoming_sequence_valid := True,
             ts_last_incoming_sequence := tr_sequence_number request,
             ts_next_incoming_sequence := tr_sequence_number request + 1 \<rparr>))"

definition on_connectionstate_request ::
    "connectionstate_request_frame \<Rightarrow> tunnelling_session \<Rightarrow> unit result \<times> tunnelling_session" where
  "on_connectionstate_request request s =
     (if ts_state s \<noteq> Connected then (Inl Invalid_configuration, s)
      else if ucast (sr_channel_id request) \<noteq> ts_channel_id s then (Inl Sequence_error, s)
      else (Inr (), s))"

definition on_response_datagram ::
    "datagram \<Rightarrow> tunnelling_session \<Rightarrow> (unit result \<times> tunnelling_session) option" where
  "on_response_datagram v s =
     (case dg_payload v of
        Payload_connect_response f \<Rightarrow>
          Some (if dg_service_type v \<noteq> connect_response_service then (Inl Invalid_configuration, s)
                else on_connect_response f s)
      | Payload_ipv6_connect_response f \<Rightarrow>
          Some (if dg_service_type v \<noteq> connect_response_service then (Inl Invalid_configuration, s)
                else on_ipv6_connect_response f s)
      | Payload_connectionstate_response f \<Rightarrow>
          Some (if dg_service_type v \<noteq> connectionstate_response_service then (Inl Invalid_configuration, s)
                else on_connectionstate_response f s)
      | Payload_tunnelling_ack f \<Rightarrow>
          Some (if dg_service_type v \<noteq> tunnelling_ack_service then (Inl Invalid_configuration, s)
                else on_ack_frame f s)
      | Payload_disconnect_response f \<Rightarrow>
          Some (if dg_service_type v \<noteq> disconnect_response_service then (Inl Invalid_configuration, s)
                else on_disconnect_response f s)
      | _ \<Rightarrow> None)"

definition on_request_datagram ::
    "datagram \<Rightarrow> tunnelling_session \<Rightarrow> (unit result \<times> tunnelling_session) option" where
  "on_request_datagram v s =
     (case dg_payload v of
        Payload_tunnelling_request f \<Rightarrow>
          Some (if dg_service_type v \<noteq> tunnelling_request_service then (Inl Invalid_configuration, s)
                else on_indication f s)
      | Payload_connectionstate_request f \<Rightarrow>
          Some (if dg_service_type v \<noteq> connectionstate_request_service then (Inl Invalid_configuration, s)
                else on_connectionstate_request f s)
      | Payload_disconnect_request f \<Rightarrow>
          Some (if dg_service_type v \<noteq> disconnect_request_service then (Inl Invalid_configuration, s)
                else on_disconnect_request f s)
      | _ \<Rightarrow> None)"

definition on_datagram :: "datagram \<Rightarrow> tunnelling_session \<Rightarrow> unit result \<times> tunnelling_session" where
  "on_datagram v s =
     (case on_response_datagram v s of Some r \<Rightarrow> r | None \<Rightarrow>
     (case on_request_datagram v s of Some r \<Rightarrow> r | None \<Rightarrow> (Inl Unsupported_service, s)))"

definition on_datagram_packet :: "bytes \<Rightarrow> tunnelling_session \<Rightarrow> unit result \<times> tunnelling_session" where
  "on_datagram_packet packet s =
     (case decode_datagram packet of Inl e \<Rightarrow> (Inl e, s) | Inr v \<Rightarrow> on_datagram v s)"

definition dispatch_session_datagram ::
    "datagram \<Rightarrow> u32 \<Rightarrow> tunnelling_session \<Rightarrow> unit result \<times> tunnelling_session" where
  "dispatch_session_datagram v now_ms s =
     (case on_datagram v s of
        (Inl e, s) \<Rightarrow> (Inl e, s)
      | (Inr _, s) \<Rightarrow> (Inr (), note_activity now_ms s))"

definition dispatch_session_packet ::
    "bytes \<Rightarrow> u32 \<Rightarrow> tunnelling_session \<Rightarrow> unit result \<times> tunnelling_session" where
  "dispatch_session_packet packet now_ms s =
     (case decode_datagram packet of Inl e \<Rightarrow> (Inl e, s) | Inr v \<Rightarrow> dispatch_session_datagram v now_ms s)"

definition prepare_tunnelling_ack_packet ::
    "bytes \<Rightarrow> tunnelling_request_frame \<Rightarrow> byte \<Rightarrow> unit result \<times> bytes" where
  "prepare_tunnelling_ack_packet packet request status =
     (if tr_channel_id request = 0 \<or> tr_cemi_bytes request = [] then (Inl Malformed_frame, packet)
      else encode_tunnelling_ack_packet packet (tr_channel_id request) (tr_sequence_number request) status)"

definition prepare_tunnelling_ack_for ::
    "bytes \<Rightarrow> bytes \<Rightarrow> byte \<Rightarrow> unit result \<times> bytes" where
  "prepare_tunnelling_ack_for packet request_packet status =
     (case decode_tunnelling_request_packet request_packet of
        Inl e \<Rightarrow> (Inl e, packet)
      | Inr request \<Rightarrow> prepare_tunnelling_ack_packet packet request status)"

definition check_response_request :: "datagram \<Rightarrow> tunnelling_session \<Rightarrow> unit result" where
  "check_response_request request s =
     (case dg_payload request of
        Payload_tunnelling_request f \<Rightarrow>
          if dg_service_type request \<noteq> tunnelling_request_service then Inl Invalid_configuration
          else if ts_state s \<noteq> Connected then Inl Invalid_configuration
          else if ucast (tr_channel_id f) \<noteq> ts_channel_id s then Inl Sequence_error
          else Inr ()
      | Payload_connectionstate_request f \<Rightarrow>
          if dg_service_type request \<noteq> connectionstate_request_service then Inl Invalid_configuration
          else if ts_state s \<noteq> Connected \<or> ucast (sr_channel_id f) \<noteq> ts_channel_id s then Inl Sequence_error
          else Inr ()
      | Payload_disconnect_request f \<Rightarrow>
          if dg_service_type request \<noteq> disconnect_request_service then Inl Invalid_configuration
          else if ts_state s \<noteq> Connected \<and> ts_state s \<noteq> Closing \<or> ucast (dr_channel_id f) \<noteq> ts_channel_id s
          then Inl Sequence_error
          else Inr ()
      | _ \<Rightarrow> Inr ())"

definition prepare_response_datagram ::
    "bytes \<Rightarrow> datagram \<Rightarrow> byte \<Rightarrow> tunnelling_session \<Rightarrow> unit result \<times> bytes \<times> tunnelling_session" where
  "prepare_response_datagram packet request status s =
     (case check_response_request request s of
        Inl e \<Rightarrow> (Inl e, packet, s)
      | Inr _ \<Rightarrow>
          (case encode_response_datagram packet request status of
             (Inl e, packet) \<Rightarrow> (Inl e, packet, s)
           | (Inr _, packet) \<Rightarrow>
               (case on_datagram request s of
                  (Inl e, s) \<Rightarrow> (Inl e, packet, s)
                | (Inr _, s) \<Rightarrow> (Inr (), packet, s))))"

definition prepare_response_packet ::
    "bytes \<Rightarrow> bytes \<Rightarrow> byte \<Rightarrow> tunnelling_session \<Rightarrow> unit result \<times> bytes \<times> tunnelling_session" where
  "prepare_response_packet packet request_packet status s =
     (case decode_datagram request_packet of
        Inl e \<Rightarrow> (Inl e, packet, s)
      | Inr request \<Rightarrow> prepare_response_datagram packet request status s)"

subsection \<open>What a caller can do\<close>

text \<open>
  What an operation means for the life of the session: the request of the caller, the deadline that
  passed or the frame that arrived, with the channel and the number it names.
\<close>

datatype life_event =
    Life_reset | Life_shutdown | Life_quiet
  | Life_connect | Life_response byte byte | Life_connect_timeout
  | Life_request bool u16 u16 | Life_ack u16 u16 | Life_ack_timeout
  | Life_supervision
  | Life_disconnect | Life_disconnect_timeout | Life_disconnect_request u16 | Life_disconnect_response u16

definition response_event :: "connect_response_frame \<Rightarrow> life_event" where
  "response_event f = Life_response (cs_channel_id f) (cs_status f)"

definition ack_event :: "tunnelling_ack_frame \<Rightarrow> life_event" where
  "ack_event a = Life_ack (ucast (ta_channel_id a)) (ucast (ta_sequence_number a))"

definition disconnect_response_event :: "disconnect_response_frame \<Rightarrow> life_event" where
  "disconnect_response_event f = Life_disconnect_response (ucast (ds_channel_id f))"

definition datagram_event :: "datagram \<Rightarrow> life_event" where
  "datagram_event v =
     (case dg_payload v of
        Payload_connect_response f \<Rightarrow> response_event f
      | Payload_ipv6_connect_response f \<Rightarrow> Life_response (cs6_channel_id f) (cs6_status f)
      | Payload_connectionstate_response f \<Rightarrow> Life_supervision
      | Payload_tunnelling_ack f \<Rightarrow> ack_event f
      | Payload_disconnect_response f \<Rightarrow> disconnect_response_event f
      | Payload_disconnect_request f \<Rightarrow> Life_disconnect_request (ucast (dr_channel_id f))
      | _ \<Rightarrow> Life_quiet)"

definition event_of :: "('a \<Rightarrow> life_event) \<Rightarrow> 'a result \<Rightarrow> life_event" where
  "event_of f decoded = (case decoded of Inl _ \<Rightarrow> Life_quiet | Inr x \<Rightarrow> f x)"

text \<open>Every public operation that may change the session, in any order and with any arguments.\<close>

inductive session_does :: "life_event \<Rightarrow> tunnelling_session \<Rightarrow> tunnelling_session \<Rightarrow> bool" where
  step_reset: "session_does Life_reset s (reset s)"
| step_stream: "session_does Life_quiet s (use_stream_rules b s)"
| step_shutdown: "session_does Life_shutdown s (shutdown s)"
| step_prepare_connect:
    "connect_request_wf r \<Longrightarrow> session_does Life_quiet s (snd (snd (prepare_connect_request_packet p r s)))"
| step_start_connect:
    "connect_request_wf r \<Longrightarrow> session_does Life_connect s (snd (snd (start_connect p r t s)))"
| step_start_connect_raw: "session_does Life_connect s (snd (start_connect_raw p t s))"
| step_connect_response: "session_does (response_event f) s (snd (on_connect_response f s))"
| step_ipv6_connect_response: "session_does (Life_response (cs6_channel_id f6) (cs6_status f6)) s (snd (on_ipv6_connect_response f6 s))"
| step_connect_response_packet: "session_does (event_of response_event (decode_connect_response_packet p)) s (snd (on_connect_response_packet p s))"
| step_connect_timeout: "session_does Life_connect_timeout s (snd (on_connect_timeout s))"
| step_begin_request: "session_does (Life_request (ts_stream s) c q) s (snd (begin_request c q t s))"
| step_begin_next_request: "session_does (Life_request (ts_stream s) (ucast c8) (ucast (ts_next_sequence s))) s (snd (begin_next_request c8 t s))"
| step_prepare_request: "session_does (Life_request (ts_stream s) (ucast c8) (ucast (ts_next_sequence s))) s (snd (snd (prepare_request_packet p c8 cemi t s)))"
| step_ack: "session_does (Life_ack c q) s (snd (on_ack c q s))"
| step_ack_frame: "session_does (ack_event a) s (snd (on_ack_frame a s))"
| step_ack_packet: "session_does (event_of ack_event (decode_tunnelling_ack_packet p)) s (snd (on_ack_packet p s))"
| step_timeout: "session_does Life_ack_timeout s (snd (on_timeout s))"
| step_activity: "session_does Life_quiet s (note_activity t s)"
| step_inactivity: "session_does Life_supervision s (snd (check_inactivity t s))"
| step_connectionstate_response: "session_does Life_supervision s (snd (on_connectionstate_response h s))"
| step_connectionstate_response_packet: "session_does Life_supervision s (snd (on_connectionstate_response_packet p s))"
| step_connectionstate_timeout: "session_does Life_supervision s (snd (on_connectionstate_timeout s))"
| step_heartbeat_sent: "session_does Life_quiet s (note_heartbeat_sent t s)"
| step_heartbeat: "session_does Life_supervision s (snd (check_heartbeat t s))"
| step_prepare_disconnect: "session_does Life_disconnect s (snd (snd (prepare_disconnect_request_packet p s)))"
| step_disconnect_timeout: "session_does Life_disconnect_timeout s (snd (on_disconnect_timeout s))"
| step_disconnect_response_packet: "session_does (event_of disconnect_response_event (decode_disconnect_response_packet p)) s (snd (on_disconnect_response_packet p s))"
| step_datagram: "session_does (datagram_event v) s (snd (on_datagram v s))"
| step_datagram_packet: "session_does (event_of datagram_event (decode_datagram p)) s (snd (on_datagram_packet p s))"
| step_dispatch: "session_does (datagram_event v) s (snd (dispatch_session_datagram v t s))"
| step_dispatch_packet: "session_does (event_of datagram_event (decode_datagram p)) s (snd (dispatch_session_packet p t s))"
| step_prepare_response: "session_does (datagram_event v) s (snd (snd (prepare_response_datagram p v st s)))"
| step_prepare_response_packet: "session_does (event_of datagram_event (decode_datagram p')) s (snd (snd (prepare_response_packet p p' st s)))"


subsection \<open>The invariant, the lifecycle and what the operations are compared with\<close>

text \<open>
  \<open>session_inv\<close> is the class invariant.  \<open>lifecycle\<close> is the protocol as \<open>knx/session.hpp\<close> and the notes
  of \<open>knx/tunnelling_session.hpp\<close> describe it, with the channel and the outstanding sequence number as its
  only data: \<open>session_lifecycle\<close> maps a session to it.  \<open>lifecycle_step\<close> says what each event may do: an
  event other than a reset or a shutdown may always be refused, and then nothing changes; each move has its
  own event, which must name the right channel and number; only a reset leads out of \<open>Ended\<close>.
\<close>

definition session_inv :: "tunnelling_session \<Rightarrow> bool" where
  "session_inv s \<longleftrightarrow>
     (ts_pending s \<longleftrightarrow> ts_state s = Waiting_ack) \<and>
     ts_channel_id s \<le> 0xFF \<and> ts_expected_sequence s \<le> 0xFF \<and>
     (ts_state s \<in> {Connected, Waiting_ack, Closing} \<longrightarrow> ts_channel_id s \<noteq> 0) \<and>
     (ts_state s = Waiting_ack \<longrightarrow> ts_next_sequence s = ucast (ts_expected_sequence s) + 1) \<and>
     (ts_state s \<noteq> Waiting_ack \<longrightarrow> ts_request_packet s = []) \<and>
     (ts_state s = Connecting \<longrightarrow> ts_connect_packet s \<noteq> []) \<and>
     (ts_state s = Waiting_ack \<longrightarrow> ts_retries s \<le> ucast (tc_max_retries (ts_config s))) \<and>
     (ts_state s \<noteq> Waiting_ack \<and> ts_state s \<noteq> Closed \<longrightarrow> ts_retries s = 0) \<and>
     (ts_state s \<noteq> Closing \<and> ts_state s \<noteq> Closed \<longrightarrow> ts_disconnect_retries s = 0) \<and>
     (ts_state s \<noteq> Closed \<longrightarrow> ts_heartbeat_failures s = 0 \<or>
        ts_heartbeat_failures s < tc_heartbeat_failure_limit (ts_config s)) \<and>
     (ts_incoming_sequence_valid s \<longrightarrow> ts_next_incoming_sequence s = ts_last_incoming_sequence s + 1) \<and>
     hpai_wf (ts_control_endpoint s)"

datatype lifecycle =
    Not_connected | Being_connected | Open u16 | Awaiting u16 u16 | Being_closed u16 | Ended

definition session_lifecycle :: "tunnelling_session \<Rightarrow> lifecycle" where
  "session_lifecycle s =
     (case ts_state s of
        Idle \<Rightarrow> Not_connected
      | Connecting \<Rightarrow> Being_connected
      | Connected \<Rightarrow> Open (ts_channel_id s)
      | Waiting_ack \<Rightarrow> Awaiting (ts_channel_id s) (ts_expected_sequence s)
      | Closing \<Rightarrow> Being_closed (ts_channel_id s)
      | Closed \<Rightarrow> Ended)"

inductive lifecycle_step :: "life_event \<Rightarrow> lifecycle \<Rightarrow> lifecycle \<Rightarrow> bool" where
  life_stay: "e \<noteq> Life_reset \<Longrightarrow> e \<noteq> Life_shutdown \<Longrightarrow> lifecycle_step e a a"
| life_reset: "lifecycle_step Life_reset a Not_connected"
| life_shutdown: "lifecycle_step Life_shutdown a Ended"
| life_connect: "lifecycle_step Life_connect Not_connected Being_connected"
| life_open: "a \<in> {Not_connected, Being_connected} \<Longrightarrow> c \<noteq> 0 \<Longrightarrow> lifecycle_step (Life_response c no_error) a (Open (ucast c))"
| life_refused: "c = 0 \<or> status \<noteq> no_error \<Longrightarrow> lifecycle_step (Life_response c status) Being_connected Not_connected"
| life_unreachable: "lifecycle_step Life_connect_timeout Being_connected Ended"
| life_send: "a \<in> {Not_connected, Being_connected} \<or> (\<exists>c'. a = Open c') \<Longrightarrow> c \<noteq> 0 \<Longrightarrow> c \<le> 0xFF \<Longrightarrow> q \<le> 0xFF \<Longrightarrow>
    lifecycle_step (Life_request False c q) a (Awaiting c q)"
| life_send_stream: "c \<noteq> 0 \<Longrightarrow> c \<le> 0xFF \<Longrightarrow> q \<le> 0xFF \<Longrightarrow> lifecycle_step (Life_request True c q) (Open c') (Open c)"
| life_ack: "lifecycle_step (Life_ack c q) (Awaiting c q) (Open c)"
| life_unanswered: "lifecycle_step Life_ack_timeout (Awaiting c q) Ended"
| life_lost: "lifecycle_step Life_supervision (Open c) Ended"
| life_disconnect: "lifecycle_step Life_disconnect (Open c) (Being_closed c)"
| life_asked: "lifecycle_step (Life_disconnect_request c) (Open c) (Being_closed c)"
| life_closed: "lifecycle_step (Life_disconnect_response c) (Being_closed c) Ended"
| life_abandoned: "lifecycle_step Life_disconnect_timeout (Being_closed c) Ended"

inductive_simps lifecycle_step_simps:
  "lifecycle_step Life_reset a b" "lifecycle_step Life_shutdown a b" "lifecycle_step Life_quiet a b"
  "lifecycle_step Life_connect a b" "lifecycle_step (Life_response c status) a b" "lifecycle_step Life_connect_timeout a b"
  "lifecycle_step (Life_request stream c q) a b" "lifecycle_step (Life_ack c q) a b" "lifecycle_step Life_ack_timeout a b"
  "lifecycle_step Life_supervision a b" "lifecycle_step Life_disconnect a b" "lifecycle_step Life_disconnect_timeout a b"
  "lifecycle_step (Life_disconnect_request c) a b" "lifecycle_step (Life_disconnect_response c) a b"

definition timeouts :: "nat \<Rightarrow> tunnelling_session \<Rightarrow> tunnelling_session" where
  "timeouts n = (snd \<circ> on_timeout) ^^ n"

definition connect_timeouts :: "nat \<Rightarrow> tunnelling_session \<Rightarrow> tunnelling_session" where
  "connect_timeouts n = (snd \<circ> on_connect_timeout) ^^ n"

fun consecutive :: "byte \<Rightarrow> byte list \<Rightarrow> bool" where
  "consecutive n [] \<longleftrightarrow> True"
| "consecutive n (x # xs) \<longleftrightarrow> x = n \<and> consecutive (n + 1) xs"

definition taken_indication :: "datagram \<Rightarrow> tunnelling_session \<Rightarrow> byte list" where
  "taken_indication v s =
     (case dg_payload v of
        Payload_tunnelling_request f \<Rightarrow> if fst (on_datagram v s) = Inr () then [tr_sequence_number f] else []
      | _ \<Rightarrow> [])"

fun taken_indications :: "datagram list \<Rightarrow> tunnelling_session \<Rightarrow> byte list" where
  "taken_indications [] s = []"
| "taken_indications (v # vs) s = taken_indication v s @ taken_indications vs (snd (on_datagram v s))"

definition tracking :: "tunnelling_session \<Rightarrow> bool" where
  "tracking s \<longleftrightarrow> ts_state s \<noteq> Idle \<and> ts_state s \<noteq> Connecting \<and> ts_incoming_sequence_valid s"

definition keeps_numbering :: "tunnelling_session \<Rightarrow> tunnelling_session \<Rightarrow> bool" where
  "keeps_numbering s s' \<longleftrightarrow> ts_stream s' = ts_stream s \<and>
     (tracking s \<longrightarrow> tracking s' \<and> ts_next_incoming_sequence s' = ts_next_incoming_sequence s)"

definition sample_cemi :: bytes where
  "sample_cemi = [0x11, 0, 0xBC, 0xE0, 0, 0, 8, 1, 1, 0, 0x81]"

definition sample_open_session :: tunnelling_session where
  "sample_open_session = (new_session default_tunnelling_config) \<lparr> ts_state := Connected, ts_channel_id := 5 \<rparr>"

definition sample_indication :: "byte \<Rightarrow> datagram" where
  "sample_indication q = \<lparr> dg_service_type = 0x0420, dg_payload = Payload_tunnelling_request
     (sample_request \<lparr> tr_channel_id := 5, tr_sequence_number := q \<rparr>) \<rparr>"

subsection \<open>Lemmas\<close>

lemma unat_ucast_octet [simp]: "unat (ucast (x :: byte) :: u16) = unat x"
  using unat_byte_less [of x] by (simp add: unsigned_ucast_eq take_bit_small)

lemma unat_ucast_u16: "unat (ucast (x :: u16) :: u32) = unat x"
  using unat_u16_less [of x] by (simp add: unsigned_ucast_eq take_bit_nat_eq_self)

lemma ucast_octet_le [simp]: "(ucast (x :: byte) :: u16) \<le> 0xFF"
  using unat_byte_less [of x] by (simp add: word_le_nat_alt)

lemma ucast_octet_not_gt [simp]: "\<not> 0xFF < (ucast (x :: byte) :: u16)"
  by (simp add: not_less)

lemma ucast_octet_eq_0 [simp]: "(ucast (x :: byte) :: u16) = 0 \<longleftrightarrow> x = 0"
  by (metis unat_ucast_octet unat_eq_zero)

lemma ucast_octet_inject [simp]: "(ucast (x :: byte) :: u16) = ucast y \<longleftrightarrow> x = y"
  by (metis unat_ucast_octet word_unat_eq_iff)

lemma ucast_down_up: "(c :: u16) \<le> 0xFF \<Longrightarrow> ucast (ucast c :: byte) = c"
  by (rule word_unat_eq_iff [THEN iffD2]) (simp add: unsigned_ucast_eq take_bit_small word_le_nat_alt)

lemma ucast_down_eq_0: "(c :: u16) \<le> 0xFF \<Longrightarrow> (ucast c :: byte) = 0 \<longleftrightarrow> c = 0"
  by (metis ucast_down_up ucast_octet_eq_0)

lemma ucast_down_inc: "(ucast (c + 1 :: u16) :: byte) = ucast c + 1"
  by (rule word_unat_eq_iff [THEN iffD2])
    (simp add: unsigned_ucast_eq unat_word_ariths take_bit_nat_def mod_mod_cancel mod_simps)

lemma default_hpai_wf [simp]: "hpai_wf default_hpai"
  by (simp add: hpai_wf_def default_hpai_def)

lemma encoded_length_wire:
  assumes "6 + length b \<le> length d" "length b < 65530"
  shows "take (encoded_length (write_at d 0 (knx_packet s b))) (write_at d 0 (knx_packet s b)) = knx_packet s b"
proof -
  have "encoded_length (write_at d 0 (knx_packet s b)) = 6 + length b"
    using assms unat_u16_of_nat [of "6 + length b"]
    by (simp add: encoded_length_def write_at_def knx_packet_def header_wire_def nth_append)
  then show ?thesis using assms(1) by simp
qed

lemma encoded_connect_packet:
  assumes "connect_request_wf r" "encode_connect_request_packet d r = (Inr (), p)"
  shows "p = write_at d 0 (connect_request_wire r)" "take (encoded_length p) p = connect_request_wire r"
proof -
  have "connect_request_ok r" "length (connect_request_wire r) \<le> length d"
    using connect_request.encode_ok_iff [OF assms(1), of d] assms(2) by simp_all
  then show p: "p = write_at d 0 (connect_request_wire r)" using connect_request.encode_wire [OF assms(1)] assms(2) by simp
  show "take (encoded_length p) p = connect_request_wire r"
    using requested_wire_length [of "cr_requested_address r"] \<open>length (connect_request_wire r) \<le> length d\<close> assms(1)
    unfolding p connect_request_wire_def by (intro encoded_length_wire) (simp_all add: connect_request_wf_def)
qed

lemma new_session_inv: "session_inv (new_session cfg)"
  by (simp add: session_inv_def new_session_def)

named_theorems session_keeps

lemma reset_inv [session_keeps]: "session_inv s \<Longrightarrow> session_inv (reset s)"
  by (simp add: session_inv_def reset_def)

lemma use_stream_inv [session_keeps]: "session_inv s \<Longrightarrow> session_inv (use_stream_rules b s)"
  by (simp add: session_inv_def use_stream_rules_def)

lemma shutdown_inv [session_keeps]: "session_inv s \<Longrightarrow> session_inv (shutdown s)"
  by (simp add: session_inv_def shutdown_def)

lemma note_activity_inv [session_keeps]: "session_inv s \<Longrightarrow> session_inv (note_activity t s)"
  by (simp add: session_inv_def note_activity_def)

lemma note_heartbeat_inv [session_keeps]: "session_inv s \<Longrightarrow> session_inv (note_heartbeat_sent t s)"
  by (simp add: session_inv_def note_heartbeat_sent_def)

lemma prepare_connect_inv [session_keeps]:
  "session_inv s \<Longrightarrow> session_inv (snd (snd (prepare_connect_request_packet p r s)))"
  by (simp add: session_inv_def prepare_connect_request_packet_def split: prod.split sum.split)

lemma connect_wire_nonempty: "connect_request_wire r \<noteq> []"
  by (simp add: connect_request_wire_def knx_packet_def header_wire_def)

lemma start_connect_inv [session_keeps]:
  assumes "connect_request_wf r" "session_inv s"
  shows "session_inv (snd (snd (start_connect p r t s)))"
proof (cases "encode_connect_request_packet p r")
  case (Pair res q)
  show ?thesis
  proof (cases res)
    case (Inr u)
    then have "take (encoded_length q) q \<noteq> []"
      using encoded_connect_packet(2) [OF assms(1)] Pair connect_wire_nonempty by simp
    then show ?thesis using assms Pair Inr
      by (simp add: start_connect_def prepare_connect_request_packet_def session_inv_def connect_request_wf_def)
  qed (use assms Pair in \<open>simp add: start_connect_def prepare_connect_request_packet_def\<close>)
qed

lemma start_connect_raw_inv [session_keeps]: "session_inv s \<Longrightarrow> session_inv (snd (start_connect_raw p t s))"
  by (cases "p = []"; cases "ts_state s") (simp_all add: session_inv_def start_connect_raw_def frame_sizes)

lemma on_connect_response_inv [session_keeps]: "session_inv s \<Longrightarrow> session_inv (snd (on_connect_response f s))"
  by (simp add: session_inv_def on_connect_response_def abandon_connect_def)

lemma on_ipv6_connect_response_inv [session_keeps]:
  "session_inv s \<Longrightarrow> session_inv (snd (on_ipv6_connect_response f s))"
  by (simp add: on_ipv6_connect_response_def on_connect_response_inv)

lemma on_connect_timeout_inv [session_keeps]: "session_inv s \<Longrightarrow> session_inv (snd (on_connect_timeout s))"
  by (simp add: session_inv_def on_connect_timeout_def Let_def)

lemma begin_request_inv [session_keeps]: "session_inv s \<Longrightarrow> session_inv (snd (begin_request c q t s))"
  by (cases "ts_state s") (simp_all add: session_inv_def begin_request_def Let_def ucast_down_up ucast_down_inc
    ucast_down_eq_0 not_less)

lemma begin_next_request_inv [session_keeps]: "session_inv s \<Longrightarrow> session_inv (snd (begin_next_request c t s))"
  using begin_request_inv [of s "ucast c" "ucast (ts_next_sequence s)" t]
  by (auto simp: begin_next_request_def Let_def split: prod.split sum.split)

lemma on_ack_inv [session_keeps]: "session_inv s \<Longrightarrow> session_inv (snd (on_ack c q s))"
  by (cases "ts_state s") (simp_all add: session_inv_def on_ack_def, metis)

lemma on_ack_frame_inv [session_keeps]: "session_inv s \<Longrightarrow> session_inv (snd (on_ack_frame f s))"
  by (simp add: on_ack_frame_def on_ack_inv)

lemma check_inactivity_inv [session_keeps]: "session_inv s \<Longrightarrow> session_inv (snd (check_inactivity t s))"
  by (cases "ts_state s") (simp_all add: session_inv_def check_inactivity_def inactive_def)

lemma on_timeout_inv [session_keeps]: "session_inv s \<Longrightarrow> session_inv (snd (on_timeout s))"
  by (cases "ts_state s") (simp_all add: session_inv_def on_timeout_def Let_def not_less)

lemma count_failure_inv: "session_inv s \<Longrightarrow> ts_state s = Connected \<Longrightarrow> session_inv (snd (count_heartbeat_failure s))"
  by (simp add: session_inv_def count_heartbeat_failure_def Let_def not_le)

lemma on_connectionstate_response_inv [session_keeps]:
  "session_inv s \<Longrightarrow> session_inv (snd (on_connectionstate_response f s))"
  using count_failure_inv [of "s\<lparr>ts_heartbeat_outstanding := False\<rparr>"]
  by (simp add: on_connectionstate_response_def Let_def) (simp add: session_inv_def)

lemma on_connectionstate_timeout_inv [session_keeps]:
  "session_inv s \<Longrightarrow> session_inv (snd (on_connectionstate_timeout s))"
  by (simp add: on_connectionstate_timeout_def count_failure_inv)

lemma check_heartbeat_inv [session_keeps]: "session_inv s \<Longrightarrow> session_inv (snd (check_heartbeat t s))"
  using on_connectionstate_timeout_inv [of "s\<lparr>ts_heartbeat_outstanding := False\<rparr>"]
  by (simp add: check_heartbeat_def) (simp add: session_inv_def)

lemma prepare_disconnect_inv [session_keeps]:
  "session_inv s \<Longrightarrow> session_inv (snd (snd (prepare_disconnect_request_packet p s)))"
  by (simp add: session_inv_def prepare_disconnect_request_packet_def split: prod.split sum.split)

lemma on_disconnect_timeout_inv [session_keeps]: "session_inv s \<Longrightarrow> session_inv (snd (on_disconnect_timeout s))"
  by (simp add: session_inv_def on_disconnect_timeout_def Let_def)

lemma on_disconnect_request_inv [session_keeps]: "session_inv s \<Longrightarrow> session_inv (snd (on_disconnect_request f s))"
  by (cases "ts_state s") (simp_all add: session_inv_def on_disconnect_request_def)

lemma on_disconnect_response_inv [session_keeps]: "session_inv s \<Longrightarrow> session_inv (snd (on_disconnect_response f s))"
  by (simp add: on_disconnect_response_def shutdown_inv)

lemma on_indication_inv [session_keeps]: "session_inv s \<Longrightarrow> session_inv (snd (on_indication f s))"
  by (simp add: session_inv_def on_indication_def)

lemma on_connectionstate_request_inv [session_keeps]:
  "session_inv s \<Longrightarrow> session_inv (snd (on_connectionstate_request f s))"
  by (simp add: on_connectionstate_request_def)

lemma prepare_request_inv [session_keeps]:
  assumes "session_inv s"
  shows "session_inv (snd (snd (prepare_request_packet p c cemi t s)))"
proof (cases "encode_tunnelling_request_packet p c (ts_next_sequence s) cemi")
  case (Pair res q)
  show ?thesis
  proof (cases res)
    case (Inr u)
    then show ?thesis using assms Pair
      by (cases "ts_state s") (simp_all add: prepare_request_packet_def begin_request_def Let_def session_inv_def
        ucast_down_up ucast_down_inc not_less)
  qed (use assms Pair in \<open>simp add: prepare_request_packet_def Let_def\<close>)
qed

lemma on_datagram_inv [session_keeps]: "session_inv s \<Longrightarrow> session_inv (snd (on_datagram v s))"
  by (simp add: on_datagram_def on_response_datagram_def on_request_datagram_def session_keeps
    split: datagram_payload.split)

lemma dispatch_datagram_inv [session_keeps]: "session_inv s \<Longrightarrow> session_inv (snd (dispatch_session_datagram v t s))"
  using on_datagram_inv [of s v]
  by (auto simp: dispatch_session_datagram_def note_activity_inv split: prod.split sum.split)

lemma prepare_response_inv [session_keeps]:
  "session_inv s \<Longrightarrow> session_inv (snd (snd (prepare_response_datagram p v st s)))"
  using on_datagram_inv [of s v]
  by (auto simp: prepare_response_datagram_def split: prod.split sum.split)

lemma packet_inv [session_keeps]:
  assumes "session_inv s"
  shows "session_inv (snd (on_connect_response_packet p s))" "session_inv (snd (on_ack_packet p s))"
    "session_inv (snd (on_connectionstate_response_packet p s))" "session_inv (snd (on_disconnect_response_packet p s))"
    "session_inv (snd (on_datagram_packet p s))" "session_inv (snd (dispatch_session_packet p t s))"
    "session_inv (snd (snd (prepare_response_packet q p st s)))"
  using assms by (simp_all add: on_connect_response_packet_def on_ack_packet_def on_connectionstate_response_packet_def
    on_disconnect_response_packet_def on_datagram_packet_def dispatch_session_packet_def prepare_response_packet_def
    session_keeps split: sum.split)

lemma session_does_inv: "session_does e s s' \<Longrightarrow> session_inv s \<Longrightarrow> session_inv s'"
  by (induction rule: session_does.induct) (simp_all add: session_keeps)


named_theorems session_sim

lemma event_of_simps [simp]: "event_of f (Inl e) = Life_quiet" "event_of f (Inr x) = f x"
  by (simp_all add: event_of_def)

lemmas life_simps = session_lifecycle_def lifecycle_step_simps response_event_def ack_event_def disconnect_response_event_def

lemma simple_sim [session_sim]:
  "session_lifecycle (reset s) = Not_connected" "session_lifecycle (shutdown s) = Ended"
  "session_lifecycle (use_stream_rules b s) = session_lifecycle s" "session_lifecycle (note_activity t s) = session_lifecycle s"
  "session_lifecycle (note_heartbeat_sent t s) = session_lifecycle s"
  "session_lifecycle (snd (snd (prepare_connect_request_packet p r s))) = session_lifecycle s"
  "session_lifecycle (snd (on_indication i s)) = session_lifecycle s"
  "session_lifecycle (snd (on_connectionstate_request cq s)) = session_lifecycle s"
  by (cases "ts_state s"; simp add: session_lifecycle_def reset_def use_stream_rules_def shutdown_def note_activity_def
    note_heartbeat_sent_def prepare_connect_request_packet_def on_indication_def on_connectionstate_request_def
    split: prod.split sum.split)+

lemma connect_sim [session_sim]:
  "lifecycle_step Life_connect (session_lifecycle s) (session_lifecycle (snd (snd (start_connect p r t s))))"
  "lifecycle_step Life_connect (session_lifecycle s) (session_lifecycle (snd (start_connect_raw p t s)))"
  "lifecycle_step (response_event f) (session_lifecycle s) (session_lifecycle (snd (on_connect_response f s)))"
  "lifecycle_step (Life_response (cs6_channel_id f6) (cs6_status f6)) (session_lifecycle s)
     (session_lifecycle (snd (on_ipv6_connect_response f6 s)))"
  "lifecycle_step Life_connect_timeout (session_lifecycle s) (session_lifecycle (snd (on_connect_timeout s)))"
  by (cases "ts_state s"; simp add: life_simps prepare_connect_request_packet_def start_connect_def
    start_connect_raw_def on_connect_response_def on_ipv6_connect_response_def abandon_connect_def on_connect_timeout_def Let_def
    split: prod.split sum.split)+

lemma request_sim [session_sim]:
  assumes "session_inv s"
  shows "lifecycle_step (Life_request (ts_stream s) c q) (session_lifecycle s) (session_lifecycle (snd (begin_request c q t s)))"
    "lifecycle_step (Life_ack c q) (session_lifecycle s) (session_lifecycle (snd (on_ack c q s)))"
    "lifecycle_step (ack_event f) (session_lifecycle s) (session_lifecycle (snd (on_ack_frame f s)))"
    "lifecycle_step Life_ack_timeout (session_lifecycle s) (session_lifecycle (snd (on_timeout s)))"
  using assms by (cases "ts_state s"; simp add: life_simps session_inv_def begin_request_def on_ack_def on_ack_frame_def
    on_timeout_def Let_def not_less ucast_down_up ucast_down_eq_0)+

lemma begin_next_sim [session_sim]:
  "session_inv s \<Longrightarrow> lifecycle_step (Life_request (ts_stream s) (ucast c8) (ucast (ts_next_sequence s))) (session_lifecycle s)
     (session_lifecycle (snd (begin_next_request c8 t s)))"
  using request_sim(1) [of s "ucast c8" "ucast (ts_next_sequence s)" t]
  by (auto simp: begin_next_request_def Let_def split: prod.split sum.split)

lemma prepare_request_sim [session_sim]:
  assumes "session_inv s"
  shows "lifecycle_step (Life_request (ts_stream s) (ucast c8) (ucast (ts_next_sequence s))) (session_lifecycle s)
    (session_lifecycle (snd (snd (prepare_request_packet p c8 cemi t s))))"
proof (cases "encode_tunnelling_request_packet p c8 (ts_next_sequence s) cemi")
  case (Pair res q)
  then show ?thesis using assms
    by (cases res; cases "ts_state s"; cases "ts_stream s") (simp_all add: prepare_request_packet_def begin_request_def Let_def
      session_inv_def life_simps)
qed

lemma supervision_sim [session_sim]:
  "lifecycle_step Life_supervision (session_lifecycle s) (session_lifecycle (snd (check_inactivity t s)))"
  "lifecycle_step Life_supervision (session_lifecycle s) (session_lifecycle (snd (on_connectionstate_response h s)))"
  "lifecycle_step Life_supervision (session_lifecycle s) (session_lifecycle (snd (on_connectionstate_timeout s)))"
  "lifecycle_step Life_supervision (session_lifecycle s) (session_lifecycle (snd (check_heartbeat t s)))"
  by (cases "ts_state s"; simp add: life_simps check_inactivity_def inactive_def on_connectionstate_response_def
    on_connectionstate_timeout_def check_heartbeat_def count_heartbeat_failure_def Let_def)+

lemma disconnect_sim [session_sim]:
  "lifecycle_step Life_disconnect (session_lifecycle s) (session_lifecycle (snd (snd (prepare_disconnect_request_packet p s))))"
  "lifecycle_step Life_disconnect_timeout (session_lifecycle s) (session_lifecycle (snd (on_disconnect_timeout s)))"
  "lifecycle_step (Life_disconnect_request (ucast (dr_channel_id dq))) (session_lifecycle s)
     (session_lifecycle (snd (on_disconnect_request dq s)))"
  "lifecycle_step (disconnect_response_event ds) (session_lifecycle s) (session_lifecycle (snd (on_disconnect_response ds s)))"
  by (cases "ts_state s"; simp add: life_simps prepare_disconnect_request_packet_def on_disconnect_timeout_def
    on_disconnect_request_def on_disconnect_response_def shutdown_def Let_def split: prod.split sum.split)+

lemma datagram_event_moves [simp]: "datagram_event v \<noteq> Life_reset" "datagram_event v \<noteq> Life_shutdown"
  by (simp_all add: datagram_event_def response_event_def ack_event_def disconnect_response_event_def split: datagram_payload.split)

lemma on_datagram_sim [session_sim]:
  assumes "session_inv s"
  shows "lifecycle_step (datagram_event v) (session_lifecycle s) (session_lifecycle (snd (on_datagram v s)))"
proof (cases "snd (on_datagram v s) = s")
  case True
  then show ?thesis by (simp add: life_stay)
next
  case False
  then show ?thesis using assms
    by (cases "dg_payload v") (simp_all add: datagram_event_def on_datagram_def on_response_datagram_def on_request_datagram_def
      session_sim life_stay split: if_split_asm)
qed

lemma dispatch_sim [session_sim]:
  "session_inv s \<Longrightarrow> lifecycle_step (datagram_event v) (session_lifecycle s) (session_lifecycle (snd (dispatch_session_datagram v t s)))"
  using on_datagram_sim [of s v] by (auto simp: dispatch_session_datagram_def simple_sim split: prod.split sum.split)

lemma prepare_response_sim [session_sim]:
  "session_inv s \<Longrightarrow>
   lifecycle_step (datagram_event v) (session_lifecycle s) (session_lifecycle (snd (snd (prepare_response_datagram p v st s))))"
  using on_datagram_sim [of s v] by (auto simp: prepare_response_datagram_def life_stay split: prod.split sum.split)

lemma packet_sim [session_sim]:
  assumes "session_inv s"
  shows "lifecycle_step (event_of response_event (decode_connect_response_packet p)) (session_lifecycle s)
      (session_lifecycle (snd (on_connect_response_packet p s)))"
    "lifecycle_step (event_of ack_event (decode_tunnelling_ack_packet p)) (session_lifecycle s)
      (session_lifecycle (snd (on_ack_packet p s)))"
    "lifecycle_step Life_supervision (session_lifecycle s) (session_lifecycle (snd (on_connectionstate_response_packet p s)))"
    "lifecycle_step (event_of datagram_event (decode_datagram p)) (session_lifecycle s) (session_lifecycle (snd (on_datagram_packet p s)))"
    "lifecycle_step (event_of datagram_event (decode_datagram p)) (session_lifecycle s)
      (session_lifecycle (snd (dispatch_session_packet p t s)))"
    "lifecycle_step (event_of datagram_event (decode_datagram p)) (session_lifecycle s)
      (session_lifecycle (snd (snd (prepare_response_packet q p st s))))"
  using assms by (simp_all add: on_connect_response_packet_def on_ack_packet_def on_connectionstate_response_packet_def
    on_datagram_packet_def dispatch_session_packet_def prepare_response_packet_def session_sim life_stay split: sum.split)

lemma disconnect_packet_sim [session_sim]:
  "lifecycle_step (event_of disconnect_response_event (decode_disconnect_response_packet p)) (session_lifecycle s)
     (session_lifecycle (snd (on_disconnect_response_packet p s)))"
  by (cases "decode_disconnect_response_packet p"; cases "ts_state s")
    (simp_all add: on_disconnect_response_packet_def life_simps shutdown_def)

lemma session_does_sim:
  "session_does e s s' \<Longrightarrow> session_inv s \<Longrightarrow> lifecycle_step e (session_lifecycle s) (session_lifecycle s')"
  by (induction rule: session_does.induct) (simp_all add: session_sim life_stay life_reset life_shutdown)

interpretation session_life: simulation "\<lambda>s. \<exists>cfg. s = new_session cfg" session_does session_inv
  session_lifecycle lifecycle_step
  by unfold_locales (auto simp: new_session_inv intro: session_does_inv session_does_sim)

text \<open>What only a reset or the matching acknowledgement can undo.\<close>

lemma lifecycle_ended: "trace lifecycle_step es a b \<Longrightarrow> Life_reset \<notin> set es \<Longrightarrow> a = Ended \<Longrightarrow> b = Ended"
  by (erule trace_keeps [where P = "\<lambda>a. a = Ended"]) (auto elim: lifecycle_step.cases)

lemma lifecycle_closing:
  "trace lifecycle_step es a b \<Longrightarrow> Life_reset \<notin> set es \<Longrightarrow> a = Being_closed c \<Longrightarrow> b \<in> {Being_closed c, Ended}"
  by (erule trace_keeps [where P = "\<lambda>a. a \<in> {Being_closed c, Ended}"]) (auto elim: lifecycle_step.cases)

lemma lifecycle_awaiting:
  "trace lifecycle_step es a b \<Longrightarrow> Life_reset \<notin> set es \<Longrightarrow> Life_ack c q \<notin> set es \<Longrightarrow> a = Awaiting c q \<Longrightarrow>
   b \<in> {Awaiting c q, Ended}"
  by (erule trace_keeps [where P = "\<lambda>a. a \<in> {Awaiting c q, Ended}"]) (auto elim: lifecycle_step.cases)

text \<open>Acknowledgements\<close>

lemma octet_of_u16: "(c :: u16) \<le> 0xFF \<Longrightarrow> ucast (x :: byte) = c \<longleftrightarrow> x = ucast c"
  by (metis ucast_down_up ucast_octet_inject)

lemma on_ack_packet_accepts:
  assumes "session_inv s"
  shows "fst (on_ack_packet p s) = Inr () \<longleftrightarrow> ts_pending s \<and> p = tunnelling_ack_wire
    \<lparr> ta_channel_id = ucast (ts_channel_id s), ta_sequence_number = ucast (ts_expected_sequence s), ta_status = 0 \<rparr>"
proof -
  have le: "ts_channel_id s \<le> 0xFF" "ts_expected_sequence s \<le> 0xFF" using assms by (simp_all add: session_inv_def)
  have ch: "ts_pending s \<Longrightarrow> (ucast (ts_channel_id s) :: byte) \<noteq> 0"
    using assms ucast_down_eq_0 [OF le(1)] by (simp add: session_inv_def)
  show ?thesis
  proof (cases "decode_tunnelling_ack_packet p")
    case (Inl e)
    then have "\<not> (ts_pending s \<and> p = tunnelling_ack_wire \<lparr> ta_channel_id = ucast (ts_channel_id s),
      ta_sequence_number = ucast (ts_expected_sequence s), ta_status = 0 \<rparr>)"
      using tunnelling_ack_canonical.decode_iff ch by (metis Inl_Inr_False tunnelling_ack_frame.select_convs(1))
    then show ?thesis using Inl by (simp add: on_ack_packet_def)
  next
    case (Inr a)
    then have p: "p = tunnelling_ack_wire a" "ta_channel_id a \<noteq> 0"
      using tunnelling_ack_canonical.decode_iff by blast+
    have "fst (on_ack_packet p s) = Inr () \<longleftrightarrow> ts_pending s \<and> ta_status a = 0 \<and>
      ta_channel_id a = ucast (ts_channel_id s) \<and> ta_sequence_number a = ucast (ts_expected_sequence s)"
      using Inr octet_of_u16 [OF le(1), of "ta_channel_id a"] octet_of_u16 [OF le(2), of "ta_sequence_number a"]
      by (auto simp: on_ack_packet_def on_ack_frame_def on_ack_def)
    also have "\<dots> \<longleftrightarrow> ts_pending s \<and> a = \<lparr> ta_channel_id = ucast (ts_channel_id s),
      ta_sequence_number = ucast (ts_expected_sequence s), ta_status = 0 \<rparr>"
      by (cases a) auto
    also have "\<dots> \<longleftrightarrow> ts_pending s \<and> p = tunnelling_ack_wire \<lparr> ta_channel_id = ucast (ts_channel_id s),
      ta_sequence_number = ucast (ts_expected_sequence s), ta_status = 0 \<rparr>"
      using tunnelling_ack.wire_inject [of a "\<lparr> ta_channel_id = ucast (ts_channel_id s),
        ta_sequence_number = ucast (ts_expected_sequence s), ta_status = 0 \<rparr>"] p ch by auto
    finally show ?thesis .
  qed
qed

lemma on_ack_packet_result:
  "snd (on_ack_packet p s) = (if fst (on_ack_packet p s) = Inr ()
     then s \<lparr> ts_pending := False, ts_request_packet := [], ts_state := Connected, ts_retries := 0 \<rparr> else s)"
  by (auto simp: on_ack_packet_def on_ack_frame_def on_ack_def split: sum.split)

text \<open>Retransmission\<close>

lemma timeouts_Suc: "timeouts (Suc n) s = snd (on_timeout (timeouts n s))"
  by (simp add: timeouts_def)

lemma on_timeout_retry:
  assumes "ts_pending s" "unat (ts_retries s) < unat (tc_max_retries (ts_config s))"
  shows "on_timeout s = (Inr (), s \<lparr> ts_retries := ts_retries s + 1, ts_state := Waiting_ack,
      ts_last_deadline_ms := ts_last_deadline_ms s + tc_ack_timeout_ms (ts_config s) \<rparr>) \<and>
    unat (ts_retries s + 1) = Suc (unat (ts_retries s))"
proof -
  have u: "unat (ts_retries s + 1) = Suc (unat (ts_retries s))"
    using assms(2) unat_u16_less [of "tc_max_retries (ts_config s)"] by (simp add: unat_word_ariths)
  then have "\<not> ts_retries s + 1 > ucast (tc_max_retries (ts_config s))"
    using assms(2) by (simp add: not_less word_le_nat_alt unat_ucast_u16)
  with assms u show ?thesis by (simp add: on_timeout_def Let_def)
qed

lemma on_timeout_closes:
  assumes "ts_pending s" "unat (ts_retries s) = unat (tc_max_retries (ts_config s))"
  shows "fst (on_timeout s) = Inl Timeout" "ts_state (snd (on_timeout s)) = Closed"
proof -
  have "unat (ts_retries s + 1) = Suc (unat (tc_max_retries (ts_config s)))"
    using assms(2) unat_u16_less [of "tc_max_retries (ts_config s)"] by (simp add: unat_word_ariths)
  then have "ts_retries s + 1 > ucast (tc_max_retries (ts_config s))" by (simp add: word_less_nat_alt unat_ucast_u16)
  with assms(1) show "fst (on_timeout s) = Inl Timeout" "ts_state (snd (on_timeout s)) = Closed"
    by (simp_all add: on_timeout_def Let_def)
qed

lemma timeouts_wait:
  assumes "session_inv s" "ts_pending s" "unat (ts_retries s) + n \<le> unat (tc_max_retries (ts_config s))"
  shows "ts_state (timeouts n s) = Waiting_ack \<and> ts_pending (timeouts n s) \<and>
    ts_config (timeouts n s) = ts_config s \<and> unat (ts_retries (timeouts n s)) = unat (ts_retries s) + n \<and>
    ts_request_packet (timeouts n s) = ts_request_packet s"
  using assms(3)
proof (induction n)
  case 0
  show ?case using assms(1,2) by (simp add: timeouts_def session_inv_def)
next
  case (Suc n)
  then show ?case using on_timeout_retry [of "timeouts n s"] by (simp add: timeouts_Suc)
qed

text \<open>Connect and disconnect retries, counted in 16 bits\<close>

lemma connect_timeout_step:
  assumes "ts_state s = Connecting" "\<not> ts_stream s"
  shows "ts_state (snd (on_connect_timeout s)) =
      (if ts_connect_retries s + 1 > tc_max_retries (ts_config s) then Closed else Connecting) \<and>
    ts_connect_retries (snd (on_connect_timeout s)) = ts_connect_retries s + 1 \<and>
    ts_config (snd (on_connect_timeout s)) = ts_config s \<and> ts_stream (snd (on_connect_timeout s)) = ts_stream s"
  using assms by (simp add: on_connect_timeout_def Let_def)

lemma connect_timeouts_Suc: "connect_timeouts (Suc n) s = snd (on_connect_timeout (connect_timeouts n s))"
  by (simp add: connect_timeouts_def)

lemma connect_timeouts_wait:
  assumes "ts_state s = Connecting" "\<not> ts_stream s" "ts_connect_retries s = 0"
    and "n \<le> unat (tc_max_retries (ts_config s))"
  shows "ts_state (connect_timeouts n s) = Connecting \<and> unat (ts_connect_retries (connect_timeouts n s)) = n \<and>
    ts_config (connect_timeouts n s) = ts_config s \<and> \<not> ts_stream (connect_timeouts n s)"
  using assms(4)
proof (induction n)
  case 0
  show ?case using assms(1-3) by (simp add: connect_timeouts_def)
next
  case (Suc n)
  let ?u = "connect_timeouts n s"
  have IH: "ts_state ?u = Connecting \<and> unat (ts_connect_retries ?u) = n \<and> ts_config ?u = ts_config s \<and> \<not> ts_stream ?u"
    using Suc by simp
  have v: "unat (ts_connect_retries ?u + 1) = Suc n"
    using IH Suc.prems unat_u16_less [of "tc_max_retries (ts_config s)"] by (simp add: unat_word_ariths)
  then have "\<not> ts_connect_retries ?u + 1 > tc_max_retries (ts_config s)"
    using Suc.prems by (simp add: not_less word_le_nat_alt)
  then show ?case using connect_timeout_step [of ?u] IH v by (simp add: connect_timeouts_Suc)
qed

lemma connect_timeouts_close:
  assumes "ts_state s = Connecting" "\<not> ts_stream s" "ts_connect_retries s = 0" "tc_max_retries (ts_config s) < 0xFFFF"
  shows "ts_state (connect_timeouts (Suc (unat (tc_max_retries (ts_config s)))) s) = Closed"
proof -
  let ?m = "tc_max_retries (ts_config s)"
  let ?u = "connect_timeouts (unat ?m) s"
  have u: "ts_state ?u = Connecting" "unat (ts_connect_retries ?u) = unat ?m" "ts_config ?u = ts_config s" "\<not> ts_stream ?u"
    using connect_timeouts_wait [OF assms(1-3), of "unat ?m"] by simp_all
  have "unat (ts_connect_retries ?u + 1) = Suc (unat ?m)"
    using u(2) assms(4) by (simp add: unat_word_ariths word_less_nat_alt)
  then have "ts_connect_retries ?u + 1 > ?m" by (simp add: word_less_nat_alt)
  then show ?thesis using connect_timeout_step [OF u(1,4)] u(3) by (simp add: connect_timeouts_Suc)
qed

lemma connect_timeouts_unbounded:
  assumes "ts_state s = Connecting" "\<not> ts_stream s" "tc_max_retries (ts_config s) = 0xFFFF"
  shows "ts_state (connect_timeouts n s) = Connecting \<and> ts_config (connect_timeouts n s) = ts_config s \<and>
    \<not> ts_stream (connect_timeouts n s)"
proof (induction n)
  case 0
  show ?case using assms(1-2) by (simp add: connect_timeouts_def)
next
  case (Suc n)
  have "\<not> (x :: u16) > 0xFFFF" for x using unat_u16_less [of x] by (simp add: word_less_nat_alt)
  then show ?case using connect_timeout_step [of "connect_timeouts n s"] Suc assms(3) by (simp add: connect_timeouts_Suc)
qed

text \<open>Refused requests\<close>

lemma on_indication_accepts:
  "fst (on_indication f s) = Inr () \<longleftrightarrow> ts_state s = Connected \<and> ucast (tr_channel_id f) = ts_channel_id s \<and>
     tr_cemi_bytes f \<noteq> [] \<and> \<not> duplicate_indication f s \<and> \<not> out_of_order_indication f s"
  by (simp add: on_indication_def)

lemma on_indication_result:
  "snd (on_indication f s) = (if fst (on_indication f s) = Inr ()
     then s \<lparr> ts_incoming_sequence_valid := True, ts_last_incoming_sequence := tr_sequence_number f,
       ts_next_incoming_sequence := tr_sequence_number f + 1 \<rparr> else s)"
  by (simp add: on_indication_def)

lemma on_request_refused:
  "fst (on_indication f s) = Inl e \<Longrightarrow> snd (on_indication f s) = s"
  "fst (on_connectionstate_request g s) = Inl e \<Longrightarrow> snd (on_connectionstate_request g s) = s"
  "fst (on_disconnect_request h s) = Inl e \<Longrightarrow> snd (on_disconnect_request h s) = s"
  by (simp_all add: on_indication_result on_connectionstate_request_def on_disconnect_request_def split: if_split_asm)

lemma answered_payload:
  assumes "fst (encode_response_datagram p v st) = Inr ()"
  shows "(\<exists>f. dg_payload v = Payload_tunnelling_request f) \<or> (\<exists>f. dg_payload v = Payload_connectionstate_request f) \<or>
    (\<exists>f. dg_payload v = Payload_disconnect_request f)"
  using assms by (cases "dg_payload v") (simp_all add: encode_response_datagram_def)

lemma on_answered_refused:
  assumes "fst (encode_response_datagram p v st) = Inr ()" "fst (on_datagram v s) = Inl e"
  shows "snd (on_datagram v s) = s"
  using answered_payload [OF assms(1)]
proof (elim disjE exE)
  fix f assume "dg_payload v = Payload_tunnelling_request f"
  then show ?thesis using assms(2) on_request_refused(1) [of f s e]
    by (simp add: on_datagram_def on_response_datagram_def on_request_datagram_def split: if_split_asm)
next
  fix f assume "dg_payload v = Payload_connectionstate_request f"
  then show ?thesis using assms(2) on_request_refused(2) [of f s e]
    by (simp add: on_datagram_def on_response_datagram_def on_request_datagram_def split: if_split_asm)
next
  fix f assume "dg_payload v = Payload_disconnect_request f"
  then show ?thesis using assms(2) on_request_refused(3) [of f s e]
    by (simp add: on_datagram_def on_response_datagram_def on_request_datagram_def split: if_split_asm)
qed

lemma prepare_response_outcome:
  assumes "prepare_response_datagram p v st s = (r, p', s')"
  shows "case r of Inl e \<Rightarrow> s' = s
    | Inr _ \<Rightarrow> encode_response_datagram p v st = (Inr (), p') \<and> on_datagram v s = (Inr (), s')"
proof (cases "check_response_request v s")
  case (Inr u)
  obtain er ep where e: "encode_response_datagram p v st = (er, ep)" by (cases "encode_response_datagram p v st")
  obtain dr ds where d: "on_datagram v s = (dr, ds)" by (cases "on_datagram v s")
  have keep: "ds = s" if "er = Inr ()" "dr = Inl x" for x using on_answered_refused [of p v st s x] that e d by simp
  have "prepare_response_datagram p v st s = (case er of Inl x \<Rightarrow> (Inl x, ep, s)
    | Inr _ \<Rightarrow> (case dr of Inl x \<Rightarrow> (Inl x, ep, ds) | Inr _ \<Rightarrow> (Inr (), ep, ds)))"
    by (simp add: prepare_response_datagram_def Inr e d split: sum.split)
  with assms keep e d show ?thesis by (cases er; cases dr) auto
qed (use assms in \<open>auto simp: prepare_response_datagram_def split: sum.split\<close>)

text \<open>Indications\<close>

lemma on_datagram_indication:
  assumes "dg_payload v = Payload_tunnelling_request f"
  shows "on_datagram v s = (if dg_service_type v \<noteq> tunnelling_request_service then (Inl Invalid_configuration, s) else on_indication f s)"
  using assms by (simp add: on_datagram_def on_response_datagram_def on_request_datagram_def)

lemma keeps_handlers:
  "keeps_numbering s (snd (on_connect_response f s))" "keeps_numbering s (snd (on_connectionstate_response h s))"
  "keeps_numbering s (snd (on_ack c q s))" "keeps_numbering s (snd (on_disconnect_response ds s))"
  "keeps_numbering s (snd (on_connectionstate_request cq s))" "keeps_numbering s (snd (on_disconnect_request dq s))" "keeps_numbering s s"
  by (simp_all add: keeps_numbering_def tracking_def on_connect_response_def abandon_connect_def on_connectionstate_response_def
    count_heartbeat_failure_def Let_def on_ack_def on_disconnect_response_def shutdown_def on_connectionstate_request_def
    on_disconnect_request_def)

lemma other_datagram_keeps:
  assumes "\<nexists>f. dg_payload v = Payload_tunnelling_request f"
  shows "keeps_numbering s (snd (on_datagram v s))"
  using assms by (simp add: on_datagram_def on_response_datagram_def on_request_datagram_def on_ipv6_connect_response_def
    on_ack_frame_def keeps_handlers split: datagram_payload.split)

lemma on_datagram_stream [simp]: "ts_stream (snd (on_datagram v s)) = ts_stream s"
proof (cases "\<exists>f. dg_payload v = Payload_tunnelling_request f")
  case True
  then show ?thesis
    by (cases "dg_service_type v = tunnelling_request_service") (auto simp: on_datagram_indication on_indication_result split: if_splits)
next
  case False
  then show ?thesis using other_datagram_keeps [of v s] by (simp add: keeps_numbering_def)
qed

lemma taken_indication_cases:
  obtains (no) "taken_indication v s = []" "snd (on_datagram v s) = s \<or> (\<nexists>f. dg_payload v = Payload_tunnelling_request f)"
  | (yes) f where "taken_indication v s = [tr_sequence_number f]" "on_datagram v s = on_indication f s"
      "fst (on_indication f s) = Inr ()"
proof (cases "dg_payload v")
  case (Payload_tunnelling_request f)
  note d = on_datagram_indication [OF Payload_tunnelling_request, of s]
  show thesis
  proof (cases "fst (on_datagram v s) = Inr ()")
    case True
    then have "on_datagram v s = on_indication f s" using d by (simp split: if_split_asm)
    with True show thesis by (intro yes [of f]) (simp_all add: taken_indication_def Payload_tunnelling_request)
  next
    case False
    then have "snd (on_datagram v s) = s" using d
      by (cases "dg_service_type v = tunnelling_request_service") (simp_all add: on_indication_result)
    with False show thesis by (intro no) (simp_all add: taken_indication_def Payload_tunnelling_request)
  qed
qed (use no in \<open>simp_all add: taken_indication_def\<close>)

lemma taken_indication_effect:
  assumes "taken_indication v s = q # qs"
  shows "qs = [] \<and> tracking (snd (on_datagram v s)) \<and> ts_next_incoming_sequence (snd (on_datagram v s)) = q + 1 \<and>
    (\<not> ts_stream s \<and> tracking s \<longrightarrow> q = ts_next_incoming_sequence s)"
proof (cases rule: taken_indication_cases [of v s])
  case (yes f)
  then show ?thesis using assms on_indication_accepts [of f s]
    by (auto simp: on_indication_result tracking_def out_of_order_indication_def)
qed (use assms in simp)

lemma untaken_keeps:
  assumes "taken_indication v s = []" "tracking s"
  shows "tracking (snd (on_datagram v s)) \<and> ts_next_incoming_sequence (snd (on_datagram v s)) = ts_next_incoming_sequence s"
proof (cases rule: taken_indication_cases [of v s])
  case no
  then show ?thesis using other_datagram_keeps [of v s] assms(2) by (auto simp: keeps_numbering_def)
qed (use assms in simp)

lemma tracked_indications:
  "\<not> ts_stream s \<Longrightarrow> tracking s \<Longrightarrow> consecutive (ts_next_incoming_sequence s) (taken_indications vs s)"
proof (induction vs arbitrary: s)
  case (Cons v vs)
  show ?case
  proof (cases "taken_indication v s")
    case Nil
    then have "consecutive (ts_next_incoming_sequence (snd (on_datagram v s))) (taken_indications vs (snd (on_datagram v s)))"
      using Cons.IH [of "snd (on_datagram v s)"] Cons.prems untaken_keeps [OF Nil] by simp
    then show ?thesis using Nil untaken_keeps [OF Nil] Cons.prems by simp
  next
    case (Cons q qs)
    note q = taken_indication_effect [OF Cons]
    have "consecutive (q + 1) (taken_indications vs (snd (on_datagram v s)))"
      using Cons.IH [of "snd (on_datagram v s)"] Cons.prems q by simp
    then show ?thesis using q Cons.prems Cons by simp
  qed
qed simp

lemma indications_consecutive: "\<not> ts_stream s \<Longrightarrow> \<exists>n. consecutive n (taken_indications vs s)"
proof (induction vs arbitrary: s)
  case (Cons v vs)
  show ?case
  proof (cases "taken_indication v s")
    case Nil
    then show ?thesis using Cons by simp
  next
    case (Cons q qs)
    note q = taken_indication_effect [OF Cons]
    have "consecutive (q + 1) (taken_indications vs (snd (on_datagram v s)))"
      using tracked_indications [of "snd (on_datagram v s)" vs] Cons.prems q by simp
    then show ?thesis using q Cons by (intro exI [of _ q]) simp
  qed
qed simp

text \<open>Deadlines\<close>

lemma sint_difference:
  assumes "\<bar>k - d\<bar> < 2 ^ 31"
  shows "sint (word_of_int k - word_of_int d :: u32) = k - d"
proof -
  have "signed_take_bit 31 (k - d) = k - d" using assms by (intro signed_take_bit_int_eq_self) auto
  then show ?thesis unfolding wi_hom_sub sint_sbintrunc' by simp
qed

lemma sint_small: "0 \<le> w \<Longrightarrow> w < 2 ^ 31 \<Longrightarrow> sint (word_of_int w :: u32) = w"
  using sint_difference [of w 0] by simp

lemma expired_iff:
  assumes "ts_last_deadline_ms s = word_of_int d" "\<bar>now - d\<bar> < 2 ^ 31"
  shows "expired (word_of_int now) s \<longleftrightarrow> ts_pending s \<and> d \<le> now"
    "connect_expired (word_of_int now) s \<longleftrightarrow> ts_state s = Connecting \<and> d \<le> now"
  unfolding expired_def connect_expired_def assms(1) sint_difference [OF assms(2)] by simp_all

lemma inactive_iff:
  assumes "ts_last_activity_ms s = word_of_int a" "tc_inactivity_timeout_ms (ts_config s) = word_of_int w"
    and "\<bar>now - a\<bar> < 2 ^ 31" "0 \<le> w" "w < 2 ^ 31"
  shows "inactive (word_of_int now) s \<longleftrightarrow> ts_state s = Connected \<and> w \<le> now - a"
  unfolding inactive_def assms(1,2) sint_difference [OF assms(3)] sint_small [OF assms(4,5)] by (rule refl)

lemma check_heartbeat_iff:
  assumes "ts_heartbeat_deadline_ms s = word_of_int d" "\<bar>now - d\<bar> < 2 ^ 31"
  shows "check_heartbeat (word_of_int now) s = (if ts_heartbeat_outstanding s \<and> d \<le> now
    then on_connectionstate_timeout (s \<lparr> ts_heartbeat_outstanding := False \<rparr>) else (Inr (), s))"
  unfolding check_heartbeat_def assms(1) sint_difference [OF assms(2)] by (simp add: not_le)

text \<open>The retained request\<close>

lemma encode_tunnelling_request_packet_header:
  assumes "encode_tunnelling_request_packet d c q b = (Inr (), p)"
  shows "encoded_length p = 10 + length b" "10 + length b \<le> length d" "length p = length d"
proof -
  let ?h = "header_wire tunnelling_request_service (10 + length b)"
  have len: "10 + length b \<le> 65535" "10 + length b \<le> length d"
    using assms by (auto simp: encode_tunnelling_request_packet_def Let_def frame_sizes split: if_splits)
  have enc: "encode_communication_header d tunnelling_request_service (word_of_nat (10 + length b)) 0x10 =
      (Inr (), write_at d 0 ?h)"
    using len unat_u16_of_nat [of "10 + length b"]
    by (simp add: encode_communication_header_def header_wire_def frame_sizes)
  obtain w where w: "p = take 6 (write_at d 0 ?h) @ w"
    using assms len enc by (auto simp: encode_tunnelling_request_packet_def Let_def frame_sizes on_subspan_def
      split: if_splits prod.splits)
  have "take 6 (write_at d 0 ?h) = ?h" using len by (simp add: write_at_def)
  with w have "p ! 4 = hi8 (word_of_nat (10 + length b))" "p ! 5 = lo8 (word_of_nat (10 + length b))"
    by (simp_all add: header_wire_def)
  then show "encoded_length p = 10 + length b" using len unat_u16_of_nat [of "10 + length b"]
    by (simp add: encoded_length_def)
  show "10 + length b \<le> length d" by (rule len)
  show "length p = length d"
    using assms tunnelling_request.encode_bounds [of "\<lparr> tr_channel_id = c, tr_sequence_number = q,
      tr_message_length = word_of_nat (length b), tr_cemi = undefined, tr_cemi_bytes = b \<rparr>" d]
    by (simp add: tunnelling_request_wf_def encode_request_def)
qed

lemma prepare_request_retained:
  assumes "session_inv s" "\<not> ts_stream s" "prepare_request_packet p c cemi t s = (Inr q, p', s')"
  shows "session_inv s'" "ts_pending s'" "ts_retries s' = 0" "ts_config s' = ts_config s" "q = ts_next_sequence s"
    "ts_request_packet s' = take (10 + length cemi) p'" "10 + length cemi \<le> length p'"
proof -
  show "session_inv s'" using prepare_request_inv [OF assms(1), of p c cemi t] assms(3) by simp
  obtain r w where e: "encode_tunnelling_request_packet p c (ts_next_sequence s) cemi = (r, w)"
    by (cases "encode_tunnelling_request_packet p c (ts_next_sequence s) cemi")
  have g: "\<not> ts_pending s" "ts_state s \<noteq> Closing" "ts_state s \<noteq> Closed" "c \<noteq> 0" "r = Inr ()"
    using assms(3) e by (auto simp: prepare_request_packet_def Let_def split: if_splits sum.splits)
  note enc = encode_tunnelling_request_packet_header [of p c "ts_next_sequence s" cemi w]
  have s': "q = ts_next_sequence s" "p' = w" "s' = s \<lparr> ts_request_packet := take (10 + length cemi) w,
      ts_channel_id := ucast (ucast (ucast c :: u16) :: byte),
      ts_expected_sequence := ucast (ucast (ucast (ts_next_sequence s) :: u16) :: byte),
      ts_next_sequence := ucast (ucast (ucast (ucast (ts_next_sequence s) :: u16) :: byte) + (1 :: u16)),
      ts_pending := True, ts_state := Waiting_ack, ts_last_deadline_ms := t \<rparr>"
    using assms(2,3) e g enc by (auto simp: prepare_request_packet_def begin_request_def Let_def)
  have "ts_retries s = 0" using assms(1) g by (cases "ts_state s") (simp_all add: session_inv_def)
  then show "ts_pending s'" "ts_retries s' = 0" "ts_config s' = ts_config s" "q = ts_next_sequence s"
    "ts_request_packet s' = take (10 + length cemi) p'" "10 + length cemi \<le> length p'"
    using s' enc e g(5) by simp_all
qed

subsection \<open>Properties\<close>



text \<open>
  C4: the session implements the documented lifecycle.  Whatever operations a caller performs on a new
  session, the events they stand for are, one by one, moves of \<open>lifecycle_step\<close> between the lifecycle states
  of the session: every move is made by its own event, with the right channel and number, or the event is
  refused and nothing moves.  Without a reset an ended session stays ended and a closing one closes or
  ends; and without a reset and the acknowledgement of its own channel and number, an outstanding request
  stays outstanding or ends with the session.
\<close>

theorem session_refines_lifecycle:
  assumes "trace session_does es (new_session cfg) s" "trace session_does fs s t"
  shows "trace lifecycle_step es Not_connected (session_lifecycle s) \<and>
    trace lifecycle_step fs (session_lifecycle s) (session_lifecycle t) \<and>
    (Life_reset \<notin> set fs \<longrightarrow>
      (session_lifecycle s = Ended \<longrightarrow> session_lifecycle t = Ended) \<and>
      (\<forall>c. session_lifecycle s = Being_closed c \<longrightarrow> session_lifecycle t \<in> {Being_closed c, Ended}) \<and>
      (\<forall>c q. session_lifecycle s = Awaiting c q \<and> Life_ack c q \<notin> set fs \<longrightarrow>
         session_lifecycle t \<in> {Awaiting c q, Ended}))"
proof -
  have "trace lifecycle_step es (session_lifecycle (new_session cfg)) (session_lifecycle s)"
    and fs: "trace lifecycle_step fs (session_lifecycle s) (session_lifecycle t)"
    using session_life.init_sim [OF _ assms] by blast+
  moreover have "session_lifecycle (new_session cfg) = Not_connected" by (simp add: session_lifecycle_def new_session_def)
  ultimately show ?thesis using lifecycle_ended [OF fs] lifecycle_closing [OF fs] lifecycle_awaiting [OF fs] by metis
qed

theorem session_refines_lifecycle_witness:
  "session_lifecycle (snd (on_ack 5 1 (snd (begin_request 5 0 100 (new_session default_tunnelling_config))))) \<in>
     {Awaiting 5 0, Ended}"
proof -
  let ?i = "new_session default_tunnelling_config" and ?s = "snd (begin_request 5 0 100 (new_session default_tunnelling_config))"
  have "session_does (Life_request (ts_stream ?i) 5 0) ?i ?s" by (rule step_begin_request)
  then have "trace session_does [Life_request (ts_stream ?i) 5 0] ?i ?s" by (auto intro: trace.intros)
  moreover have "session_does (Life_ack 5 1) ?s (snd (on_ack 5 1 ?s))" by (rule step_ack)
  then have "trace session_does [Life_ack 5 1] ?s (snd (on_ack 5 1 ?s))" by (auto intro: trace.intros)
  ultimately show ?thesis using session_refines_lifecycle [of "[Life_request (ts_stream ?i) 5 0]" default_tunnelling_config ?s
      "[Life_ack 5 1]" "snd (on_ack 5 1 ?s)"]
    by (simp add: session_lifecycle_def begin_request_def new_session_def Let_def)
qed

text \<open>
  C13: exactly one packet acknowledges the outstanding request: the TUNNELLING_ACK of its channel and
  sequence number with status zero.  It completes the request; any other packet leaves the session as
  it was, and without an outstanding request no packet is accepted.
\<close>

theorem ack_packet_exact:
  assumes "session_inv s"
  shows "(fst (on_ack_packet p s) = Inr () \<longleftrightarrow> ts_pending s \<and> p = tunnelling_ack_wire
      \<lparr> ta_channel_id = ucast (ts_channel_id s), ta_sequence_number = ucast (ts_expected_sequence s), ta_status = 0 \<rparr>) \<and>
    snd (on_ack_packet p s) = (if fst (on_ack_packet p s) = Inr ()
      then s \<lparr> ts_pending := False, ts_request_packet := [], ts_state := Connected, ts_retries := 0 \<rparr> else s)"
  using on_ack_packet_accepts [OF assms] on_ack_packet_result by blast

theorem ack_packet_exact_witness:
  "fst (on_ack_packet [6, 0x10, 4, 0x21, 0, 10, 4, 5, 0, 0]
     (snd (begin_request 5 0 100 (new_session default_tunnelling_config)))) = Inr ()"
proof -
  let ?s = "snd (begin_request 5 0 100 (new_session default_tunnelling_config))"
  have i: "session_inv ?s" by (simp add: begin_request_inv new_session_inv)
  show ?thesis
    using ack_packet_exact [OF i, of "[6, 0x10, 4, 0x21, 0, 10, 4, 5, 0, 0]"]
    by (simp add: begin_request_def new_session_def Let_def tunnelling_ack_wire_def knx_packet_def header_wire_def
      connection_wire_def service_values hi8_def lo8_def)
qed

text \<open>
  A retry of a request sends the octets of the request: the packet returned by
  \<open>prepare_request_packet\<close> is kept, and after any number of timeouts within the retry budget
  \<open>prepare_retry_packet\<close> writes exactly those octets, sequence number included.
\<close>

theorem retransmission_identical:
  assumes "session_inv s" "\<not> ts_stream s" "prepare_request_packet p c cemi t s = (Inr q, p', s')"
    and "0 < n" "n \<le> unat (tc_max_retries (ts_config s))" "10 + length cemi \<le> length b"
  shows "q = ts_next_sequence s \<and> prepare_retry_packet b (timeouts n s') =
    (Inr (), write_at b 0 (take (10 + length cemi) p'))"
proof -
  note r = prepare_request_retained [OF assms(1-3)]
  have "ts_pending (timeouts n s')" "unat (ts_retries (timeouts n s')) = n"
    "ts_request_packet (timeouts n s') = take (10 + length cemi) p'"
    using timeouts_wait [OF r(1,2), of n] r assms(5) by simp_all
  moreover from this(2) assms(4) have "ts_retries (timeouts n s') \<noteq> 0" by auto
  ultimately show ?thesis using r(5,7) assms(6) by (auto simp: prepare_retry_packet_def)
qed

theorem retransmission_identical_witness:
  "\<exists>p' s'. prepare_request_packet (replicate 21 0) 5 sample_cemi 1000 sample_open_session = (Inr 0, p', s') \<and>
     prepare_retry_packet (replicate 21 0) (timeouts 2 s') = (Inr (), write_at (replicate 21 0) 0 (take 21 p'))"
proof -
  have i: "session_inv sample_open_session"
    by (simp add: sample_open_session_def session_inv_def new_session_def)
  have "\<exists>p' s'. prepare_request_packet (replicate 21 0) 5 sample_cemi 1000 sample_open_session = (Inr 0, p', s')"
    by (simp add: prepare_request_packet_def sample_open_session_def new_session_def sample_cemi_def Let_def
      encode_tunnelling_request_packet_def encode_tunnelling_request_def encode_communication_header_def frame_sizes
      on_subspan_def subspan_def write_at_def begin_request_def cemi_min_max)
  then obtain p' s' where
    p: "prepare_request_packet (replicate 21 0) 5 sample_cemi 1000 sample_open_session = (Inr 0, p', s')" by blast
  have "prepare_retry_packet (replicate 21 0) (timeouts 2 s') = (Inr (), write_at (replicate 21 0) 0 (take 21 p'))"
    using retransmission_identical [OF i _ p, of 2 "replicate 21 0"]
    by (simp add: sample_open_session_def new_session_def default_tunnelling_config_def sample_cemi_def)
  with p show ?thesis by blast
qed

text \<open>
  C15: an unanswered request does not wait forever: with \<open>m\<close> retries allowed and \<open>k\<close> already made, the
  next \<open>m - k\<close> timeouts each keep the request outstanding and the one after them closes the session.
\<close>

theorem unanswered_request_ends:
  assumes "session_inv s" "ts_pending s"
  shows "(\<forall>n \<le> unat (tc_max_retries (ts_config s)) - unat (ts_retries s). ts_state (timeouts n s) = Waiting_ack) \<and>
    ts_state (timeouts (Suc (unat (tc_max_retries (ts_config s)) - unat (ts_retries s))) s) = Closed"
proof -
  let ?m = "unat (tc_max_retries (ts_config s))" and ?k = "unat (ts_retries s)"
  have "ts_retries s \<le> ucast (tc_max_retries (ts_config s))" using assms by (simp add: session_inv_def)
  then have k: "?k \<le> ?m" by (simp add: word_le_nat_alt unat_ucast_u16)
  have wait: "ts_state (timeouts n s) = Waiting_ack" if "n \<le> ?m - ?k" for n
    using timeouts_wait [OF assms, of n] k that by simp
  have "ts_pending (timeouts (?m - ?k) s)" "unat (ts_retries (timeouts (?m - ?k) s)) = ?m"
    "ts_config (timeouts (?m - ?k) s) = ts_config s"
    using timeouts_wait [OF assms, of "?m - ?k"] k by simp_all
  then have "ts_state (timeouts (Suc (?m - ?k)) s) = Closed" using on_timeout_closes(2) by (simp add: timeouts_Suc)
  with wait show ?thesis by blast
qed

theorem unanswered_request_ends_witness:
  "ts_state (timeouts 3 (snd (begin_request 5 0 100 (new_session default_tunnelling_config)))) = Closed"
proof -
  let ?s = "snd (begin_request 5 0 100 (new_session default_tunnelling_config))"
  have "session_inv ?s" "ts_pending ?s"
    by (simp_all add: begin_request_inv new_session_inv) (simp add: begin_request_def new_session_def Let_def)
  from unanswered_request_ends [OF this, THEN conjunct2] show ?thesis
    by (simp add: begin_request_def new_session_def default_tunnelling_config_def Let_def)
qed

text \<open>
  C40: a CONNECT that is never answered is given up after the configured number of retries, except for
  the largest configurable number: the 16-bit retry counter cannot exceed it, so such a session keeps
  connecting forever.
\<close>

theorem connect_retry_budget:
  assumes "ts_state s = Connecting" "\<not> ts_stream s" "ts_connect_retries s = 0"
  shows "if tc_max_retries (ts_config s) = 0xFFFF then \<forall>n. ts_state (connect_timeouts n s) = Connecting
    else (\<forall>n \<le> unat (tc_max_retries (ts_config s)). ts_state (connect_timeouts n s) = Connecting) \<and>
      ts_state (connect_timeouts (Suc (unat (tc_max_retries (ts_config s)))) s) = Closed"
proof (cases "tc_max_retries (ts_config s) = 0xFFFF")
  case True
  then show ?thesis using connect_timeouts_unbounded [OF assms(1,2)] by simp
next
  case False
  have "tc_max_retries (ts_config s) \<le> 0xFFFF" using unat_u16_less [of "tc_max_retries (ts_config s)"]
    by (simp add: word_le_nat_alt)
  with False have "tc_max_retries (ts_config s) < 0xFFFF" by simp
  then show ?thesis using False connect_timeouts_close [OF assms] connect_timeouts_wait [OF assms] by simp
qed

theorem connect_retry_budget_witness:
  "\<forall>n. ts_state (connect_timeouts n ((new_session (default_tunnelling_config \<lparr> tc_max_retries := 0xFFFF \<rparr>))
     \<lparr> ts_state := Connecting \<rparr>)) = Connecting"
  using connect_retry_budget [of "(new_session (default_tunnelling_config \<lparr> tc_max_retries := 0xFFFF \<rparr>))
     \<lparr> ts_state := Connecting \<rparr>"]
  by (simp add: new_session_def default_tunnelling_config_def)

text \<open>
  C16: answering a request is all or nothing for the session.  A refused request, for whatever reason,
  leaves the session exactly as it was; an answered one leaves in the packet an answer that repeats
  the request's channel and sequence number, and the session as if the datagram had been handled.
\<close>

theorem response_all_or_nothing:
  assumes "prepare_response_datagram p v st s = (r, p', s')"
  shows "case r of Inl e \<Rightarrow> s' = s
    | Inr _ \<Rightarrow> on_datagram v s = (Inr (), s') \<and>
        (\<exists>a n. answers (dg_payload v) st a \<and>
          decode_datagram (take n p') = Inr \<lparr> dg_service_type = hd (payload_services a), dg_payload = a \<rparr>)"
proof (cases r)
  case (Inl e)
  then show ?thesis using prepare_response_outcome [OF assms] by simp
next
  case (Inr u)
  then have e: "encode_response_datagram p v st = (Inr (), p')" "on_datagram v s = (Inr (), s')"
    using prepare_response_outcome [OF assms] by simp_all
  from e(1) obtain a where a: "answers (dg_payload v) st a" "payload_wf a" "payload_ok a"
    "payload_services (dg_payload v) = [dg_service_type v]" "length (payload_wire a) \<le> length p" "p' = write_at p 0 (payload_wire a)"
    by (rule encode_response_cases)
  let ?d = "\<lparr> dg_service_type = hd (payload_services a), dg_payload = a \<rparr>"
  have "decode_datagram (take (length (payload_wire a)) p') = Inr ?d"
    using answer_readable [OF a(1-3)] a(5,6) by simp
  with a(1) e(2) Inr show ?thesis by auto
qed

theorem response_all_or_nothing_witness:
  "snd (snd (prepare_response_datagram [] \<lparr> dg_service_type = 0x0209, dg_payload = Payload_disconnect_request
     \<lparr> dr_channel_id = 9, dr_control_endpoint = sample_hpai \<rparr> \<rparr> 0 sample_open_session)) = sample_open_session"
proof -
  let ?v = "\<lparr> dg_service_type = 0x0209, dg_payload = Payload_disconnect_request
     \<lparr> dr_channel_id = 9, dr_control_endpoint = sample_hpai \<rparr> \<rparr>"
  have "prepare_response_datagram [] ?v 0 sample_open_session = (Inl Sequence_error, [], sample_open_session)"
    by (simp add: prepare_response_datagram_def check_response_request_def service_values sample_open_session_def
      new_session_def)
  from response_all_or_nothing [OF this] this show ?thesis by simp
qed

text \<open>
  C14: over datagrams, the indications a session accepts are numbered consecutively modulo 256,
  whatever else arrives in between: a retransmitted indication is never accepted twice and none is
  accepted out of order.
\<close>

theorem indications_in_order:
  assumes "\<not> ts_stream s"
  shows "\<exists>n. consecutive n (taken_indications vs s)"
  using assms by (rule indications_consecutive)

theorem indications_in_order_witness:
  "taken_indications [sample_indication 255, sample_indication 255, sample_indication 0, sample_indication 2]
     sample_open_session = [255, 0] \<and> (\<exists>n. consecutive n [255, 0])"
proof -
  let ?vs = "[sample_indication 255, sample_indication 255, sample_indication 0, sample_indication 2]"
  have ne: "cemi_image sample_message \<noteq> []" by (simp add: cemi_image_def Let_def)
  have t: "taken_indications ?vs sample_open_session = [255, 0]"
    by (simp add: taken_indication_def on_datagram_indication on_indication_def duplicate_indication_def
      out_of_order_indication_def sample_indication_def sample_request_def ne sample_open_session_def
      new_session_def service_values)
  have "\<not> ts_stream sample_open_session" by (simp add: sample_open_session_def new_session_def)
  from indications_in_order [OF this, of ?vs] t show ?thesis by simp
qed

text \<open>
  The deadline tests are right across the wrap-around of the 32-bit millisecond clock: for instants
  less than 2 ^ 31 ms apart, a request or connect deadline has expired exactly when it is not in the
  future, and a session is inactive exactly when its inactivity timeout, below 2 ^ 31 ms, has passed.
\<close>

theorem deadlines_across_wrap:
  fixes now :: int
  shows "(ts_last_deadline_ms s = word_of_int d \<and> \<bar>now - d\<bar> < 2 ^ 31 \<longrightarrow>
      (expired (word_of_int now) s \<longleftrightarrow> ts_pending s \<and> d \<le> now) \<and>
      (connect_expired (word_of_int now) s \<longleftrightarrow> ts_state s = Connecting \<and> d \<le> now)) \<and>
    (ts_last_activity_ms s = word_of_int a \<and> tc_inactivity_timeout_ms (ts_config s) = word_of_int w \<and>
      \<bar>now - a\<bar> < 2 ^ 31 \<and> 0 \<le> w \<and> w < 2 ^ 31 \<longrightarrow>
      (inactive (word_of_int now) s \<longleftrightarrow> ts_state s = Connected \<and> w \<le> now - a)) \<and>
    (ts_heartbeat_deadline_ms s = word_of_int h \<and> \<bar>now - h\<bar> < 2 ^ 31 \<longrightarrow>
      check_heartbeat (word_of_int now) s = (if ts_heartbeat_outstanding s \<and> h \<le> now
        then on_connectionstate_timeout (s \<lparr> ts_heartbeat_outstanding := False \<rparr>) else (Inr (), s)))"
  using expired_iff inactive_iff check_heartbeat_iff by blast

theorem deadlines_across_wrap_witness:
  "expired (word_of_int 4294967300) (snd (begin_request 5 0 4294967290 (new_session default_tunnelling_config)))"
  using deadlines_across_wrap [of "snd (begin_request 5 0 4294967290 (new_session default_tunnelling_config))"
    4294967290 4294967300]
  by (simp add: begin_request_def new_session_def Let_def)

end
