(* ===== verification/Knx_Secure_Client.thy ===== *)
theory Knx_Secure_Client
  imports Knx_Secure_Crypto
begin

section \<open>The client of a KNX IP Secure tunnelling session\<close>

text \<open>
  The client of \<open>knx/secure/client_session.cpp\<close>.  It does no I/O: an operation takes octets that
  arrived or a buffer to fill, and the monotonic time.  The cryptographic primitives are the record
  \<open>crypto_backend\<close>, and a call to the entropy source is an argument holding what that call returned.
\<close>

subsection \<open>Counters, keys and credentials\<close>

record statistics =
  sc_authentication_failures :: u64
  sc_replays :: u64
  sc_duplicates :: u64
  sc_missing_keys :: u64
  sc_unencrypted_refused :: u64
  sc_refused_services :: u64
  sc_sessions_opened :: u64
  sc_sessions_closed :: u64
  sc_sessions_timed_out :: u64
  sc_timer_notifications_sent :: u64
  sc_timer_adjustments :: u64

definition no_statistics :: statistics where
  "no_statistics = \<lparr> sc_authentication_failures = 0, sc_replays = 0, sc_duplicates = 0, sc_missing_keys = 0,
     sc_unencrypted_refused = 0, sc_refused_services = 0, sc_sessions_opened = 0, sc_sessions_closed = 0,
     sc_sessions_timed_out = 0, sc_timer_notifications_sent = 0, sc_timer_adjustments = 0 \<rparr>"

text \<open>A secret of the library: a fixed number of octets, all zero when unset or cleared.\<close>

definition secret_empty :: "bytes \<Rightarrow> bool" where
  "secret_empty octets \<longleftrightarrow> list_all (\<lambda>octet. octet = 0) octets"

definition clear_secret :: "bytes \<Rightarrow> bytes" where
  "clear_secret octets = cleanse octets"

record x25519_key_pair =
  kp_private_key :: bytes
  kp_public_key :: bytes

record tunnelling_credentials =
  cd_user_id :: byte
  cd_user_password_key :: bytes
  cd_device_authentication_code :: bytes
  cd_skip_device_authentication :: bool
  cd_serial_number :: bytes

definition session_timeout_ms :: u64 where "session_timeout_ms = 60000"
definition keep_alive_idle_ms :: u64 where "keep_alive_idle_ms = 50000"
definition tunnelling_message_tag :: bytes where "tunnelling_message_tag = [0x00, 0x00]"

definition seal_wrapper :: "crypto_backend \<Rightarrow> bytes \<Rightarrow> bytes \<Rightarrow> wrapper_fields \<Rightarrow> bytes \<Rightarrow> nat result \<times> bytes" where
  "seal_wrapper backend destination key flds plain_frame =
     basic_seal_wrapper \<lparr> ci_backend = backend, ci_key = key \<rparr> destination flds plain_frame"

definition open_wrapper :: "crypto_backend \<Rightarrow> bytes \<Rightarrow> bytes \<Rightarrow> wrapper_frame \<Rightarrow> nat result \<times> bytes" where
  "open_wrapper backend destination key v =
     basic_open_wrapper \<lparr> ci_backend = backend, ci_key = key \<rparr> destination v"

subsection \<open>The client session\<close>

datatype client_session_phase = Phase_idle | Phase_requested | Phase_authenticating | Phase_established | Phase_closed

record opened_frame =
  op_size :: nat
  op_for_tunnel :: bool

record client_session =
  kc_credentials :: tunnelling_credentials
  kc_phase :: client_session_phase
  kc_key_pair :: x25519_key_pair
  kc_session_key :: bytes
  kc_session_id :: u16
  kc_next_sequence :: u64
  kc_last_received_sequence :: "u64 option"
  kc_last_sent_ms :: u64
  kc_last_received_ms :: u64
  kc_counters :: statistics

definition new_client_session :: "tunnelling_credentials \<Rightarrow> client_session" where
  "new_client_session credentials = \<lparr> kc_credentials = credentials, kc_phase = Phase_idle,
     kc_key_pair = \<lparr> kp_private_key = replicate 32 0, kp_public_key = replicate 32 0 \<rparr>,
     kc_session_key = replicate 16 0, kc_session_id = 0, kc_next_sequence = 0, kc_last_received_sequence = None,
     kc_last_sent_ms = 0, kc_last_received_ms = 0, kc_counters = no_statistics \<rparr>"

definition validate_credentials :: "tunnelling_credentials \<Rightarrow> unit result" where
  "validate_credentials credentials =
     (if cd_user_id credentials = 0 \<or> cd_user_id credentials > 127 \<or> \<not> valid_serial_number (cd_serial_number credentials)
      then Inl Invalid_configuration else Inr ())"

definition client_forget :: "client_session \<Rightarrow> client_session" where
  "client_forget c = c \<lparr> kc_session_key := clear_secret (kc_session_key c),
     kc_key_pair := (kc_key_pair c) \<lparr> kp_private_key := clear_secret (kp_private_key (kc_key_pair c)) \<rparr>,
     kc_session_id := 0, kc_next_sequence := 0, kc_last_received_sequence := None \<rparr>"

definition client_close :: "client_session \<Rightarrow> client_session" where
  "client_close c =
     (let c = (if kc_phase c = Phase_established
               then c \<lparr> kc_counters := (kc_counters c) \<lparr> sc_sessions_closed := sc_sessions_closed (kc_counters c) + 1 \<rparr> \<rparr>
               else c)
      in (client_forget c) \<lparr> kc_phase := Phase_closed \<rparr>)"

definition note_unauthenticated :: "client_session \<Rightarrow> client_session" where
  "note_unauthenticated c =
     c \<lparr> kc_counters := (kc_counters c) \<lparr> sc_authentication_failures := sc_authentication_failures (kc_counters c) + 1 \<rparr> \<rparr>"

definition note_unencrypted :: "client_session \<Rightarrow> client_session" where
  "note_unencrypted c =
     c \<lparr> kc_counters := (kc_counters c) \<lparr> sc_unencrypted_refused := sc_unencrypted_refused (kc_counters c) + 1 \<rparr> \<rparr>"

definition note_replay :: "client_session \<Rightarrow> client_session" where
  "note_replay c = c \<lparr> kc_counters := (kc_counters c) \<lparr> sc_replays := sc_replays (kc_counters c) + 1 \<rparr> \<rparr>"

definition note_refused_service :: "client_session \<Rightarrow> client_session" where
  "note_refused_service c =
     c \<lparr> kc_counters := (kc_counters c) \<lparr> sc_refused_services := sc_refused_services (kc_counters c) + 1 \<rparr> \<rparr>"

definition client_begin ::
    "bytes \<Rightarrow> hpai \<Rightarrow> u64 \<Rightarrow> x25519_key_pair result \<Rightarrow> client_session \<Rightarrow> nat result \<times> bytes \<times> client_session" where
  "client_begin destination control_endpoint now_ms drawn c =
     (if kc_phase c \<noteq> Phase_idle \<and> kc_phase c \<noteq> Phase_closed then (Inl Invalid_configuration, destination, c)
      else case validate_credentials (kc_credentials c) of Inl e \<Rightarrow> (Inl e, destination, c) | Inr _ \<Rightarrow>
        (case drawn of Inl e \<Rightarrow> (Inl e, destination, c) | Inr key_pair \<Rightarrow>
          (case encode_session_request_packet destination
                  \<lparr> eq_control_endpoint = control_endpoint, eq_client_public_key = kp_public_key key_pair \<rparr> of
             (Inl e, destination) \<Rightarrow> (Inl e, destination, c)
           | (Inr _, destination) \<Rightarrow>
               (Inr session_request_size, destination,
                (client_forget c) \<lparr> kc_key_pair := key_pair, kc_phase := Phase_requested, kc_last_sent_ms := now_ms,
                  kc_last_received_ms := now_ms \<rparr>))))"

definition seal_frame ::
    "crypto_backend \<Rightarrow> bytes \<Rightarrow> bytes \<Rightarrow> u64 \<Rightarrow> client_session \<Rightarrow> nat result \<times> bytes \<times> client_session" where
  "seal_frame backend plain_frame destination now_ms c =
     (if kc_next_sequence c > max_sequence then (Inl Secure_session_closed, destination, c)
      else
        case seal_wrapper backend destination (kc_session_key c)
               \<lparr> wf_session_id = kc_session_id c, wf_sequence = encode_sequence (kc_next_sequence c),
                 wf_serial_number = cd_serial_number (kc_credentials c), wf_message_tag = tunnelling_message_tag \<rparr>
               plain_frame of
          (Inl e, destination) \<Rightarrow> (Inl e, destination, c)
        | (Inr n, destination) \<Rightarrow>
            (Inr n, destination, c \<lparr> kc_next_sequence := kc_next_sequence c + 1, kc_last_sent_ms := now_ms \<rparr>))"

definition verify_response :: "crypto_backend \<Rightarrow> session_response_frame \<Rightarrow> client_session \<Rightarrow> unit result \<times> client_session" where
  "verify_response backend response c =
     (if ea_session_id response = 0 then (Inl Secure_session_rejected, c)
      else if cd_skip_device_authentication (kc_credentials c) then (Inr (), c)
      else
        let verified = verify_session_response
              \<lparr> ci_backend = backend, ci_key = cd_device_authentication_code (kc_credentials c) \<rparr> response
              (kp_public_key (kc_key_pair c))
        in (verified, if verified = Inl Secure_authentication_failed then note_unauthenticated c else c))"

definition client_authenticate ::
    "crypto_backend \<Rightarrow> session_response_frame \<Rightarrow> bytes \<Rightarrow> u64 \<Rightarrow> client_session \<Rightarrow>
     nat result \<times> bytes \<times> client_session" where
  "client_authenticate backend response destination now_ms c =
     (case derive_session_key backend (kp_private_key (kc_key_pair c)) (ea_server_public_key response) of
        Inl e \<Rightarrow> (Inl e, destination, c)
      | Inr key \<Rightarrow>
          (case basic_session_authenticate_mac
                  \<lparr> ci_backend = backend, ci_key = cd_user_password_key (kc_credentials c) \<rparr>
                  (cd_user_id (kc_credentials c)) (kp_public_key (kc_key_pair c)) (ea_server_public_key response) of
             Inl e \<Rightarrow> (Inl e, destination, c)
           | Inr mac \<Rightarrow>
               (case encode_session_authenticate_packet (replicate session_authenticate_size 0)
                       \<lparr> eu_user_id = cd_user_id (kc_credentials c), eu_mac = mac \<rparr> of
                  (Inl e, _) \<Rightarrow> (Inl e, destination, c)
                | (Inr _, plain) \<Rightarrow>
                    seal_frame backend plain destination now_ms
                      (c \<lparr> kc_session_key := key, kc_session_id := ea_session_id response,
                           kc_key_pair := (kc_key_pair c) \<lparr> kp_private_key := clear_secret (kp_private_key (kc_key_pair c)) \<rparr> \<rparr>))))"

definition on_session_response ::
    "crypto_backend \<Rightarrow> session_response_frame \<Rightarrow> bytes \<Rightarrow> u64 \<Rightarrow> client_session \<Rightarrow>
     nat result \<times> bytes \<times> client_session" where
  "on_session_response backend response destination now_ms c =
     (if kc_phase c \<noteq> Phase_requested then (Inl Invalid_configuration, destination, c)
      else
        case verify_response backend response c of
          (Inl e, c) \<Rightarrow> (Inl e, destination, client_close c)
        | (Inr _, c) \<Rightarrow>
            (case client_authenticate backend response destination now_ms c of
               (Inl e, destination, c) \<Rightarrow> (Inl e, destination, client_close c)
             | (Inr n, destination, c) \<Rightarrow>
                 (Inr n, destination, c \<lparr> kc_phase := Phase_authenticating, kc_last_received_ms := now_ms \<rparr>)))"

definition on_unwrapped_status :: "client_session \<Rightarrow> unit result \<times> client_session" where
  "on_unwrapped_status c =
     (if kc_phase c \<noteq> Phase_requested then (Inl Secure_frame_required, note_unencrypted c)
      else (Inl Secure_session_rejected, client_close c))"

definition authenticate_wrapper ::
    "crypto_backend \<Rightarrow> wrapper_frame \<Rightarrow> bytes \<Rightarrow> client_session \<Rightarrow> nat result \<times> bytes \<times> client_session" where
  "authenticate_wrapper backend wrapper destination c =
     (if secret_empty (kc_session_key c) \<or> ww_session_id wrapper \<noteq> kc_session_id c
      then (Inl Secure_authentication_failed, destination, note_unauthenticated c)
      else
        let (opened, destination) = open_wrapper backend destination (kc_session_key c) wrapper
        in (opened, destination, if opened = Inl Secure_authentication_failed then note_unauthenticated c else c))"

definition client_admit ::
    "wrapper_frame \<Rightarrow> bytes \<Rightarrow> client_session \<Rightarrow> unit result \<times> bytes \<times> client_session" where
  "client_admit wrapper plain c =
     (let sequence = decode_sequence (ww_sequence wrapper)
      in if (case kc_last_received_sequence c of None \<Rightarrow> False | Some seen \<Rightarrow> sequence \<le> seen)
         then (Inl Secure_replay, cleanse plain, note_replay c)
         else
           case check_wrapped_frame plain of
             Inl e \<Rightarrow> (Inl e, cleanse plain, note_refused_service c)
           | Inr _ \<Rightarrow> (Inr (), plain, c \<lparr> kc_last_received_sequence := Some sequence \<rparr>))"

definition client_apply :: "bytes \<Rightarrow> client_session \<Rightarrow> opened_frame result \<times> client_session" where
  "client_apply plain c =
     (case decode_session_status_packet plain of
        Inl _ \<Rightarrow>
          if kc_phase c = Phase_established then (Inr \<lparr> op_size = length plain, op_for_tunnel = True \<rparr>, c)
          else (Inl Unsupported_service, note_refused_service c)
      | Inr status \<Rightarrow>
          if kc_phase c = Phase_authenticating then
            (if es_status status \<noteq> status_authentication_success then (Inl Secure_session_rejected, client_close c)
             else (Inr \<lparr> op_size = length plain, op_for_tunnel = False \<rparr>,
                   c \<lparr> kc_phase := Phase_established,
                       kc_counters := (kc_counters c) \<lparr> sc_sessions_opened := sc_sessions_opened (kc_counters c) + 1 \<rparr> \<rparr>))
          else if es_status status = status_close \<or> es_status status = status_timeout \<or>
                  es_status status = status_unauthenticated
          then (Inl Secure_session_closed, client_close c)
          else (Inr \<lparr> op_size = length plain, op_for_tunnel = False \<rparr>, c))"

definition client_open ::
    "crypto_backend \<Rightarrow> wrapper_frame \<Rightarrow> bytes \<Rightarrow> u64 \<Rightarrow> client_session \<Rightarrow>
     opened_frame result \<times> bytes \<times> client_session" where
  "client_open backend wrapper destination now_ms c =
     (case authenticate_wrapper backend wrapper destination c of
        (Inl e, destination, c) \<Rightarrow> (Inl e, destination, c)
      | (Inr n, destination, c) \<Rightarrow>
          (case client_admit wrapper (take n destination) c of
             (Inl e, plain, c) \<Rightarrow> (Inl e, write_at destination 0 plain, c)
           | (Inr _, plain, c) \<Rightarrow>
               (let (r, c) = client_apply plain (c \<lparr> kc_last_received_ms := now_ms \<rparr>) in (r, destination, c))))"

definition not_established :: "client_session \<Rightarrow> knx_error" where
  "not_established c = (if kc_phase c = Phase_closed then Secure_session_closed else Invalid_configuration)"

definition client_seal ::
    "crypto_backend \<Rightarrow> bytes \<Rightarrow> bytes \<Rightarrow> u64 \<Rightarrow> client_session \<Rightarrow> nat result \<times> bytes \<times> client_session" where
  "client_seal backend plain_frame destination now_ms c =
     (if kc_phase c \<noteq> Phase_established then (Inl (not_established c), destination, c)
      else seal_frame backend plain_frame destination now_ms c)"

definition client_seal_status ::
    "crypto_backend \<Rightarrow> session_status \<Rightarrow> bytes \<Rightarrow> u64 \<Rightarrow> client_session \<Rightarrow> nat result \<times> bytes \<times> client_session" where
  "client_seal_status backend status destination now_ms c =
     (case encode_session_status_packet (replicate session_status_size 0) \<lparr> es_status = status \<rparr> of
        (Inl e, _) \<Rightarrow> (Inl e, destination, c)
      | (Inr _, plain) \<Rightarrow> seal_frame backend plain destination now_ms c)"

definition prepare_keep_alive ::
    "crypto_backend \<Rightarrow> bytes \<Rightarrow> u64 \<Rightarrow> client_session \<Rightarrow> nat result \<times> bytes \<times> client_session" where
  "prepare_keep_alive backend destination now_ms c =
     (if kc_phase c \<noteq> Phase_established then (Inl (not_established c), destination, c)
      else client_seal_status backend status_keepalive destination now_ms c)"

definition prepare_close ::
    "crypto_backend \<Rightarrow> bytes \<Rightarrow> u64 \<Rightarrow> client_session \<Rightarrow> nat result \<times> bytes \<times> client_session" where
  "prepare_close backend destination now_ms c =
     (if secret_empty (kc_session_key c) then (Inl Invalid_configuration, destination, c)
      else
        let (sealed, destination, c) = client_seal_status backend status_close destination now_ms c
        in (sealed, destination, client_close c))"

definition keep_alive_due :: "u64 \<Rightarrow> client_session \<Rightarrow> bool" where
  "keep_alive_due now_ms c \<longleftrightarrow> kc_phase c = Phase_established \<and> now_ms \<ge> kc_last_sent_ms c + keep_alive_idle_ms"

definition check_timeout :: "u64 \<Rightarrow> client_session \<Rightarrow> unit result \<times> client_session" where
  "check_timeout now_ms c =
     (let live = kc_phase c = Phase_requested \<or> kc_phase c = Phase_authenticating \<or> kc_phase c = Phase_established
      in if \<not> live \<or> now_ms < max (kc_last_sent_ms c) (kc_last_received_ms c) + session_timeout_ms then (Inr (), c)
         else
           let c = c \<lparr> kc_counters := (kc_counters c) \<lparr> sc_sessions_timed_out := sc_sessions_timed_out (kc_counters c) + 1 \<rparr> \<rparr>
           in (Inl Secure_session_closed, (client_forget c) \<lparr> kc_phase := Phase_closed \<rparr>))"

subsection \<open>Runs of operations, and what holds of them\<close>

text \<open>
  A run of the client is a list of events, one for each operation; \<open>client_handle\<close> yields what the
  operation sent, the sequence number it accepted and the session it left.  \<open>client_move\<close> lists what an
  operation other than \<open>begin\<close> can do to a session.
\<close>

datatype client_event =
    Ev_begin bytes hpai u64 "x25519_key_pair result"
  | Ev_session_response session_response_frame bytes u64
  | Ev_unwrapped_status
  | Ev_open wrapper_frame bytes u64
  | Ev_seal bytes bytes u64
  | Ev_keep_alive bytes u64
  | Ev_prepare_close bytes u64
  | Ev_check_timeout u64
  | Ev_note_unauthenticated
  | Ev_note_unencrypted
  | Ev_close

definition sent_packet :: "nat result \<times> bytes \<times> client_session \<Rightarrow> bytes option \<times> u64 option \<times> client_session" where
  "sent_packet out = (case out of (r, d, c) \<Rightarrow> (case r of Inl _ \<Rightarrow> None | Inr n \<Rightarrow> Some (take n d), None, c))"

fun client_handle :: "crypto_backend \<Rightarrow> client_event \<Rightarrow> client_session \<Rightarrow> bytes option \<times> u64 option \<times> client_session" where
  "client_handle b (Ev_begin d h now kp) c = sent_packet (client_begin d h now kp c)"
| "client_handle b (Ev_session_response r d now) c = sent_packet (on_session_response b r d now c)"
| "client_handle b Ev_unwrapped_status c = (None, None, snd (on_unwrapped_status c))"
| "client_handle b (Ev_open w d now) c =
     (case client_open b w d now c of
        (Inl _, _, c') \<Rightarrow> (None, None, c')
      | (Inr _, _, c') \<Rightarrow> (None, Some (decode_sequence (ww_sequence w)), c'))"
| "client_handle b (Ev_seal p d now) c = sent_packet (client_seal b p d now c)"
| "client_handle b (Ev_keep_alive d now) c = sent_packet (prepare_keep_alive b d now c)"
| "client_handle b (Ev_prepare_close d now) c = sent_packet (prepare_close b d now c)"
| "client_handle b (Ev_check_timeout now) c = (None, None, snd (check_timeout now c))"
| "client_handle b Ev_note_unauthenticated c = (None, None, note_unauthenticated c)"
| "client_handle b Ev_note_unencrypted c = (None, None, note_unencrypted c)"
| "client_handle b Ev_close c = (None, None, client_close c)"

fun is_begin :: "client_event \<Rightarrow> bool" where
  "is_begin (Ev_begin d h now kp) = True"
| "is_begin _ = False"

definition client_after :: "crypto_backend \<Rightarrow> client_event \<Rightarrow> client_session \<Rightarrow> client_session" where
  "client_after b ev c = snd (snd (client_handle b ev c))"

inductive client_step :: "crypto_backend \<Rightarrow> client_session \<Rightarrow> client_session \<Rightarrow> bool" for b where
  client_step: "client_step b c (client_after b ev c)"

primrec accepted_sequences :: "crypto_backend \<Rightarrow> client_event list \<Rightarrow> client_session \<Rightarrow> u64 list" where
  "accepted_sequences b [] c = []"
| "accepted_sequences b (ev # evs) c =
     (case fst (snd (client_handle b ev c)) of None \<Rightarrow> [] | Some q \<Rightarrow> [q]) @ accepted_sequences b evs (client_after b ev c)"

primrec sent_packets :: "crypto_backend \<Rightarrow> client_event list \<Rightarrow> client_session \<Rightarrow> bytes list" where
  "sent_packets b [] c = []"
| "sent_packets b (ev # evs) c =
     (case fst (client_handle b ev c) of None \<Rightarrow> [] | Some p \<Rightarrow> [p]) @ sent_packets b evs (client_after b ev c)"

definition packet_sequences :: "bytes \<Rightarrow> u64 list" where
  "packet_sequences p = (case decode_wrapper_packet p of Inl _ \<Rightarrow> [] | Inr v \<Rightarrow> [decode_sequence (ww_sequence v)])"

definition client_inv :: "client_session \<Rightarrow> bool" where
  "client_inv c \<longleftrightarrow>
     (kc_phase c \<in> {Phase_idle, Phase_requested, Phase_closed} \<longrightarrow>
        secret_empty (kc_session_key c) \<and> kc_session_id c = 0 \<and> kc_next_sequence c = 0 \<and>
        kc_last_received_sequence c = None) \<and>
     (kc_phase c \<noteq> Phase_requested \<longrightarrow> secret_empty (kp_private_key (kc_key_pair c))) \<and>
     (kc_phase c \<in> {Phase_authenticating, Phase_established} \<longrightarrow>
        kc_session_id c \<noteq> 0 \<and> 0 < kc_next_sequence c \<and> kc_next_sequence c \<le> max_sequence + 1)"

definition session_over :: "client_session \<Rightarrow> bool" where
  "session_over c \<longleftrightarrow> kc_phase c = Phase_closed \<and> secret_empty (kc_session_key c)"

definition sequence_seen :: "u64 \<Rightarrow> client_session \<Rightarrow> bool" where
  "sequence_seen q c \<longleftrightarrow> session_over c \<or> (\<exists>s. kc_last_received_sequence c = Some s \<and> q \<le> s)"

definition sequence_spent :: "u64 \<Rightarrow> client_session \<Rightarrow> bool" where
  "sequence_spent q c \<longleftrightarrow> session_over c \<or> q < kc_next_sequence c"

definition only_counters :: "client_session \<Rightarrow> client_session \<Rightarrow> bool" where
  "only_counters c c' \<longleftrightarrow> c' = c\<lparr> kc_counters := kc_counters c' \<rparr>"

definition session_open :: "client_session \<Rightarrow> bool" where
  "session_open c \<longleftrightarrow> kc_phase c = Phase_authenticating \<or> kc_phase c = Phase_established"

definition authenticating :: "bytes \<Rightarrow> session_response_frame \<Rightarrow> client_session \<Rightarrow> client_session" where
  "authenticating key rsp c = c\<lparr> kc_session_key := key, kc_session_id := ea_session_id rsp,
     kc_key_pair := (kc_key_pair c)\<lparr> kp_private_key := clear_secret (kp_private_key (kc_key_pair c)) \<rparr> \<rparr>"

inductive client_move :: "client_session \<Rightarrow> client_session \<Rightarrow> bool" where
  quiet: "only_counters c c' \<Longrightarrow> client_move c c'"
| ended: "session_over c' \<Longrightarrow> client_inv c' \<Longrightarrow> kc_credentials c' = kc_credentials c \<Longrightarrow> client_move c c'"
| sealed: "session_open c \<Longrightarrow> kc_next_sequence c \<le> max_sequence \<Longrightarrow>
    client_move c (c\<lparr> kc_next_sequence := kc_next_sequence c + 1, kc_last_sent_ms := now \<rparr>)"
| responded: "kc_phase c = Phase_requested \<Longrightarrow> ea_session_id rsp \<noteq> 0 \<Longrightarrow> kc_next_sequence c \<le> max_sequence \<Longrightarrow>
    client_move c ((authenticating key rsp c)\<lparr> kc_next_sequence := kc_next_sequence c + 1, kc_last_sent_ms := now,
         kc_phase := Phase_authenticating, kc_last_received_ms := now \<rparr>)"
| opened: "\<not> secret_empty (kc_session_key c) \<Longrightarrow> \<forall>s. kc_last_received_sequence c = Some s \<longrightarrow> s < q \<Longrightarrow>
    phase = kc_phase c \<or> (kc_phase c = Phase_authenticating \<and> phase = Phase_established) \<Longrightarrow>
    client_move c (c\<lparr> kc_last_received_sequence := Some q, kc_last_received_ms := now, kc_phase := phase, kc_counters := k \<rparr>)"

definition sent_sequences :: "crypto_backend \<Rightarrow> client_event list \<Rightarrow> client_session \<Rightarrow> u64 list" where
  "sent_sequences b evs c = concat (map packet_sequences (sent_packets b evs c))"

definition sample_credentials :: tunnelling_credentials where
  "sample_credentials = \<lparr> cd_user_id = 2, cd_user_password_key = replicate 16 5,
     cd_device_authentication_code = replicate 16 6, cd_skip_device_authentication = False,
     cd_serial_number = [1, 2, 3, 4, 5, 6] \<rparr>"

definition sample_client :: client_session where
  "sample_client = (new_client_session sample_credentials)\<lparr> kc_phase := Phase_established, kc_session_id := 1,
     kc_session_key := replicate 16 3, kc_next_sequence := 1 \<rparr>"

subsection \<open>Lemmas\<close>

lemma secret_empty_cleanse [simp]: "secret_empty (cleanse k)"
  by (simp add: secret_empty_def cleanse_def list_all_iff)

lemma client_close_over [simp]: "session_over (client_close c)" "client_inv (client_close c)"
  by (simp_all add: session_over_def client_inv_def client_close_def client_forget_def clear_secret_def Let_def)

lemma seal_frame_result:
  assumes "seal_frame b p d now c = (r, d', c')"
  shows "(\<exists>e. r = Inl e \<and> c' = c) \<or>
    (\<exists>n. r = Inr n \<and> kc_next_sequence c \<le> max_sequence \<and>
      c' = c\<lparr> kc_next_sequence := kc_next_sequence c + 1, kc_last_sent_ms := now \<rparr> \<and>
      seal_wrapper b d (kc_session_key c) \<lparr> wf_session_id = kc_session_id c, wf_sequence = encode_sequence (kc_next_sequence c),
                 wf_serial_number = cd_serial_number (kc_credentials c), wf_message_tag = tunnelling_message_tag \<rparr> p = (Inr n, d'))"
  using assms by (auto simp: seal_frame_def not_less split: if_splits prod.splits sum.splits)

lemma unat_next_sequence: "q \<le> max_sequence \<Longrightarrow> unat (q + 1) = unat q + 1"
proof -
  assume "q \<le> max_sequence"
  then have "unat q \<le> 2 ^ 48 - 1" using unat_max_sequence by (simp add: word_le_nat_alt)
  then have "unat q + unat (1 :: u64) < 2 ^ LENGTH(64)" by simp
  then show ?thesis using iffD1 [OF unat_add_lem, of q 1] by simp
qed

lemma next_sequence_step:
  assumes "q \<le> max_sequence"
  shows "q < q + 1" "0 < q + 1" "q + 1 \<le> max_sequence + 1"
  using unat_next_sequence [OF assms] unat_next_sequence [of max_sequence] assms
  by (simp_all add: word_less_nat_alt word_le_nat_alt)

lemma notes_only_counters [simp]:
  "only_counters c c" "only_counters c (note_unauthenticated c)" "only_counters c (note_unencrypted c)"
  "only_counters c (note_replay c)" "only_counters c (note_refused_service c)"
  by (simp_all add: only_counters_def note_unauthenticated_def note_unencrypted_def note_replay_def note_refused_service_def)

lemma authenticate_wrapper_cases:
  assumes "authenticate_wrapper b w d c = (r, d', c')"
  obtains (refused) e where "r = Inl e" "only_counters c c'"
      "d' = d \<or> take (length (ww_encrypted_frame w)) d' = replicate (length (ww_encrypted_frame w)) 0"
    | (opened) n where "r = Inr n" "c' = c" "\<not> secret_empty (kc_session_key c)" "ww_session_id w = kc_session_id c"
      "open_wrapper b d (kc_session_key c) w = (Inr n, d')"
proof (cases "secret_empty (kc_session_key c) \<or> ww_session_id w \<noteq> kc_session_id c")
  case True
  with assms refused show ?thesis by (auto simp: authenticate_wrapper_def)
next
  case False
  obtain r0 d0 where o: "open_wrapper b d (kc_session_key c) w = (r0, d0)" by fastforce
  show ?thesis
  proof (cases r0)
    case (Inl e)
    with o have "d0 = d \<or> take (length (ww_encrypted_frame w)) d0 = replicate (length (ww_encrypted_frame w)) 0"
      using open_wrapper_refuses unfolding open_wrapper_def by blast
    moreover have "r = Inl e" "only_counters c c'" "d' = d0"
      using Inl o assms False by (auto simp: authenticate_wrapper_def)
    ultimately show ?thesis using refused by blast
  next
    case (Inr n)
    with o assms False have "r = Inr n" "c' = c" "d' = d0" by (auto simp: authenticate_wrapper_def)
    with Inr o False opened show ?thesis by blast
  qed
qed

lemma check_wrapped_frame_error:
  "check_wrapped_frame p = Inl e \<Longrightarrow> e \<notin> {Secure_replay, Secure_authentication_failed, Secure_session_closed}"
  by (auto simp: check_wrapped_frame_def decode_communication_header_def Let_def split: sum.splits if_splits)

lemma client_admit_cases:
  assumes "client_admit w p c = (r, p', c')"
  obtains (refused) e where "r = Inl e" "only_counters c c'" "p' = cleanse p"
      "e = Secure_replay \<longleftrightarrow> (\<exists>s. kc_last_received_sequence c = Some s \<and> decode_sequence (ww_sequence w) \<le> s)"
    | (admitted) "r = Inr ()" "p' = p" "c' = c\<lparr> kc_last_received_sequence := Some (decode_sequence (ww_sequence w)) \<rparr>"
      "\<forall>s. kc_last_received_sequence c = Some s \<longrightarrow> s < decode_sequence (ww_sequence w)"
      "\<exists>h. check_wrapped_frame p = Inr h"
proof (cases "\<exists>s. kc_last_received_sequence c = Some s \<and> decode_sequence (ww_sequence w) \<le> s")
  case True
  with assms refused show ?thesis by (auto simp: client_admit_def Let_def)
next
  case False
  then have fresh: "\<not> (case kc_last_received_sequence c of None \<Rightarrow> False | Some s \<Rightarrow> decode_sequence (ww_sequence w) \<le> s)"
    by (simp split: option.split)
  show ?thesis
  proof (cases "check_wrapped_frame p")
    case (Inl e)
    then have "r = Inl e" "only_counters c c'" "p' = cleanse p" "e \<noteq> Secure_replay"
      using assms fresh check_wrapped_frame_error [OF Inl] by (auto simp: client_admit_def Let_def)
    with False refused show ?thesis by blast
  next
    case (Inr h)
    then have "r = Inr ()" "p' = p" "c' = c\<lparr> kc_last_received_sequence := Some (decode_sequence (ww_sequence w)) \<rparr>"
      using assms fresh by (simp_all add: client_admit_def Let_def)
    moreover have "\<forall>s. kc_last_received_sequence c = Some s \<longrightarrow> s < decode_sequence (ww_sequence w)"
      using False by (auto simp: not_le)
    ultimately show ?thesis using admitted Inr by blast
  qed
qed

lemma client_apply_cases:
  assumes "client_apply p c = (r, c')"
  obtains (ended) e where "r = Inl e" "c' = client_close c" "e \<in> {Secure_session_rejected, Secure_session_closed}"
    | (refused) "r = Inl Unsupported_service" "c' = note_refused_service c"
    | (tunnel) "r = Inr \<lparr> op_size = length p, op_for_tunnel = True \<rparr>" "c' = c" "kc_phase c = Phase_established"
    | (kept) "r = Inr \<lparr> op_size = length p, op_for_tunnel = False \<rparr>" "c' = c" "kc_phase c \<noteq> Phase_authenticating"
    | (established) k where "r = Inr \<lparr> op_size = length p, op_for_tunnel = False \<rparr>" "kc_phase c = Phase_authenticating"
      "c' = c\<lparr> kc_phase := Phase_established, kc_counters := k \<rparr>"
  using assms by (auto simp: client_apply_def split: sum.splits if_splits)

lemma client_open_cases:
  assumes "client_open b w d now c = (r, d', c')"
  obtains (refused) e where "r = Inl e" "only_counters c c'"
      "d' = d \<or> take (length (ww_encrypted_frame w)) d' = replicate (length (ww_encrypted_frame w)) 0"
    | (cleansed) e n d0 where "r = Inl e" "only_counters c c'" "open_wrapper b d (kc_session_key c) w = (Inr n, d0)"
      "d' = write_at d0 0 (cleanse (take n d0))"
    | (admitted) n where "\<not> secret_empty (kc_session_key c)" "ww_session_id w = kc_session_id c"
      "open_wrapper b d (kc_session_key c) w = (Inr n, d')"
      "\<forall>s. kc_last_received_sequence c = Some s \<longrightarrow> s < decode_sequence (ww_sequence w)"
      "\<exists>h. check_wrapped_frame (take n d') = Inr h"
      "client_apply (take n d') (c\<lparr> kc_last_received_sequence := Some (decode_sequence (ww_sequence w)),
         kc_last_received_ms := now \<rparr>) = (r, c')"
proof -
  obtain r1 d1 c1 where a: "authenticate_wrapper b w d c = (r1, d1, c1)" by (metis prod_cases3)
  from a show thesis
  proof (cases rule: authenticate_wrapper_cases)
    case (refused e)
    with assms a have "r = Inl e" "only_counters c c'" "d' = d1" by (simp_all add: client_open_def)
    with refused(3) that(1) show thesis by blast
  next
    case (opened n)
    obtain r2 p2 c2 where m: "client_admit w (take n d1) c = (r2, p2, c2)" by (metis prod_cases3)
    from m show thesis
    proof (cases rule: client_admit_cases)
      case (refused e)
      with assms a opened m have "r = Inl e" "only_counters c c'" "d' = write_at d1 0 (cleanse (take n d1))"
        by (simp_all add: client_open_def)
      with opened(5) that(2) show thesis by blast
    next
      case admitted
      with assms a opened m have "client_apply (take n d1) (c\<lparr> kc_last_received_sequence :=
          Some (decode_sequence (ww_sequence w)), kc_last_received_ms := now \<rparr>) = (r, c')" "d' = d1"
        by (simp_all add: client_open_def split: prod.splits)
      with opened admitted that(3) show thesis by blast
    qed
  qed
qed

lemma over_facts [simp]:
  "session_over ((client_forget c)\<lparr> kc_phase := Phase_closed \<rparr>)" "client_inv ((client_forget c)\<lparr> kc_phase := Phase_closed \<rparr>)"
  by (simp_all add: session_over_def client_inv_def client_forget_def clear_secret_def)

lemma only_counters_keeps:
  assumes "only_counters c c'"
  shows "client_inv c' = client_inv c" "sequence_seen q c' = sequence_seen q c" "sequence_spent q c' = sequence_spent q c"
    "kc_credentials c' = kc_credentials c"
proof -
  obtain k where "c' = c\<lparr> kc_counters := k \<rparr>" using assms unfolding only_counters_def by blast
  then show "client_inv c' = client_inv c" "sequence_seen q c' = sequence_seen q c"
      "sequence_spent q c' = sequence_spent q c" "kc_credentials c' = kc_credentials c"
    by (simp_all add: client_inv_def sequence_seen_def sequence_spent_def session_over_def)
qed

lemma verify_response_cases:
  assumes "verify_response b rsp c = (r, c')"
  shows "only_counters c c'" "r = Inr () \<Longrightarrow> c' = c \<and> ea_session_id rsp \<noteq> 0 \<and> (\<not> cd_skip_device_authentication (kc_credentials c) \<longrightarrow>
     verify_session_response \<lparr> ci_backend = b, ci_key = cd_device_authentication_code (kc_credentials c) \<rparr> rsp
       (kp_public_key (kc_key_pair c)) = Inr ())"
  using assms by (auto simp: verify_response_def Let_def split: if_splits)

lemma client_authenticate_ok:
  assumes "client_authenticate b rsp d now c = (Inr n, d', c')"
  obtains key mac plain where "derive_session_key b (kp_private_key (kc_key_pair c)) (ea_server_public_key rsp) = Inr key"
    "basic_session_authenticate_mac \<lparr> ci_backend = b, ci_key = cd_user_password_key (kc_credentials c) \<rparr>
       (cd_user_id (kc_credentials c)) (kp_public_key (kc_key_pair c)) (ea_server_public_key rsp) = Inr mac"
    "encode_session_authenticate_packet (replicate session_authenticate_size 0)
       \<lparr> eu_user_id = cd_user_id (kc_credentials c), eu_mac = mac \<rparr> = (Inr (), plain)"
    "seal_frame b plain d now (authenticating key rsp c) = (Inr n, d', c')"
  using assms unfolding client_authenticate_def authenticating_def
  by (auto split: sum.splits prod.splits)

lemma client_close_credentials [simp]:
  "kc_credentials (client_close c) = kc_credentials c" "kc_credentials (client_forget c) = kc_credentials c"
  by (simp_all add: client_close_def client_forget_def Let_def)

lemma seal_frame_credentials: "seal_frame b p d now c = (r, d', c') \<Longrightarrow> kc_credentials c' = kc_credentials c"
  using seal_frame_result [of b p d now c r d' c'] by auto

lemma client_authenticate_credentials:
  "client_authenticate b rsp d now c = (r, d', c') \<Longrightarrow> kc_credentials c' = kc_credentials c"
  by (auto simp: client_authenticate_def dest: seal_frame_credentials split: sum.splits prod.splits)

lemma on_session_response_cases:
  assumes "on_session_response b rsp d now c = (r, d', c')"
  obtains (refused) e where "r = Inl e" "c' = c"
    | (ended) e where "r = Inl e" "session_over c'" "client_inv c'" "kc_credentials c' = kc_credentials c"
    | (sent) n key plain where "r = Inr n" "kc_phase c = Phase_requested" "ea_session_id rsp \<noteq> 0"
      "seal_frame b plain d now (authenticating key rsp c) =
         (Inr n, d', (authenticating key rsp c)\<lparr> kc_next_sequence := kc_next_sequence c + 1, kc_last_sent_ms := now \<rparr>)"
      "kc_next_sequence c \<le> max_sequence"
      "c' = (authenticating key rsp c)\<lparr> kc_next_sequence := kc_next_sequence c + 1, kc_last_sent_ms := now,
         kc_phase := Phase_authenticating, kc_last_received_ms := now \<rparr>"
proof (cases "kc_phase c = Phase_requested")
  case False
  with assms refused show ?thesis by (auto simp: on_session_response_def)
next
  case True
  obtain r1 c1 where v: "verify_response b rsp c = (r1, c1)" by fastforce
  show ?thesis
  proof (cases r1)
    case (Inl e)
    with True assms v have "r = Inl e" "c' = client_close c1" by (auto simp: on_session_response_def)
    with ended only_counters_keeps(4) [OF verify_response_cases(1) [OF v]] show ?thesis by simp
  next
    case (Inr u)
    then have c1: "c1 = c" "ea_session_id rsp \<noteq> 0" using verify_response_cases(2) [OF v] by auto
    obtain r2 d2 c2 where a: "client_authenticate b rsp d now c = (r2, d2, c2)" by (metis prod_cases3)
    show ?thesis
    proof (cases r2)
      case (Inl e)
      with True assms v Inr c1 a have "r = Inl e" "c' = client_close c2" by (auto simp: on_session_response_def)
      with ended client_authenticate_credentials [OF a] show ?thesis by simp
    next
      case (Inr n)
      with True assms v \<open>r1 = Inr u\<close> c1 a
      have r: "r = Inr n" "d' = d2" "c' = c2\<lparr> kc_phase := Phase_authenticating, kc_last_received_ms := now \<rparr>"
        by (auto simp: on_session_response_def)
      obtain key mac plain where s: "seal_frame b plain d now (authenticating key rsp c) = (Inr n, d2, c2)"
        using client_authenticate_ok a Inr by metis
      have n: "kc_next_sequence (authenticating key rsp c) = kc_next_sequence c" by (simp add: authenticating_def)
      have "kc_next_sequence c \<le> max_sequence"
        "c2 = (authenticating key rsp c)\<lparr> kc_next_sequence := kc_next_sequence c + 1, kc_last_sent_ms := now \<rparr>"
        using seal_frame_result [OF s] n by auto
      with sent r True c1 s show ?thesis by simp
    qed
  qed
qed

lemma open_wrapper_size:
  assumes "open_wrapper b d key w = (Inr n, d')"
  shows "n = length (ww_encrypted_frame w)" "n \<le> length d'"
  using assms by (auto simp: open_wrapper_def basic_open_wrapper_def Let_def write_at_def
    split: if_split_asm sum.split_asm prod.split_asm)

lemma cleansed_buffer:
  "n \<le> length d \<Longrightarrow> take n (write_at d 0 (cleanse (take n d))) = replicate n 0"
  by (simp add: cleanse_def)

lemma client_seal_status_eq:
  assumes "st \<le> 5"
  shows "client_seal_status b st d now c = seal_frame b (session_status_wire \<lparr> es_status = st \<rparr>) d now c"
proof -
  have len: "length (session_status_wire \<lparr> es_status = st \<rparr>) = session_status_size"
    by (simp add: session_status_wire_def secure_sizes knx_packet_def)
  then have "encode_session_status_packet (replicate session_status_size 0) \<lparr> es_status = st \<rparr> =
      (Inr (), session_status_wire \<lparr> es_status = st \<rparr>)"
    using assms session_status.encode_wire [of "\<lparr> es_status = st \<rparr>" "replicate session_status_size 0"]
    by (simp add: write_at_whole)
  then show ?thesis by (simp add: client_seal_status_def)
qed

lemma status_bounds [simp]: "status_keepalive \<le> 5" "status_close \<le> 5" "status_authentication_success \<le> 5"
  by (simp_all add: status_keepalive_def status_close_def status_authentication_success_def)

lemma seal_frame_move:
  assumes "seal_frame b p d now c = (r, d', c')" "session_open c"
  shows "client_move c c'"
  using seal_frame_result [OF assms(1)] assms(2) by (auto intro: client_move.intros)

lemma client_seal_move: "client_seal b p d now c = (r, d', c') \<Longrightarrow> client_move c c'"
  using seal_frame_move [of b p d now c r d' c']
  by (auto simp: client_seal_def session_open_def intro: client_move.intros split: if_splits)

lemma keep_alive_move: "prepare_keep_alive b d now c = (r, d', c') \<Longrightarrow> client_move c c'"
  using seal_frame_move [of b _ d now c r d' c']
  by (auto simp: prepare_keep_alive_def client_seal_status_eq session_open_def intro: client_move.intros split: if_splits)

lemma prepare_close_cases:
  assumes "prepare_close b d now c = (r, d', c')"
  obtains (refused) "r = Inl Invalid_configuration" "c' = c"
    | (closed) c1 where "\<not> secret_empty (kc_session_key c)" "c' = client_close c1" "kc_credentials c1 = kc_credentials c"
      "seal_frame b (session_status_wire \<lparr> es_status = status_close \<rparr>) d now c = (r, d', c1)"
proof (cases "secret_empty (kc_session_key c)")
  case True
  with assms refused show ?thesis by (simp add: prepare_close_def)
next
  case False
  obtain r1 d1 c1 where s: "seal_frame b (session_status_wire \<lparr> es_status = status_close \<rparr>) d now c = (r1, d1, c1)"
    by (metis prod_cases3)
  with assms False have "r = r1" "d' = d1" "c' = client_close c1"
    by (simp_all add: prepare_close_def client_seal_status_eq)
  with False s seal_frame_credentials [OF s] closed show ?thesis by blast
qed

lemma prepare_close_move: "prepare_close b d now c = (r, d', c') \<Longrightarrow> client_move c c'"
  by (erule prepare_close_cases) (simp_all add: client_move.quiet client_move.ended)

lemma client_open_move:
  assumes "client_open b w d now c = (r, d', c')"
  shows "client_move c c'"
  using assms
proof (cases rule: client_open_cases)
  case (admitted n)
  let ?q = "decode_sequence (ww_sequence w)"
  let ?c = "c\<lparr> kc_last_received_sequence := Some ?q, kc_last_received_ms := now \<rparr>"
  have move: "client_move c (?c\<lparr> kc_phase := phase, kc_counters := k \<rparr>)"
    if "phase = kc_phase c \<or> (kc_phase c = Phase_authenticating \<and> phase = Phase_established)" for phase k
    using opened [OF admitted(1,4) that] by simp
  from admitted(6) show ?thesis
  proof (cases rule: client_apply_cases)
    case refused
    then show ?thesis using move [of "kc_phase c" "kc_counters c'"] by (simp add: note_refused_service_def)
  next
    case (established k)
    then show ?thesis using move [of Phase_established k] by simp
  next
    case tunnel
    show ?thesis using move [of "kc_phase c" "kc_counters c"] tunnel(2) by simp
  next
    case kept
    show ?thesis using move [of "kc_phase c" "kc_counters c"] kept(2) by simp
  qed (simp add: client_move.ended)
qed (simp_all add: client_move.quiet)

lemma on_session_response_move: "on_session_response b rsp d now c = (r, d', c') \<Longrightarrow> client_move c c'"
  by (erule on_session_response_cases) (auto intro: client_move.intros)

lemma client_handle_move:
  assumes "\<not> is_begin ev"
  shows "client_move c (client_after b ev c)"
proof (cases ev)
  case (Ev_session_response rsp d now)
  then show ?thesis using on_session_response_move
    by (auto simp: client_after_def sent_packet_def split: prod.split)
next
  case (Ev_open w d now)
  then show ?thesis using client_open_move by (auto simp: client_after_def split: prod.split sum.split)
next
  case (Ev_seal p d now)
  then show ?thesis using client_seal_move by (auto simp: client_after_def sent_packet_def split: prod.split)
next
  case (Ev_keep_alive d now)
  then show ?thesis using keep_alive_move by (auto simp: client_after_def sent_packet_def split: prod.split)
next
  case (Ev_prepare_close d now)
  then show ?thesis using prepare_close_move by (auto simp: client_after_def sent_packet_def split: prod.split)
next
  case (Ev_check_timeout now)
  then show ?thesis by (auto simp: client_after_def check_timeout_def Let_def intro: client_move.intros)
next
  case Ev_unwrapped_status
  then show ?thesis by (auto simp: client_after_def on_unwrapped_status_def intro: client_move.intros)
qed (use assms in \<open>auto simp: client_after_def intro: client_move.intros\<close>)

lemma move_inv: "client_move c c' \<Longrightarrow> client_inv c \<Longrightarrow> client_inv c'"
proof (induction rule: client_move.induct)
  case (quiet c c')
  then show ?case by (simp add: only_counters_keeps)
next
  case (sealed c now)
  then show ?case using next_sequence_step [of "kc_next_sequence c"] by (auto simp: client_inv_def session_open_def)
next
  case (responded c rsp key now)
  then show ?case using next_sequence_step [of "kc_next_sequence c"]
    by (auto simp: client_inv_def authenticating_def clear_secret_def)
next
  case (opened c q phase now k)
  then have "session_open c" by (cases "kc_phase c") (auto simp: client_inv_def session_open_def)
  then show ?case using opened by (auto simp: client_inv_def session_open_def)
qed

lemma move_seen: "client_move c c' \<Longrightarrow> sequence_seen q c \<Longrightarrow> sequence_seen q c'"
proof (induction rule: client_move.induct)
  case (opened c s phase now k)
  then obtain s' where "kc_last_received_sequence c = Some s'" "q \<le> s'"
    by (auto simp: sequence_seen_def session_over_def)
  with opened(2) show ?case by (auto simp: sequence_seen_def)
next
  case (quiet c c')
  then show ?case by (simp add: only_counters_keeps)
qed (auto simp: sequence_seen_def session_over_def session_open_def authenticating_def)

lemma move_spent: "client_move c c' \<Longrightarrow> sequence_spent q c \<Longrightarrow> sequence_spent q c'"
proof (induction rule: client_move.induct)
  case (sealed c now)
  then show ?case using next_sequence_step [of "kc_next_sequence c"]
    by (auto simp: sequence_spent_def session_over_def session_open_def)
next
  case (responded c rsp key now)
  then show ?case using next_sequence_step [of "kc_next_sequence c"]
    by (auto simp: sequence_spent_def session_over_def authenticating_def)
next
  case (quiet c c')
  then show ?case by (simp add: only_counters_keeps)
qed (auto simp: sequence_spent_def session_over_def)

lemma move_credentials: "client_move c c' \<Longrightarrow> kc_credentials c' = kc_credentials c"
  by (induction rule: client_move.induct) (simp_all add: only_counters_keeps authenticating_def)

lemma client_begin_cases:
  assumes "client_begin d h now kp c = (r, d', c')"
  obtains (refused) e where "r = Inl e" "c' = c"
    | (begun) key_pair where "r = Inr session_request_size" "kp = Inr key_pair" "kc_phase c \<in> {Phase_idle, Phase_closed}"
      "encode_session_request_packet d \<lparr> eq_control_endpoint = h, eq_client_public_key = kp_public_key key_pair \<rparr> = (Inr (), d')"
      "c' = (client_forget c)\<lparr> kc_key_pair := key_pair, kc_phase := Phase_requested, kc_last_sent_ms := now,
         kc_last_received_ms := now \<rparr>"
  using assms unfolding client_begin_def
  by (auto split: if_split_asm sum.split_asm prod.split_asm)

lemma client_begin_inv: "client_inv c \<Longrightarrow> client_begin d h now kp c = (r, d', c') \<Longrightarrow> client_inv c'"
  by (erule client_begin_cases) (simp_all add: client_inv_def client_forget_def clear_secret_def)

lemma client_after_inv: "client_inv c \<Longrightarrow> client_inv (client_after b ev c)"
proof (cases "is_begin ev")
  case True
  assume inv: "client_inv c"
  obtain d h now kp where ev: "ev = Ev_begin d h now kp" using True by (cases ev) simp_all
  obtain r d' c' where s: "client_begin d h now kp c = (r, d', c')" by (metis prod_cases3)
  show ?thesis using client_begin_inv [OF inv s] s by (simp add: ev client_after_def sent_packet_def)
next
  case False
  assume "client_inv c"
  then show ?thesis using client_handle_move [OF False] move_inv by blast
qed

lemma new_client_inv: "client_inv (new_client_session credentials)"
  by (simp add: new_client_session_def client_inv_def secret_empty_def list_all_iff)

interpretation secure_client: state_machine "\<lambda>c. \<exists>credentials. c = new_client_session credentials" "client_step b" client_inv
  by unfold_locales (auto elim!: client_step.cases intro: client_after_inv new_client_inv)

lemma accepted_step:
  assumes "fst (snd (client_handle b ev c)) = Some q"
  shows "\<not> sequence_seen q c" "sequence_seen q (client_after b ev c)"
proof -
  obtain w d now f d' c' where ev: "ev = Ev_open w d now" "client_open b w d now c = (Inr f, d', c')"
      "q = decode_sequence (ww_sequence w)"
    using assms by (cases ev) (auto simp: sent_packet_def split: prod.splits sum.splits)
  from ev(2) have "\<not> sequence_seen q c \<and> sequence_seen q c'"
  proof (cases rule: client_open_cases)
    case (admitted n)
    have "kc_last_received_sequence c' = Some q"
      using admitted(6) by (cases rule: client_apply_cases) (auto simp: ev(3))
    then show ?thesis using admitted(1,4) ev(3) by (auto simp: sequence_seen_def session_over_def)
  qed simp_all
  then show "\<not> sequence_seen q c" "sequence_seen q (client_after b ev c)"
    using ev by (simp_all add: client_after_def)
qed

lemma sequence_seen_mono: "sequence_seen q c \<Longrightarrow> p \<le> q \<Longrightarrow> sequence_seen p c"
  by (auto simp: sequence_seen_def)

lemma accepted_above:
  assumes "\<forall>ev \<in> set evs. \<not> is_begin ev" "sequence_seen q c"
  shows "\<forall>p \<in> set (accepted_sequences b evs c). q < p"
  using assms
proof (induction evs arbitrary: c)
  case (Cons ev evs)
  have "sequence_seen q (client_after b ev c)"
    using Cons.prems client_handle_move [of ev c b] move_seen by simp
  then have "\<forall>p \<in> set (accepted_sequences b evs (client_after b ev c)). q < p" using Cons by simp
  moreover have "q < p" if "fst (snd (client_handle b ev c)) = Some p" for p
    using accepted_step(1) [OF that] sequence_seen_mono [OF Cons.prems(2), of p] by (meson not_le)
  ultimately show ?case by (auto split: option.splits)
qed simp

lemma accepted_sorted:
  "\<forall>ev \<in> set evs. \<not> is_begin ev \<Longrightarrow> sorted_wrt (<) (accepted_sequences b evs c)"
proof (induction evs arbitrary: c)
  case (Cons ev evs)
  then show ?case
    using accepted_above [of evs _ "client_after b ev c" b] accepted_step(2) [of b ev c]
    by (auto split: option.split)
qed simp

lemma length_encode_sequence [simp]: "length (encode_sequence q) = 6"
  by (simp add: encode_sequence_octets)

lemma seal_frame_sends:
  assumes "ctr_symmetric b" "mac_is_block b" "length (cd_serial_number (kc_credentials c)) = 6"
    and "seal_frame b p d now c = (Inr n, d', c')"
  shows "packet_sequences (take n d') = [kc_next_sequence c]" "kc_next_sequence c \<le> max_sequence"
    "c' = c\<lparr> kc_next_sequence := kc_next_sequence c + 1, kc_last_sent_ms := now \<rparr>"
proof -
  let ?f = "\<lparr> wf_session_id = kc_session_id c, wf_sequence = encode_sequence (kc_next_sequence c),
    wf_serial_number = cd_serial_number (kc_credentials c), wf_message_tag = tunnelling_message_tag \<rparr>"
  have s: "kc_next_sequence c \<le> max_sequence" "c' = c\<lparr> kc_next_sequence := kc_next_sequence c + 1, kc_last_sent_ms := now \<rparr>"
    "basic_seal_wrapper \<lparr> ci_backend = b, ci_key = kc_session_key c \<rparr> d ?f p = (Inr n, d')"
    using seal_frame_result [OF assms(4)] by (simp_all add: seal_wrapper_def)
  have "wrapper_fields_wf ?f" using assms(3) by (simp add: wrapper_fields_wf_def tunnelling_message_tag_def)
  from sealed_wrapper [OF _ _ this s(3) order_refl] obtain v where "decode_wrapper_packet (take n d') = Inr v" "fields_of v = ?f"
    using assms(1,2) by auto
  then have "packet_sequences (take n d') = [decode_sequence (encode_sequence (kc_next_sequence c))]"
    by (simp add: packet_sequences_def fields_of_def)
  with s show "packet_sequences (take n d') = [kc_next_sequence c]" "kc_next_sequence c \<le> max_sequence"
    "c' = c\<lparr> kc_next_sequence := kc_next_sequence c + 1, kc_last_sent_ms := now \<rparr>"
    by (simp_all add: decode_encode_sequence)
qed

lemma sent_step:
  assumes b: "ctr_symmetric b" "mac_is_block b" "length (cd_serial_number (kc_credentials c)) = 6"
    and ev: "\<not> is_begin ev" and p: "fst (client_handle b ev c) = Some p"
  shows "packet_sequences p = [kc_next_sequence c] \<and> kc_next_sequence c \<le> max_sequence \<and> \<not> session_over c \<and>
    sequence_spent (kc_next_sequence c) (client_after b ev c)"
proof -
  have out: ?thesis if "seal_frame b q d now c = (Inr n, d', c1)" "p = take n d'" "\<not> session_over c"
      "client_after b ev c = c1 \<or> session_over (client_after b ev c)" for q d now n d' c1
    using seal_frame_sends [OF b that(1)] that next_sequence_step(1) [of "kc_next_sequence c"]
    by (auto simp: sequence_spent_def session_over_def)
  show ?thesis
  proof (cases ev)
    case (Ev_session_response rsp d now)
    then obtain n d' c' where r: "on_session_response b rsp d now c = (Inr n, d', c')" "p = take n d'"
      using p by (auto simp: sent_packet_def split: prod.splits sum.splits)
    from r(1) show ?thesis
    proof (cases rule: on_session_response_cases)
      case (sent m key plain)
      have "length (cd_serial_number (kc_credentials (authenticating key rsp c))) = 6"
        "kc_next_sequence (authenticating key rsp c) = kc_next_sequence c"
        using b(3) by (simp_all add: authenticating_def)
      with seal_frame_sends [OF b(1,2) this(1) sent(4)] sent(1,2,6) next_sequence_step(1) [of "kc_next_sequence c"]
      show ?thesis using r Ev_session_response
        by (simp add: client_after_def sent_packet_def session_over_def sequence_spent_def authenticating_def)
    qed simp_all
  next
    case (Ev_seal q d now)
    then obtain n d' c' where "client_seal b q d now c = (Inr n, d', c')" "p = take n d'"
      using p by (auto simp: sent_packet_def split: prod.splits sum.splits)
    then show ?thesis using out [of q d now n d' c'] Ev_seal
      by (auto simp: client_seal_def client_after_def sent_packet_def session_over_def split: if_splits)
  next
    case (Ev_keep_alive d now)
    then obtain n d' c' where "prepare_keep_alive b d now c = (Inr n, d', c')" "p = take n d'"
      using p by (auto simp: sent_packet_def split: prod.splits sum.splits)
    then show ?thesis using out [of _ d now n d' c'] Ev_keep_alive
      by (auto simp: prepare_keep_alive_def client_seal_status_eq client_after_def sent_packet_def session_over_def
        split: if_splits)
  next
    case (Ev_prepare_close d now)
    then obtain n d' c' where r: "prepare_close b d now c = (Inr n, d', c')" "p = take n d'"
      using p by (auto simp: sent_packet_def split: prod.splits sum.splits)
    from r(1) show ?thesis
    proof (cases rule: prepare_close_cases)
      case (closed c1)
      have over: "\<not> session_over c" "client_after b ev c = client_close c1"
        using closed(1,2) Ev_prepare_close r by (simp_all add: session_over_def client_after_def sent_packet_def)
      show ?thesis by (rule out [OF closed(4) r(2) over(1)]) (simp add: over(2))
    qed simp
  qed (use ev p in \<open>auto split: prod.splits sum.splits\<close>)
qed

lemma sent_above:
  assumes "ctr_symmetric b" "mac_is_block b" "length (cd_serial_number (kc_credentials c)) = 6"
    "\<forall>ev \<in> set evs. \<not> is_begin ev"
  shows "(sequence_spent q c \<longrightarrow> (\<forall>p \<in> set (sent_sequences b evs c). q < p)) \<and> sorted_wrt (<) (sent_sequences b evs c) \<and>
    (\<forall>p \<in> set (sent_sequences b evs c). p \<le> max_sequence) \<and>
    length (sent_sequences b evs c) = length (sent_packets b evs c)"
  using assms(3,4)
proof (induction evs arbitrary: c q)
  case (Cons ev evs)
  let ?c = "client_after b ev c"
  have move: "client_move c ?c" using Cons.prems client_handle_move by simp
  then have IH: "(sequence_spent q ?c \<longrightarrow> (\<forall>p \<in> set (sent_sequences b evs ?c). q < p)) \<and>
      sorted_wrt (<) (sent_sequences b evs ?c) \<and> (\<forall>p \<in> set (sent_sequences b evs ?c). p \<le> max_sequence) \<and>
      length (sent_sequences b evs ?c) = length (sent_packets b evs ?c)" for q
    using Cons.IH [of ?c q] Cons.prems move_credentials [OF move] by simp
  show ?case
  proof (cases "fst (client_handle b ev c)")
    case None
    then show ?thesis using IH move_spent [OF move] by (auto simp: sent_sequences_def)
  next
    case (Some p)
    have s: "packet_sequences p = [kc_next_sequence c]" "kc_next_sequence c \<le> max_sequence" "\<not> session_over c"
      "sequence_spent (kc_next_sequence c) ?c"
      using sent_step [OF assms(1,2) Cons.prems(1) _ Some] Cons.prems(2) by auto
    have "sent_sequences b (ev # evs) c = kc_next_sequence c # sent_sequences b evs ?c"
      "length (sent_packets b (ev # evs) c) = Suc (length (sent_packets b evs ?c))"
      using Some s(1) by (simp_all add: sent_sequences_def)
    then show ?thesis
      using IH [of "kc_next_sequence c"] IH [of q] s move_spent [OF move] by (auto simp: sequence_spent_def)
  qed
qed (simp add: sent_sequences_def)

lemma sample_wrapper:
  "\<exists>v. fields_of v = sample_fields \<and> basic_open_wrapper sample_cipher (replicate 8 0) v = (Inr 8, sample_plain)"
proof -
  obtain d' where d': "basic_seal_wrapper sample_cipher (replicate 50 0) sample_fields sample_plain = (Inr 46, d')"
    using sample_seal by blast
  have "wrapper_fields_wf sample_fields" by (simp add: wrapper_fields_wf_def sample_fields_def)
  from sealed_wrapper [OF sample_backend_ok this d', of "replicate 8 0"]
  show ?thesis by (auto simp: sample_plain_def write_at_whole)
qed

lemma sample_accepts:
  assumes "fields_of v = sample_fields" "basic_open_wrapper sample_cipher (replicate 8 0) v = (Inr 8, sample_plain)"
  shows "accepted_sequences sample_backend [Ev_open v (replicate 8 0) 5, Ev_open v (replicate 8 0) 6] sample_client = [9]"
proof -
  have v: "ww_session_id v = 1" "ww_sequence v = [0, 0, 0, 0, 0, 9]" using assms(1) by (simp_all add: fields_of_def sample_fields_def)
  have q: "decode_sequence [0, 0, 0, 0, 0, 9] = 9" by code_simp
  have p: "\<exists>h. check_wrapped_frame sample_plain = Inr h"
    by (simp add: check_wrapped_frame_def decode_communication_header_def sample_plain_def be16_def
      services_refused_inside_wrapper_def wrapper_service_def secure_sizes Let_def)
  have "\<not> (\<exists>st. decode_session_status_packet sample_plain = Inr st)"
    by (auto simp: decode_session_status_iff sample_plain_def knx_packet_def header_wire_def session_status_service_def)
  then have p2: "\<exists>e. decode_session_status_packet sample_plain = Inl e"
    by (cases "decode_session_status_packet sample_plain") auto
  have o: "open_wrapper sample_backend (replicate 8 0) (replicate 16 3) v = (Inr 8, sample_plain)"
    using assms(2) by (simp add: open_wrapper_def sample_cipher_def)
  have l: "take 8 sample_plain = sample_plain" by (simp add: sample_plain_def)
  have c: "\<not> secret_empty (kc_session_key sample_client)" by (simp add: sample_client_def secret_empty_def list_all_iff)
  obtain h e where he: "check_wrapped_frame sample_plain = Inr h" "decode_session_status_packet sample_plain = Inl e"
    using p p2 by blast
  let ?c = "sample_client\<lparr> kc_last_received_sequence := Some 9, kc_last_received_ms := 5 \<rparr>"
  have one: "client_open sample_backend v (replicate 8 0) 5 sample_client =
      (Inr \<lparr> op_size = length sample_plain, op_for_tunnel = True \<rparr>, sample_plain, ?c)"
    using v o c he q l by (simp add: client_open_def authenticate_wrapper_def client_admit_def client_apply_def
      sample_client_def new_client_session_def Let_def)
  have two: "\<exists>x y. client_open sample_backend v (replicate 8 0) 6 ?c = (Inl Secure_replay, x, y)"
    using v o c he q l by (simp add: client_open_def authenticate_wrapper_def client_admit_def client_apply_def
      sample_client_def new_client_session_def Let_def)
  then obtain x y where two: "client_open sample_backend v (replicate 8 0) 6 ?c = (Inl Secure_replay, x, y)" by blast
  have q': "decode_sequence (ww_sequence v) = 9" using v q by simp
  show ?thesis using one two by (simp add: client_after_def q')
qed

subsection \<open>Properties\<close>

text \<open>
  C12: whatever a caller does with a client session, and in whatever order: an idle, requested or ended
  session holds no session key, no session id and starts its numbering at zero; the private key exists
  only while the response to its request is awaited; and a session that carries traffic has a non-zero
  id and a sequence number that has not left the 48-bit range.
\<close>

theorem client_session_invariant:
  assumes "reachable_from (\<lambda>c. \<exists>credentials. c = new_client_session credentials) (client_step b) c"
  shows "(kc_phase c \<in> {Phase_idle, Phase_requested, Phase_closed} \<longrightarrow>
        secret_empty (kc_session_key c) \<and> kc_session_id c = 0 \<and> kc_next_sequence c = 0 \<and>
        kc_last_received_sequence c = None) \<and>
     (kc_phase c \<noteq> Phase_requested \<longrightarrow> secret_empty (kp_private_key (kc_key_pair c))) \<and>
     (kc_phase c \<in> {Phase_authenticating, Phase_established} \<longrightarrow>
        kc_session_id c \<noteq> 0 \<and> 0 < kc_next_sequence c \<and> kc_next_sequence c \<le> max_sequence + 1)"
  using secure_client.reachable_inv [OF assms] by (simp add: client_inv_def)

theorem client_session_invariant_witness:
  "\<exists>c. c = client_after sample_backend Ev_close (new_client_session sample_credentials) \<and> kc_phase c = Phase_closed \<and>
     secret_empty (kc_session_key c) \<and> kc_next_sequence c = 0"
proof -
  let ?c = "client_after sample_backend Ev_close (new_client_session sample_credentials)"
  have "reachable_from (\<lambda>c. \<exists>credentials. c = new_client_session credentials) (client_step sample_backend) ?c"
    by (rule reachable_from.step, rule reachable_from.start, blast, rule client_step)
  note inv = client_session_invariant [OF this]
  have "kc_phase ?c = Phase_closed" by (simp add: client_after_def client_close_def Let_def)
  with inv show ?thesis by simp
qed

text \<open>
  C7: within one session no wrapper is accepted twice.  Over any run of the client's operations that
  begins no new session, with wrappers delivered in any order and any number of times, the sequence
  numbers of the accepted ones strictly increase.
\<close>

theorem client_no_replay:
  assumes "\<forall>ev \<in> set evs. \<not> is_begin ev"
  shows "sorted_wrt (<) (accepted_sequences b evs c)"
  using assms by (rule accepted_sorted)

theorem client_no_replay_witness:
  "\<exists>v. accepted_sequences sample_backend [Ev_open v (replicate 8 0) 5, Ev_open v (replicate 8 0) 6] sample_client = [9] \<and>
     sorted_wrt (<) (accepted_sequences sample_backend [Ev_open v (replicate 8 0) 5, Ev_open v (replicate 8 0) 6] sample_client)"
proof -
  obtain v where v: "fields_of v = sample_fields"
      "basic_open_wrapper sample_cipher (replicate 8 0) v = (Inr 8, sample_plain)"
    using sample_wrapper by blast
  let ?evs = "[Ev_open v (replicate 8 0) 5, Ev_open v (replicate 8 0) 6]"
  have "sorted_wrt (<) (accepted_sequences sample_backend ?evs sample_client)" by (rule client_no_replay) simp
  moreover have "accepted_sequences sample_backend ?evs sample_client = [9]" using sample_accepts [OF v] by simp
  ultimately show ?thesis by blast
qed

text \<open>
  C6: no sequence number, and so no counter block of the encryption, is used twice under a session key.
  Over any run of the client's operations that begins no new session, every packet it sends is a
  wrapper, their sequence numbers strictly increase and none exceeds the 48 bits the wrapper carries.
\<close>

theorem client_nonces_fresh:
  assumes "ctr_symmetric b" "mac_is_block b" "length (cd_serial_number (kc_credentials c)) = 6"
    and "\<forall>ev \<in> set evs. \<not> is_begin ev"
  shows "length (sent_sequences b evs c) = length (sent_packets b evs c) \<and> sorted_wrt (<) (sent_sequences b evs c) \<and>
    (\<forall>q \<in> set (sent_sequences b evs c). q \<le> max_sequence)"
  using sent_above [OF assms] by blast

theorem client_nonces_fresh_witness:
  "sorted_wrt (<) (sent_sequences sample_backend
     [Ev_seal sample_plain (replicate 50 0) 1, Ev_keep_alive (replicate 50 0) 2, Ev_prepare_close (replicate 50 0) 3] sample_client)"
proof -
  have ok: "ctr_symmetric sample_backend" "mac_is_block sample_backend"
    "length (cd_serial_number (kc_credentials sample_client)) = 6"
    using sample_backend_ok by (simp_all add: sample_cipher_def sample_client_def sample_credentials_def new_client_session_def)
  show ?thesis using client_nonces_fresh [OF ok] by simp
qed

text \<open>
  C8: opening a received wrapper.  What is accepted carries this session's id, opens under its key and
  is newer than everything accepted before, only an established session hands frames to the tunnel, and
  the number is remembered.  A wrapper refused as a forgery or a replay changes nothing of the session
  but its counters, and leaves no plaintext in the buffer.
\<close>

theorem client_open_exact:
  assumes "client_open b w d now c = (r, d', c')"
  shows "case r of
      Inr f \<Rightarrow> ww_session_id w = kc_session_id c \<and> \<not> secret_empty (kc_session_key c) \<and>
        open_wrapper b d (kc_session_key c) w = (Inr (op_size f), d') \<and>
        (\<forall>s. kc_last_received_sequence c = Some s \<longrightarrow> s < decode_sequence (ww_sequence w)) \<and>
        kc_last_received_sequence c' = Some (decode_sequence (ww_sequence w)) \<and>
        (op_for_tunnel f \<longrightarrow> kc_phase c = Phase_established \<and> c' = c\<lparr> kc_last_received_sequence :=
          Some (decode_sequence (ww_sequence w)), kc_last_received_ms := now \<rparr>)
    | Inl e \<Rightarrow> e \<in> {Secure_authentication_failed, Secure_replay} \<longrightarrow>
        c' = c\<lparr> kc_counters := kc_counters c' \<rparr> \<and>
        (d' = d \<or> take (length (ww_encrypted_frame w)) d' = replicate (length (ww_encrypted_frame w)) 0)"
  using assms
proof (cases rule: client_open_cases)
  case (refused e)
  then show ?thesis by (simp add: only_counters_def)
next
  case (cleansed e n d0)
  then show ?thesis using open_wrapper_size [OF cleansed(3)] cleansed_buffer [of n d0] by (simp add: only_counters_def)
next
  case (admitted n)
  have n: "length (take n d') = n" using open_wrapper_size(2) [OF admitted(3)] by simp
  from admitted(6) show ?thesis
    by (cases rule: client_apply_cases) (use admitted(1-4) n in auto)
qed

theorem client_open_exact_witness:
  "\<exists>d' c'. client_open sample_backend (wrapper_of sample_fields [9, 9, 9, 9, 9, 9] (replicate 16 0)) [1, 1] 5
       (new_client_session sample_credentials) = (Inl Secure_authentication_failed, d', c') \<and>
     kc_phase c' = Phase_idle \<and> kc_next_sequence c' = 0"
proof -
  obtain d' c' where o: "client_open sample_backend (wrapper_of sample_fields [9, 9, 9, 9, 9, 9] (replicate 16 0)) [1, 1] 5
       (new_client_session sample_credentials) = (Inl Secure_authentication_failed, d', c')"
    by (simp add: client_open_def authenticate_wrapper_def new_client_session_def secret_empty_def list_all_iff)
  from client_open_exact [OF o] have "c' = (new_client_session sample_credentials)\<lparr> kc_counters := kc_counters c' \<rparr>" by simp
  then obtain k where "c' = (new_client_session sample_credentials)\<lparr> kc_counters := k \<rparr>" by blast
  with o show ?thesis by (simp add: new_client_session_def)
qed

end
