(* ===== verification/Knx_Secure_Server.thy ===== *)
theory Knx_Secure_Server
  imports Knx_Secure_Client
begin

section \<open>The sessions of a KNX IP Secure tunnelling server\<close>

text \<open>
  The session table of \<open>knx/secure/server_session_table.cpp\<close>: opening sessions, opening and sealing
  their wrappers, authenticating their users and ending them.  The table's lock serialises its
  operations, so each operation is one step.
\<close>

subsection \<open>The server's session table\<close>

text \<open>
  A peer is a socket address: its family, the octets of the storage that follow the family field, and
  how many octets of the storage the transport filled in.  \<open>sockaddr_in\<close> has its address 4 octets and
  \<open>sockaddr_in6\<close> 8 octets from the start of the storage, whose first two octets are the family.
  A connection is compared and never followed, so its reference is a number.
\<close>

type_synonym connection_ref = nat

record transport_peer =
  tp_family :: u16
  tp_data :: bytes
  tp_length :: nat

definition af_inet :: u16 where "af_inet = 2"
definition af_inet6 :: u16 where "af_inet6 = 10"
definition sockaddr_in_size :: nat where "sockaddr_in_size = 16"
definition sockaddr_in6_size :: nat where "sockaddr_in6_size = 28"

definition same_address :: "transport_peer \<Rightarrow> transport_peer \<Rightarrow> bool" where
  "same_address lhs rhs =
     (if tp_family lhs \<noteq> tp_family rhs then False
      else if tp_family lhs = af_inet \<and> tp_length lhs \<ge> sockaddr_in_size \<and> tp_length rhs \<ge> sockaddr_in_size
      then take 4 (drop 2 (tp_data lhs)) = take 4 (drop 2 (tp_data rhs))
      else if tp_family lhs = af_inet6 \<and> tp_length lhs \<ge> sockaddr_in6_size \<and> tp_length rhs \<ge> sockaddr_in6_size
      then take 16 (drop 6 (tp_data lhs)) = take 16 (drop 6 (tp_data rhs))
      else False)"

definition same_peer :: "transport_peer \<Rightarrow> transport_peer \<Rightarrow> bool" where
  "same_peer lhs rhs \<longleftrightarrow> tp_length lhs = tp_length rhs \<and> tp_family lhs = tp_family rhs \<and>
     take (tp_length lhs - 2) (tp_data lhs) = take (tp_length lhs - 2) (tp_data rhs)"

record tunnelling_user =
  tu_user_id :: byte
  tu_password_key :: bytes
  tu_tunnel_addresses :: "individual_address list"

record server_configuration =
  sg_device_authentication_code :: bytes
  sg_users :: "tunnelling_user list"
  sg_serial_number :: bytes
  sg_max_sessions :: u16
  sg_max_unauthenticated_per_peer :: byte
  sg_unauthenticated_lifetime_ms :: u32

definition max_server_sessions :: u16 where "max_server_sessions = 255"

datatype server_frame_kind = Kind_tunnel | Kind_authenticated | Kind_refused_authentication | Kind_keep_alive | Kind_closed

record server_opened_frame =
  so_session_id :: u16
  so_size :: nat
  so_kind :: server_frame_kind

record client_origin =
  og_connection :: connection_ref
  og_peer :: transport_peer

record session_entry =
  se_session_id :: u16
  se_connection :: connection_ref
  se_peer :: transport_peer
  se_client_public_key :: bytes
  se_server_public_key :: bytes
  se_session_key :: bytes
  se_user :: "tunnelling_user option"
  se_created_ms :: u64
  se_last_received_ms :: u64
  se_next_sequence :: u64
  se_last_received_sequence :: "u64 option"

record server_session_table =
  sv_sessions :: "session_entry list"
  sv_next_session_id :: u16
  sv_counters :: statistics

definition new_session_table :: server_session_table where
  "new_session_table = \<lparr> sv_sessions = [], sv_next_session_id = 1, sv_counters = no_statistics \<rparr>"

definition session_limit :: "server_configuration \<Rightarrow> nat" where
  "session_limit cfg = min (unat (sg_max_sessions cfg)) (unat max_server_sessions)"

definition admit_request :: "server_configuration \<Rightarrow> transport_peer \<Rightarrow> server_session_table \<Rightarrow> unit result" where
  "admit_request cfg peer t =
     (if length (sv_sessions t) \<ge> session_limit cfg then Inl Send_queue_full
      else if length (filter (\<lambda>e. se_user e = None \<and> same_address (se_peer e) peer) (sv_sessions t))
                \<ge> unat (sg_max_unauthenticated_per_peer cfg)
      then Inl Send_queue_full
      else Inr ())"

definition find_session :: "u16 \<Rightarrow> session_entry list \<Rightarrow> session_entry option" where
  "find_session i es = find (\<lambda>e. se_session_id e = i) es"

text \<open>An update through the pointer \<open>find\<close> returned: the first entry with that id.\<close>

primrec update_session :: "u16 \<Rightarrow> (session_entry \<Rightarrow> session_entry) \<Rightarrow> session_entry list \<Rightarrow> session_entry list" where
  "update_session i f [] = []"
| "update_session i f (e # es) = (if se_session_id e = i then f e # es else e # update_session i f es)"

definition next_id :: "u16 \<Rightarrow> u16" where
  "next_id i = (if i = 0xFFFF then 1 else i + 1)"

text \<open>
  The loop has no bound of its own: it is a partial function, \<open>None\<close> when it never returns.  It yields
  the id and the next candidate.
\<close>

partial_function (option) allocate_session_id :: "session_entry list \<Rightarrow> u16 \<Rightarrow> (u16 \<times> u16) option" where
  "allocate_session_id es candidate =
     (if find_session candidate es = None then Some (candidate, next_id candidate)
      else allocate_session_id es (next_id candidate))"

declare allocate_session_id.simps [code]

definition find_user :: "server_configuration \<Rightarrow> byte \<Rightarrow> tunnelling_user option" where
  "find_user cfg user_id = find (\<lambda>u. tu_user_id u = user_id) (sg_users cfg)"

text \<open>\<open>None\<close>: the id allocation never returned.\<close>

definition on_session_request ::
    "crypto_backend \<Rightarrow> server_configuration \<Rightarrow> client_origin \<Rightarrow> session_request_frame \<Rightarrow> u64 \<Rightarrow>
     x25519_key_pair result \<Rightarrow> server_session_table \<Rightarrow> (session_response_frame result \<times> server_session_table) option" where
  "on_session_request backend cfg from request now_ms drawn t =
     (if \<not> valid_serial_number (sg_serial_number cfg) then Some (Inl Invalid_configuration, t)
      else case admit_request cfg (og_peer from) t of Inl e \<Rightarrow> Some (Inl e, t) | Inr _ \<Rightarrow>
        (case drawn of Inl e \<Rightarrow> Some (Inl e, t) | Inr key_pair \<Rightarrow>
          (case derive_session_key backend (kp_private_key key_pair) (eq_client_public_key request) of
             Inl e \<Rightarrow> Some (Inl e, t)
           | Inr session_key \<Rightarrow>
               (case allocate_session_id (sv_sessions t) (sv_next_session_id t) of
                  None \<Rightarrow> None
                | Some (session_id, next_session_id) \<Rightarrow>
                    (let t = t \<lparr> sv_next_session_id := next_session_id \<rparr>
                     in case basic_session_response_mac
                               \<lparr> ci_backend = backend, ci_key = sg_device_authentication_code cfg \<rparr>
                               session_id (eq_client_public_key request) (kp_public_key key_pair) of
                          Inl e \<Rightarrow> Some (Inl e, t)
                        | Inr mac \<Rightarrow>
                            Some (Inr \<lparr> ea_session_id = session_id, ea_server_public_key = kp_public_key key_pair, ea_mac = mac \<rparr>,
                              t \<lparr> sv_sessions := sv_sessions t @
                                [\<lparr> se_session_id = session_id, se_connection = og_connection from, se_peer = og_peer from,
                                   se_client_public_key = eq_client_public_key request,
                                   se_server_public_key = kp_public_key key_pair, se_session_key = session_key,
                                   se_user = None, se_created_ms = now_ms, se_last_received_ms = now_ms,
                                   se_next_sequence = 0, se_last_received_sequence = None \<rparr>] \<rparr>))))))"

definition count_authentication_failure :: "server_session_table \<Rightarrow> server_session_table" where
  "count_authentication_failure t =
     t \<lparr> sv_counters := (sv_counters t) \<lparr> sc_authentication_failures := sc_authentication_failures (sv_counters t) + 1 \<rparr> \<rparr>"

definition count_refused_service :: "server_session_table \<Rightarrow> server_session_table" where
  "count_refused_service t =
     t \<lparr> sv_counters := (sv_counters t) \<lparr> sc_refused_services := sc_refused_services (sv_counters t) + 1 \<rparr> \<rparr>"

definition count_replay :: "server_session_table \<Rightarrow> server_session_table" where
  "count_replay t = t \<lparr> sv_counters := (sv_counters t) \<lparr> sc_replays := sc_replays (sv_counters t) + 1 \<rparr> \<rparr>"

definition server_admit ::
    "session_entry \<Rightarrow> wrapper_frame \<Rightarrow> bytes \<Rightarrow> server_session_table \<Rightarrow> unit result \<times> bytes \<times> server_session_table" where
  "server_admit session wrapper plain t =
     (let sequence = decode_sequence (ww_sequence wrapper)
      in if (case se_last_received_sequence session of None \<Rightarrow> False | Some seen \<Rightarrow> sequence \<le> seen)
         then (Inl Secure_replay, cleanse plain, count_replay t)
         else
           case check_wrapped_frame plain of
             Inl e \<Rightarrow> (Inl e, cleanse plain, count_refused_service t)
           | Inr _ \<Rightarrow>
               (Inr (), plain,
                t \<lparr> sv_sessions := update_session (se_session_id session)
                      (\<lambda>e. e \<lparr> se_last_received_sequence := Some sequence \<rparr>) (sv_sessions t) \<rparr>))"

definition erase_session :: "u16 \<Rightarrow> server_session_table \<Rightarrow> server_session_table" where
  "erase_session i t = t \<lparr> sv_sessions := filter (\<lambda>e. se_session_id e \<noteq> i) (sv_sessions t) \<rparr>"

definition server_authenticate ::
    "crypto_backend \<Rightarrow> server_configuration \<Rightarrow> session_entry \<Rightarrow> session_authenticate_frame \<Rightarrow> server_session_table \<Rightarrow>
     server_opened_frame \<times> server_session_table" where
  "server_authenticate backend cfg session v t =
     (let user = find_user cfg (eu_user_id v);
          key = (case user of Some u \<Rightarrow> tu_password_key u | None \<Rightarrow> sg_device_authentication_code cfg);
          verified = verify_session_authenticate \<lparr> ci_backend = backend, ci_key = key \<rparr> v
                       (se_client_public_key session) (se_server_public_key session)
      in if user = None \<or> verified \<noteq> Inr ()
         then (\<lparr> so_session_id = se_session_id session, so_size = 0, so_kind = Kind_refused_authentication \<rparr>,
               count_authentication_failure t)
         else (\<lparr> so_session_id = se_session_id session, so_size = 0, so_kind = Kind_authenticated \<rparr>,
               t \<lparr> sv_sessions := update_session (se_session_id session) (\<lambda>e. e \<lparr> se_user := user \<rparr>) (sv_sessions t),
                   sv_counters := (sv_counters t) \<lparr> sc_sessions_opened := sc_sessions_opened (sv_counters t) + 1 \<rparr> \<rparr>))"

definition apply_status ::
    "session_entry \<Rightarrow> session_status \<Rightarrow> server_session_table \<Rightarrow> server_opened_frame result \<times> server_session_table" where
  "apply_status session status t =
     (let session_id = se_session_id session
      in if status = status_keepalive
         then (Inr \<lparr> so_session_id = session_id, so_size = 0, so_kind = Kind_keep_alive \<rparr>, t)
         else if status \<noteq> status_close \<and> status \<noteq> status_timeout \<and> status \<noteq> status_unauthenticated
         then (Inl Unsupported_service, count_refused_service t)
         else (Inr \<lparr> so_session_id = session_id, so_size = 0, so_kind = Kind_closed \<rparr>,
               erase_session session_id
                 (t \<lparr> sv_counters := (sv_counters t) \<lparr> sc_sessions_closed := sc_sessions_closed (sv_counters t) + 1 \<rparr> \<rparr>)))"

definition server_apply ::
    "crypto_backend \<Rightarrow> server_configuration \<Rightarrow> session_entry \<Rightarrow> bytes \<Rightarrow> server_session_table \<Rightarrow>
     server_opened_frame result \<times> server_session_table" where
  "server_apply backend cfg session plain t =
     (case decode_session_status_packet plain of
        Inr status \<Rightarrow> apply_status session (es_status status) t
      | Inl _ \<Rightarrow>
          if se_user session \<noteq> None
          then (Inr \<lparr> so_session_id = se_session_id session, so_size = length plain, so_kind = Kind_tunnel \<rparr>, t)
          else
            case decode_session_authenticate_packet plain of
              Inl _ \<Rightarrow> (Inl Unsupported_service, count_refused_service t)
            | Inr authentication \<Rightarrow>
                (let (frame, t) = server_authenticate backend cfg session authentication t in (Inr frame, t)))"

definition server_open ::
    "crypto_backend \<Rightarrow> server_configuration \<Rightarrow> client_origin \<Rightarrow> wrapper_frame \<Rightarrow> bytes \<Rightarrow> u64 \<Rightarrow> server_session_table \<Rightarrow>
     server_opened_frame result \<times> bytes \<times> server_session_table" where
  "server_open backend cfg from wrapper destination now_ms t =
     (case find_session (ww_session_id wrapper) (sv_sessions t) of
        None \<Rightarrow> (Inl Secure_authentication_failed, destination, count_authentication_failure t)
      | Some session \<Rightarrow>
          if se_connection session \<noteq> og_connection from \<or> \<not> same_peer (se_peer session) (og_peer from)
          then (Inl Secure_authentication_failed, destination, count_authentication_failure t)
          else
            case open_wrapper backend destination (se_session_key session) wrapper of
              (Inl e, destination) \<Rightarrow>
                (Inl e, destination, if e = Secure_authentication_failed then count_authentication_failure t else t)
            | (Inr n, destination) \<Rightarrow>
                (case server_admit session wrapper (take n destination) t of
                   (Inl e, plain, t) \<Rightarrow> (Inl e, write_at destination 0 plain, t)
                 | (Inr _, plain, t) \<Rightarrow>
                     (let t = t \<lparr> sv_sessions := update_session (se_session_id session)
                                    (\<lambda>e. e \<lparr> se_last_received_ms := now_ms \<rparr>) (sv_sessions t) \<rparr>;
                          (r, t) = server_apply backend cfg session plain t
                      in (r, destination, t))))"

record seal_request =
  sr_connection :: connection_ref
  sr_session_id :: u16
  sr_plain_frame :: bytes
  sr_destination :: bytes
  sr_authenticated_only :: bool

definition seal_locked ::
    "crypto_backend \<Rightarrow> server_configuration \<Rightarrow> seal_request \<Rightarrow> server_session_table \<Rightarrow>
     nat result \<times> bytes \<times> server_session_table" where
  "seal_locked backend cfg request t =
     (case find_session (sr_session_id request) (sv_sessions t) of
        None \<Rightarrow> (Inl Secure_session_closed, sr_destination request, t)
      | Some session \<Rightarrow>
          if se_connection session \<noteq> sr_connection request \<or> se_next_sequence session > max_sequence \<or>
             (sr_authenticated_only request \<and> se_user session = None)
          then (Inl Secure_session_closed, sr_destination request, t)
          else
            case seal_wrapper backend (sr_destination request) (se_session_key session)
                   \<lparr> wf_session_id = sr_session_id request, wf_sequence = encode_sequence (se_next_sequence session),
                     wf_serial_number = sg_serial_number cfg, wf_message_tag = tunnelling_message_tag \<rparr>
                   (sr_plain_frame request) of
              (Inl e, destination) \<Rightarrow> (Inl e, destination, t)
            | (Inr n, destination) \<Rightarrow>
                (Inr n, destination,
                 t \<lparr> sv_sessions := update_session (sr_session_id request)
                       (\<lambda>e. e \<lparr> se_next_sequence := se_next_sequence e + 1 \<rparr>) (sv_sessions t) \<rparr>))"

definition server_seal ::
    "crypto_backend \<Rightarrow> server_configuration \<Rightarrow> connection_ref \<Rightarrow> u16 \<Rightarrow> bytes \<Rightarrow> bytes \<Rightarrow> server_session_table \<Rightarrow>
     nat result \<times> bytes \<times> server_session_table" where
  "server_seal backend cfg connection session_id plain_frame destination t =
     seal_locked backend cfg \<lparr> sr_connection = connection, sr_session_id = session_id, sr_plain_frame = plain_frame,
       sr_destination = destination, sr_authenticated_only = True \<rparr> t"

definition server_seal_status ::
    "crypto_backend \<Rightarrow> server_configuration \<Rightarrow> connection_ref \<Rightarrow> u16 \<Rightarrow> session_status \<Rightarrow> bytes \<Rightarrow> server_session_table \<Rightarrow>
     nat result \<times> bytes \<times> server_session_table" where
  "server_seal_status backend cfg connection session_id status destination t =
     (case encode_session_status_packet (replicate session_status_size 0) \<lparr> es_status = status \<rparr> of
        (Inl e, _) \<Rightarrow> (Inl e, destination, t)
      | (Inr _, plain) \<Rightarrow>
          seal_locked backend cfg \<lparr> sr_connection = connection, sr_session_id = session_id, sr_plain_frame = plain,
            sr_destination = destination, sr_authenticated_only = False \<rparr> t)"

definition tunnel_addresses :: "u16 \<Rightarrow> server_session_table \<Rightarrow> individual_address list" where
  "tunnel_addresses session_id t =
     (case find_session session_id (sv_sessions t) of
        None \<Rightarrow> []
      | Some session \<Rightarrow> (case se_user session of None \<Rightarrow> [] | Some user \<Rightarrow> tu_tunnel_addresses user))"

definition session_alive :: "u16 \<Rightarrow> server_session_table \<Rightarrow> bool" where
  "session_alive session_id t \<longleftrightarrow> find_session session_id (sv_sessions t) \<noteq> None"

definition session_authenticated :: "u16 \<Rightarrow> server_session_table \<Rightarrow> bool" where
  "session_authenticated session_id t =
     (case find_session session_id (sv_sessions t) of None \<Rightarrow> False | Some session \<Rightarrow> se_user session \<noteq> None)"

definition has_sessions :: "connection_ref \<Rightarrow> server_session_table \<Rightarrow> bool" where
  "has_sessions connection t \<longleftrightarrow> list_ex (\<lambda>e. se_connection e = connection) (sv_sessions t)"

definition close_connection :: "connection_ref \<Rightarrow> server_session_table \<Rightarrow> nat \<times> server_session_table" where
  "close_connection connection t =
     (let kept = filter (\<lambda>e. se_connection e \<noteq> connection) (sv_sessions t)
      in (length (sv_sessions t) - length kept, t \<lparr> sv_sessions := kept \<rparr>))"

definition session_expired :: "server_configuration \<Rightarrow> u64 \<Rightarrow> session_entry \<Rightarrow> bool" where
  "session_expired cfg now_ms e \<longleftrightarrow>
     (se_user e = None \<and> now_ms \<ge> se_created_ms e + ucast (sg_unauthenticated_lifetime_ms cfg)) \<or>
     now_ms \<ge> se_last_received_ms e + session_timeout_ms"

definition reap :: "server_configuration \<Rightarrow> u64 \<Rightarrow> server_session_table \<Rightarrow> nat \<times> server_session_table" where
  "reap cfg now_ms t =
     (let kept = filter (\<lambda>e. \<not> session_expired cfg now_ms e) (sv_sessions t);
          ended = length (sv_sessions t) - length kept
      in (ended, t \<lparr> sv_sessions := kept,
                     sv_counters := (sv_counters t) \<lparr> sc_sessions_timed_out := sc_sessions_timed_out (sv_counters t) + of_nat ended \<rparr> \<rparr>))"

definition server_note_unencrypted :: "server_session_table \<Rightarrow> server_session_table" where
  "server_note_unencrypted t =
     t \<lparr> sv_counters := (sv_counters t) \<lparr> sc_unencrypted_refused := sc_unencrypted_refused (sv_counters t) + 1 \<rparr> \<rparr>"

subsection \<open>Steps of the table, and what holds of them\<close>

text \<open>
  A step of the table is one call of one of its operations.  \<open>session_evolves\<close> says how a session may
  change in a step, \<open>session_new\<close> what a session looks like when it is opened.
\<close>

inductive server_step :: "crypto_backend \<Rightarrow> server_configuration \<Rightarrow> server_session_table \<Rightarrow> server_session_table \<Rightarrow> bool"
  for b cfg where
  request: "on_session_request b cfg from rq now drawn t = Some (r, t') \<Longrightarrow> server_step b cfg t t'"
| opened: "server_open b cfg from w d now t = (r, d', t') \<Longrightarrow> server_step b cfg t t'"
| seal: "server_seal b cfg con i p d t = (r, d', t') \<Longrightarrow> server_step b cfg t t'"
| seal_status: "server_seal_status b cfg con i st d t = (r, d', t') \<Longrightarrow> server_step b cfg t t'"
| close: "server_step b cfg t (erase_session i t)"
| close_connection: "close_connection con t = (n, t') \<Longrightarrow> server_step b cfg t t'"
| reap: "reap cfg now t = (n, t') \<Longrightarrow> server_step b cfg t t'"
| note_unencrypted: "server_step b cfg t (server_note_unencrypted t)"

definition entry_inv :: "server_configuration \<Rightarrow> session_entry \<Rightarrow> bool" where
  "entry_inv cfg e \<longleftrightarrow> se_session_id e \<noteq> 0 \<and> se_next_sequence e \<le> max_sequence + 1 \<and>
     (\<forall>u. se_user e = Some u \<longrightarrow> find_user cfg (tu_user_id u) = Some u)"

definition table_inv :: "server_configuration \<Rightarrow> server_session_table \<Rightarrow> bool" where
  "table_inv cfg t \<longleftrightarrow> distinct (map se_session_id (sv_sessions t)) \<and> length (sv_sessions t) \<le> session_limit cfg \<and>
     sv_next_session_id t \<noteq> 0 \<and> (\<forall>e \<in> set (sv_sessions t). entry_inv cfg e)"

definition session_evolves :: "session_entry \<Rightarrow> session_entry \<Rightarrow> bool" where
  "session_evolves e e' \<longleftrightarrow> se_session_id e' = se_session_id e \<and> se_connection e' = se_connection e \<and>
     se_peer e' = se_peer e \<and> se_client_public_key e' = se_client_public_key e \<and>
     se_server_public_key e' = se_server_public_key e \<and> se_session_key e' = se_session_key e \<and>
     se_created_ms e' = se_created_ms e \<and> se_next_sequence e \<le> se_next_sequence e' \<and>
     (\<forall>s. se_last_received_sequence e = Some s \<longrightarrow> (\<exists>s'. se_last_received_sequence e' = Some s' \<and> s \<le> s')) \<and>
     (\<forall>u. se_user e = Some u \<longrightarrow> se_user e' = Some u)"

definition session_new :: "server_session_table \<Rightarrow> session_entry \<Rightarrow> bool" where
  "session_new t e \<longleftrightarrow> find_session (se_session_id e) (sv_sessions t) = None \<and> se_session_id e \<noteq> 0 \<and> se_user e = None \<and>
     se_next_sequence e = 0 \<and> se_last_received_sequence e = None"

definition same_sessions :: "server_session_table \<Rightarrow> server_session_table \<Rightarrow> bool" where
  "same_sessions t t' \<longleftrightarrow> sv_sessions t' = sv_sessions t \<and> sv_next_session_id t' = sv_next_session_id t"

definition touched :: "session_entry \<Rightarrow> wrapper_frame \<Rightarrow> u64 \<Rightarrow> server_session_table \<Rightarrow> server_session_table" where
  "touched s w now t = t\<lparr> sv_sessions := update_session (se_session_id s)
     (\<lambda>e. e\<lparr> se_last_received_sequence := Some (decode_sequence (ww_sequence w)), se_last_received_ms := now \<rparr>) (sv_sessions t) \<rparr>"

definition table_step :: "server_configuration \<Rightarrow> server_session_table \<Rightarrow> server_session_table \<Rightarrow> bool" where
  "table_step cfg t t' \<longleftrightarrow> table_inv cfg t' \<and>
     (\<forall>e' \<in> set (sv_sessions t'). (\<exists>e \<in> set (sv_sessions t). session_evolves e e') \<or> session_new t e')"

definition same_users :: "session_entry list \<Rightarrow> session_entry list \<Rightarrow> bool" where
  "same_users es es' \<longleftrightarrow> (\<forall>e' \<in> set es'. se_session_id e' \<in> se_session_id ` set es \<longrightarrow>
     (\<exists>e \<in> set es. se_session_id e = se_session_id e' \<and> se_user e = se_user e'))"

definition sample_configuration :: server_configuration where
  "sample_configuration = \<lparr> sg_device_authentication_code = replicate 16 6,
     sg_users = [\<lparr> tu_user_id = 2, tu_password_key = replicate 16 5, tu_tunnel_addresses = [] \<rparr>],
     sg_serial_number = [9, 9, 9, 9, 9, 9], sg_max_sessions = 16, sg_max_unauthenticated_per_peer = 2,
     sg_unauthenticated_lifetime_ms = 10000 \<rparr>"

definition sample_origin :: client_origin where
  "sample_origin = \<lparr> og_connection = 1, og_peer = \<lparr> tp_family = af_inet, tp_data = replicate 126 0, tp_length = 16 \<rparr> \<rparr>"

definition sample_key_pair :: x25519_key_pair where
  "sample_key_pair = \<lparr> kp_private_key = replicate 32 7, kp_public_key = replicate 32 21 \<rparr>"

definition sample_request :: session_request_frame where
  "sample_request = \<lparr> eq_control_endpoint = \<lparr> hpai_endpoint = \<lparr> v4_address = [0, 0, 0, 0], v4_port = 0 \<rparr>, hpai_protocol = 1 \<rparr>,
     eq_client_public_key = replicate 32 9 \<rparr>"

subsection \<open>Lemmas\<close>

lemma find_session_None: "find_session i es = None \<longleftrightarrow> i \<notin> se_session_id ` set es"
  by (auto simp: find_session_def find_None_iff)

lemma find_session_Some: "find_session i es = Some s \<Longrightarrow> s \<in> set es \<and> se_session_id s = i"
  by (auto simp: find_session_def find_Some_iff in_set_conv_nth)

lemma find_session_Cons [simp]:
  "find_session i [] = None" "find_session i (e # es) = (if se_session_id e = i then Some e else find_session i es)"
  by (simp_all add: find_session_def)

lemma update_ids [simp]:
  "(\<And>e. se_session_id (f e) = se_session_id e) \<Longrightarrow> map se_session_id (update_session i f es) = map se_session_id es"
  by (induction es) simp_all

lemma length_update_session [simp]: "length (update_session i f es) = length es"
  by (induction es) simp_all

lemma find_update:
  "find_session i es = Some s \<Longrightarrow> se_session_id (f s) = i \<Longrightarrow> find_session i (update_session i f es) = Some (f s)"
  by (induction es) (auto split: if_splits)

lemma evolves_refl [simp]: "session_evolves e e"
  by (auto simp: session_evolves_def)

lemma evolves_trans: "session_evolves e f \<Longrightarrow> session_evolves f g \<Longrightarrow> session_evolves e g"
  unfolding session_evolves_def by (simp, blast intro: order_trans)

lemma update_evolves:
  assumes "find_session i es = Some s" "session_evolves s (f s)"
  shows "list_all2 session_evolves es (update_session i f es)"
  using assms by (induction es) (auto intro: list.rel_refl split: if_splits)

lemma update_set: "find_session i es = Some s \<Longrightarrow> set (update_session i f es) \<subseteq> insert (f s) (set es)"
  by (induction es) (auto split: if_splits)

lemma unat_next_id: "unat (next_id i) = (if unat i = 65535 then 1 else unat i + 1)"
proof (cases "i = 0xFFFF")
  case False
  then have "unat i \<noteq> 65535" by (auto simp: word_unat_eq_iff)
  then have "unat i + unat (1 :: u16) < 2 ^ LENGTH(16)" using unat_u16_less [of i] by simp
  then have "unat (i + 1) = unat i + 1" using iffD1 [OF unat_add_lem, of i 1] by simp
  with False \<open>unat i \<noteq> 65535\<close> show ?thesis by (simp add: next_id_def)
qed (simp add: next_id_def)

lemma next_id_nonzero [simp]: "next_id i \<noteq> 0"
  using unat_next_id [of i] by (metis add_is_0 unat_0 zero_neq_one)

lemma free_id:
  assumes "length es < 65535"
  shows "\<exists>f. f \<noteq> 0 \<and> find_session f es = None"
proof (rule ccontr)
  assume "\<not> ?thesis"
  then have "(UNIV :: u16 set) \<subseteq> insert 0 (se_session_id ` set es)" by (auto simp: find_session_None)
  then have "CARD(u16) \<le> card (insert 0 (se_session_id ` set es))" by (intro card_mono) auto
  also have "\<dots> \<le> Suc (card (se_session_id ` set es))" by (simp add: card_insert_if)
  also have "\<dots> \<le> Suc (length es)" using card_image_le [of "set es" se_session_id] card_length [of es] by simp
  finally have "CARD(u16) \<le> Suc (length es)" .
  moreover have "CARD(u16) = 65536" using card_word [where 'a = 16] by simp
  ultimately show False using assms by simp
qed

lemma allocate_fresh:
  assumes "candidate \<noteq> 0" "f \<noteq> 0" "find_session f es = None"
  shows "\<exists>i. allocate_session_id es candidate = Some (i, next_id i) \<and> i \<noteq> 0 \<and> find_session i es = None"
  using assms(1)
proof (induction "if unat candidate \<le> unat f then unat f - unat candidate else unat f + 65535 - unat candidate"
    arbitrary: candidate rule: less_induct)
  case less
  show ?case
  proof (cases "find_session candidate es = None")
    case True
    with less.prems show ?thesis by (subst allocate_session_id.simps) simp
  next
    case False
    then have "unat candidate \<noteq> unat f" using assms(3) word_unat_eq_iff [of candidate f] by auto
    moreover have "1 \<le> unat f" "1 \<le> unat candidate" "unat f \<le> 65535" "unat candidate \<le> 65535"
      using assms(2) less.prems unat_u16_less [of f] unat_u16_less [of candidate] unat_eq_zero
      by (auto simp: Suc_le_eq unat_gt_0)
    ultimately have "(if unat (next_id candidate) \<le> unat f then unat f - unat (next_id candidate)
          else unat f + 65535 - unat (next_id candidate)) <
        (if unat candidate \<le> unat f then unat f - unat candidate else unat f + 65535 - unat candidate)"
      unfolding unat_next_id by (cases "unat candidate = 65535"; cases "unat candidate < unat f") auto
    note less.hyps [OF this next_id_nonzero]
    with False show ?thesis using allocate_session_id.simps [of es candidate] by auto
  qed
qed

lemma update_update:
  "(\<And>e. se_session_id (f e) = se_session_id e) \<Longrightarrow>
   update_session i g (update_session i f es) = update_session i (\<lambda>e. g (f e)) es"
  by (induction es) simp_all

lemma counts_same [simp]:
  "same_sessions t t" "same_sessions t (count_authentication_failure t)" "same_sessions t (count_refused_service t)"
  "same_sessions t (count_replay t)" "same_sessions t (server_note_unencrypted t)"
  by (simp_all add: same_sessions_def count_authentication_failure_def count_refused_service_def count_replay_def
    server_note_unencrypted_def)

lemma on_session_request_cases:
  assumes "on_session_request b cfg from rq now drawn t = Some (r, t')"
  obtains (refused) e where "r = Inl e" "sv_sessions t' = sv_sessions t"
      "sv_next_session_id t' = sv_next_session_id t \<or>
        (\<exists>i. allocate_session_id (sv_sessions t) (sv_next_session_id t) = Some (i, sv_next_session_id t'))"
    | (granted) i nx kp key mac where "drawn = Inr kp" "valid_serial_number (sg_serial_number cfg)"
      "admit_request cfg (og_peer from) t = Inr ()"
      "derive_session_key b (kp_private_key kp) (eq_client_public_key rq) = Inr key"
      "allocate_session_id (sv_sessions t) (sv_next_session_id t) = Some (i, nx)"
      "basic_session_response_mac \<lparr> ci_backend = b, ci_key = sg_device_authentication_code cfg \<rparr> i
         (eq_client_public_key rq) (kp_public_key kp) = Inr mac"
      "r = Inr \<lparr> ea_session_id = i, ea_server_public_key = kp_public_key kp, ea_mac = mac \<rparr>"
      "t' = t\<lparr> sv_next_session_id := nx, sv_sessions := sv_sessions t @
         [\<lparr> se_session_id = i, se_connection = og_connection from, se_peer = og_peer from,
            se_client_public_key = eq_client_public_key rq, se_server_public_key = kp_public_key kp,
            se_session_key = key, se_user = None, se_created_ms = now, se_last_received_ms = now,
            se_next_sequence = 0, se_last_received_sequence = None \<rparr>] \<rparr>"
proof -
  consider (early) "t' = t" "\<exists>e. r = Inl e"
    | (late) kp key i nx where "drawn = Inr kp" "valid_serial_number (sg_serial_number cfg)"
      "admit_request cfg (og_peer from) t = Inr ()"
      "derive_session_key b (kp_private_key kp) (eq_client_public_key rq) = Inr key"
      "allocate_session_id (sv_sessions t) (sv_next_session_id t) = Some (i, nx)"
    using assms unfolding on_session_request_def
    by (auto split: if_split_asm sum.split_asm option.split_asm prod.split_asm)
  then show thesis
  proof cases
    case early
    with refused show thesis by auto
  next
    case late
    show thesis
    proof (cases "basic_session_response_mac \<lparr> ci_backend = b, ci_key = sg_device_authentication_code cfg \<rparr> i
         (eq_client_public_key rq) (kp_public_key kp)")
      case (Inl e)
      with assms late have "r = Inl e" "t' = t\<lparr> sv_next_session_id := nx \<rparr>" by (simp_all add: on_session_request_def)
      with late refused show thesis by auto
    next
      case (Inr mac)
      from assms late Inr show thesis by (intro granted [OF late Inr]) (simp_all add: on_session_request_def)
    qed
  qed
qed

lemma apply_status_cases:
  assumes "apply_status s st t = (r, t')"
  obtains (keep) "r = Inr \<lparr> so_session_id = se_session_id s, so_size = 0, so_kind = Kind_keep_alive \<rparr>" "t' = t"
    | (refused) "r = Inl Unsupported_service" "t' = count_refused_service t"
    | (closed) "r = Inr \<lparr> so_session_id = se_session_id s, so_size = 0, so_kind = Kind_closed \<rparr>"
      "sv_sessions t' = filter (\<lambda>e. se_session_id e \<noteq> se_session_id s) (sv_sessions t)"
      "sv_next_session_id t' = sv_next_session_id t"
  using assms by (auto simp: apply_status_def erase_session_def Let_def split: if_split_asm)

lemma server_authenticate_cases:
  assumes "server_authenticate b cfg s a t = (f, t')"
  obtains (refused) "f = \<lparr> so_session_id = se_session_id s, so_size = 0, so_kind = Kind_refused_authentication \<rparr>"
      "t' = count_authentication_failure t"
    | (authenticated) u k where "f = \<lparr> so_session_id = se_session_id s, so_size = 0, so_kind = Kind_authenticated \<rparr>"
      "find_user cfg (eu_user_id a) = Some u"
      "verify_session_authenticate \<lparr> ci_backend = b, ci_key = tu_password_key u \<rparr> a (se_client_public_key s)
         (se_server_public_key s) = Inr ()"
      "t' = t\<lparr> sv_sessions := update_session (se_session_id s) (\<lambda>e. e\<lparr> se_user := Some u \<rparr>) (sv_sessions t), sv_counters := k \<rparr>"
  using assms by (auto simp: server_authenticate_def Let_def split: if_split_asm)

lemma server_apply_cases:
  assumes "server_apply b cfg s p t = (r, t')"
  obtains (status) st where "decode_session_status_packet p = Inr st" "apply_status s (es_status st) t = (r, t')"
    | (tunnel) u where "se_user s = Some u" "t' = t"
      "r = Inr \<lparr> so_session_id = se_session_id s, so_size = length p, so_kind = Kind_tunnel \<rparr>"
    | (refused) "r = Inl Unsupported_service" "t' = count_refused_service t"
    | (authenticate) a f where "se_user s = None" "decode_session_authenticate_packet p = Inr a"
      "server_authenticate b cfg s a t = (f, t')" "r = Inr f"
  using assms by (auto simp: server_apply_def Let_def split: sum.split_asm if_split_asm prod.split_asm)

lemma server_admit_cases:
  assumes "server_admit s w p t = (r, p', t')"
  obtains (refused) e where "r = Inl e" "same_sessions t t'" "p' = cleanse p"
    | (admitted) "r = Inr ()" "p' = p" "\<forall>x. se_last_received_sequence s = Some x \<longrightarrow> x < decode_sequence (ww_sequence w)"
      "\<exists>h. check_wrapped_frame p = Inr h"
      "t' = t\<lparr> sv_sessions := update_session (se_session_id s)
         (\<lambda>e. e\<lparr> se_last_received_sequence := Some (decode_sequence (ww_sequence w)) \<rparr>) (sv_sessions t) \<rparr>"
proof (cases "case se_last_received_sequence s of None \<Rightarrow> False | Some x \<Rightarrow> decode_sequence (ww_sequence w) \<le> x")
  case True
  with assms refused show ?thesis by (auto simp: server_admit_def Let_def)
next
  case False
  then have fresh: "\<forall>x. se_last_received_sequence s = Some x \<longrightarrow> x < decode_sequence (ww_sequence w)"
    by (auto split: option.splits)
  show ?thesis
  proof (cases "check_wrapped_frame p")
    case (Inl e)
    with assms False have "r = Inl e" "same_sessions t t'" "p' = cleanse p" by (auto simp: server_admit_def Let_def)
    with refused show ?thesis by blast
  next
    case (Inr h)
    from assms False Inr show ?thesis by (intro admitted) (simp_all add: server_admit_def Let_def fresh)
  qed
qed

lemma server_open_cases:
  assumes "server_open b cfg from w d now t = (r, d', t')"
  obtains (refused) e where "r = Inl e" "same_sessions t t'"
      "d' = d \<or> take (length (ww_encrypted_frame w)) d' = replicate (length (ww_encrypted_frame w)) 0"
    | (admitted) s n where "find_session (ww_session_id w) (sv_sessions t) = Some s"
      "se_connection s = og_connection from" "same_peer (se_peer s) (og_peer from)"
      "open_wrapper b d (se_session_key s) w = (Inr n, d')"
      "\<forall>x. se_last_received_sequence s = Some x \<longrightarrow> x < decode_sequence (ww_sequence w)"
      "\<exists>h. check_wrapped_frame (take n d') = Inr h"
      "server_apply b cfg s (take n d') (touched s w now t) = (r, t')"
proof -
  consider (elsewhere) "r = Inl Secure_authentication_failed" "d' = d" "t' = count_authentication_failure t"
    | (found) s where "find_session (ww_session_id w) (sv_sessions t) = Some s" "se_connection s = og_connection from"
      "same_peer (se_peer s) (og_peer from)"
    using assms unfolding server_open_def by (auto split: option.split_asm if_split_asm)
  then show thesis
  proof cases
    case elsewhere
    then show thesis using refused by simp
  next
    case (found s)
    obtain r1 d1 where o: "open_wrapper b d (se_session_key s) w = (r1, d1)" by fastforce
    show thesis
    proof (cases r1)
      case (Inl e)
      then have "r = Inl e" "d' = d1" "same_sessions t t'"
        using assms found o by (auto simp: server_open_def)
      moreover have "d1 = d \<or> take (length (ww_encrypted_frame w)) d1 = replicate (length (ww_encrypted_frame w)) 0"
        using open_wrapper_refuses o Inl unfolding open_wrapper_def by blast
      ultimately show thesis using refused by blast
    next
      case (Inr n)
      obtain r2 p2 t2 where m: "server_admit s w (take n d1) t = (r2, p2, t2)" by (metis prod_cases3)
      from m show thesis
      proof (cases rule: server_admit_cases)
        case (refused e)
        then have "r = Inl e" "d' = write_at d1 0 (cleanse (take n d1))" "t' = t2"
          using assms found o Inr m by (simp_all add: server_open_def)
        then show thesis using that(1) refused(2) open_wrapper_size [of b d "se_session_key s" w n d1] o Inr cleansed_buffer
          by simp
      next
        case admitted
        have "server_apply b cfg s (take n d1) (touched s w now t) = (r, t')" "d' = d1"
          using assms found o Inr m admitted
          by (simp_all add: server_open_def touched_def update_update Let_def split: prod.splits)
        with found o Inr admitted(3,4) that(2) show thesis by blast
      qed
    qed
  qed
qed

lemma seal_locked_cases:
  assumes "seal_locked b cfg q t = (r, d', t')"
  obtains (refused) e where "r = Inl e" "t' = t"
    | (sealed) s n where "r = Inr n" "find_session (sr_session_id q) (sv_sessions t) = Some s"
      "se_connection s = sr_connection q" "se_next_sequence s \<le> max_sequence" "sr_authenticated_only q \<longrightarrow> se_user s \<noteq> None"
      "seal_wrapper b (sr_destination q) (se_session_key s)
         \<lparr> wf_session_id = sr_session_id q, wf_sequence = encode_sequence (se_next_sequence s),
           wf_serial_number = sg_serial_number cfg, wf_message_tag = tunnelling_message_tag \<rparr> (sr_plain_frame q) = (Inr n, d')"
      "t' = t\<lparr> sv_sessions := update_session (sr_session_id q) (\<lambda>e. e\<lparr> se_next_sequence := se_next_sequence e + 1 \<rparr>) (sv_sessions t) \<rparr>"
  using assms unfolding seal_locked_def
  by (auto simp: not_less split: option.split_asm if_split_asm prod.split_asm sum.split_asm)

lemma table_inv_update:
  assumes "table_inv cfg t" "find_session i (sv_sessions t) = Some s" "entry_inv cfg (f s)"
    "\<And>e. se_session_id (f e) = se_session_id e"
  shows "table_inv cfg (t\<lparr> sv_sessions := update_session i f (sv_sessions t), sv_counters := k \<rparr>)"
  using assms update_set [OF assms(2), of f] by (auto simp: table_inv_def)

lemma table_inv_filter:
  assumes "table_inv cfg t"
  shows "table_inv cfg (t\<lparr> sv_sessions := filter P (sv_sessions t) \<rparr>)"
proof -
  have "length (filter P (sv_sessions t)) \<le> session_limit cfg"
    using assms length_filter_le [of P "sv_sessions t"] unfolding table_inv_def by linarith
  then show ?thesis using assms by (simp add: table_inv_def distinct_map_filter)
qed

lemma table_inv_same: "same_sessions t t' \<Longrightarrow> table_inv cfg t' = table_inv cfg t"
  by (simp add: same_sessions_def table_inv_def)

lemma table_stepI:
  assumes "table_inv cfg t'"
    "\<And>e'. e' \<in> set (sv_sessions t') \<Longrightarrow>
      e' \<in> set (sv_sessions t) \<or> (\<exists>e \<in> set (sv_sessions t). session_evolves e e') \<or> session_new t e'"
  shows "table_step cfg t t'"
  using assms evolves_refl unfolding table_step_def by blast

lemma table_step_same: "table_inv cfg t \<Longrightarrow> same_sessions t t' \<Longrightarrow> table_step cfg t t'"
  by (rule table_stepI) (simp_all add: table_inv_same, simp add: same_sessions_def)

lemma table_step_update:
  assumes "table_inv cfg t" "find_session i (sv_sessions t) = Some s" "entry_inv cfg (f s)"
    "\<And>e. se_session_id (f e) = se_session_id e" "session_evolves s (f s)"
    "sv_sessions t' = update_session i f (sv_sessions t)" "sv_next_session_id t' = sv_next_session_id t"
  shows "table_step cfg t t'"
proof -
  have "table_inv cfg t'"
    using table_inv_update [OF assms(1-4)] assms(6,7) by (simp add: table_inv_def)
  moreover have "\<exists>e \<in> set (sv_sessions t). session_evolves e e'" if "e' \<in> set (sv_sessions t')" for e'
  proof -
    have "e' = f s \<or> e' \<in> set (sv_sessions t)" using that update_set [OF assms(2), of f] assms(6) by auto
    then show ?thesis using assms(5) find_session_Some [OF assms(2)] evolves_refl by blast
  qed
  ultimately show ?thesis by (simp add: table_step_def)
qed

lemma table_step_filter:
  assumes "table_inv cfg t" "sv_sessions t' = filter P (sv_sessions t)" "sv_next_session_id t' = sv_next_session_id t"
  shows "table_step cfg t t'"
proof -
  have "table_inv cfg t'"
    using table_inv_filter [OF assms(1), of P] assms(2,3) by (simp add: table_inv_def)
  then show ?thesis using assms(2) by (auto intro: table_stepI)
qed

lemma new_session_id:
  assumes "table_inv cfg t"
  shows "\<exists>i. allocate_session_id (sv_sessions t) (sv_next_session_id t) = Some (i, next_id i) \<and> i \<noteq> 0 \<and>
    find_session i (sv_sessions t) = None"
proof -
  have "session_limit cfg \<le> 255" by (simp add: session_limit_def max_server_sessions_def)
  then have "length (sv_sessions t) < 65535" using assms by (simp add: table_inv_def)
  then obtain f where "f \<noteq> 0" "find_session f (sv_sessions t) = None" using free_id by blast
  with assms allocate_fresh show ?thesis by (simp add: table_inv_def)
qed

lemma request_step:
  assumes "table_inv cfg t" "on_session_request b cfg from rq now drawn t = Some (r, t')"
  shows "table_step cfg t t'"
proof -
  obtain i where i: "allocate_session_id (sv_sessions t) (sv_next_session_id t) = Some (i, next_id i)" "i \<noteq> 0"
      "find_session i (sv_sessions t) = None"
    using new_session_id [OF assms(1)] by blast
  from assms(2) show ?thesis
  proof (cases rule: on_session_request_cases)
    case (refused e)
    then have "table_inv cfg t'" using assms(1) i next_id_nonzero by (auto simp: table_inv_def)
    then show ?thesis using refused(2) by (auto intro: table_stepI)
  next
    case (granted j nx kp key mac)
    then have j: "j = i" "nx = next_id i" using i by auto
    have room: "length (sv_sessions t) < session_limit cfg"
      using granted(3) by (simp add: admit_request_def split: if_split_asm)
    have "table_inv cfg t'"
      using assms(1) i room granted(8) j
      by (auto simp: table_inv_def entry_inv_def find_session_None)
    moreover have "session_new t e'" if "e' \<in> set (sv_sessions t')" "e' \<notin> set (sv_sessions t)" for e'
      using that granted(8) i j by (auto simp: session_new_def)
    ultimately show ?thesis by (blast intro: table_stepI)
  qed
qed

lemma table_step_trans:
  assumes "table_step cfg t t1" "table_step cfg t1 t2" "map se_session_id (sv_sessions t1) = map se_session_id (sv_sessions t)"
  shows "table_step cfg t t2"
proof -
  have ids: "se_session_id ` set (sv_sessions t1) = se_session_id ` set (sv_sessions t)"
    using arg_cong [OF assms(3), of set] by simp
  have first: "\<exists>e \<in> set (sv_sessions t). session_evolves e e1" if "e1 \<in> set (sv_sessions t1)" for e1
  proof -
    have "\<not> session_new t e1" using that ids by (auto simp: session_new_def find_session_None)
    then show ?thesis using assms(1) that unfolding table_step_def by blast
  qed
  have new: "session_new t1 e = session_new t e" for e
    by (simp add: session_new_def find_session_None ids)
  show ?thesis
  proof (rule table_stepI)
    show "table_inv cfg t2" using assms(2) by (simp add: table_step_def)
    fix e2 assume "e2 \<in> set (sv_sessions t2)"
    then consider e1 where "e1 \<in> set (sv_sessions t1)" "session_evolves e1 e2" | "session_new t e2"
      using assms(2) new unfolding table_step_def by blast
    then show "e2 \<in> set (sv_sessions t) \<or> (\<exists>e \<in> set (sv_sessions t). session_evolves e e2) \<or> session_new t e2"
      using first evolves_trans by cases blast+
  qed
qed

lemma find_user_id: "find_user cfg i = Some u \<Longrightarrow> find_user cfg (tu_user_id u) = Some u"
proof -
  assume f: "find_user cfg i = Some u"
  then have "tu_user_id u = i" by (auto simp: find_user_def find_Some_iff)
  with f show ?thesis by simp
qed

lemma touched_step:
  assumes "table_inv cfg t" "find_session (ww_session_id w) (sv_sessions t) = Some s"
    "\<forall>x. se_last_received_sequence s = Some x \<longrightarrow> x < decode_sequence (ww_sequence w)"
  shows "table_step cfg t (touched s w now t)"
proof -
  have s: "s \<in> set (sv_sessions t)" "se_session_id s = ww_session_id w" using find_session_Some [OF assms(2)] by auto
  have "entry_inv cfg s" using assms(1) s(1) by (simp add: table_inv_def)
  then show ?thesis using s(2) assms(3)
    by (intro table_step_update [OF assms(1,2)])
      (auto simp: touched_def entry_inv_def session_evolves_def intro: less_imp_le)
qed

lemma find_touched:
  assumes "find_session (ww_session_id w) (sv_sessions t) = Some s"
  shows "find_session (se_session_id s) (sv_sessions (touched s w now t)) =
    Some (s\<lparr> se_last_received_sequence := Some (decode_sequence (ww_sequence w)), se_last_received_ms := now \<rparr>)"
  using assms find_session_Some [OF assms] by (simp add: touched_def find_update)

lemma apply_step:
  assumes inv: "table_inv cfg t" and found: "find_session (se_session_id s) (sv_sessions t) = Some s'"
    and user: "se_user s' = se_user s" and app: "server_apply b cfg s p t = (r, t')"
  shows "table_step cfg t t'"
  using app
proof (cases rule: server_apply_cases)
  case (status st)
  from status(2) show ?thesis
    by (cases rule: apply_status_cases) (simp_all add: inv table_step_same table_step_filter [OF inv])
next
  case (authenticate a f)
  from authenticate(3) show ?thesis
  proof (cases rule: server_authenticate_cases)
    case (authenticated u k)
    have "entry_inv cfg s'" using inv find_session_Some [OF found] by (simp add: table_inv_def)
    moreover have "find_user cfg (tu_user_id u) = Some u" using find_user_id [OF authenticated(2)] .
    ultimately show ?thesis using authenticated(4) user authenticate(1)
      by (intro table_step_update [OF inv found]) (auto simp: entry_inv_def session_evolves_def)
  qed (simp add: inv table_step_same)
qed (simp_all add: inv table_step_same)

lemma open_step:
  assumes inv: "table_inv cfg t" and o: "server_open b cfg from w d now t = (r, d', t')"
  shows "table_step cfg t t'"
  using o
proof (cases rule: server_open_cases)
  case (refused e)
  then show ?thesis using inv table_step_same by blast
next
  case (admitted s n)
  have one: "table_step cfg t (touched s w now t)" using touched_step [OF inv admitted(1,5)] .
  then have "table_inv cfg (touched s w now t)" by (simp add: table_step_def)
  from apply_step [OF this find_touched [OF admitted(1)] _ admitted(7)]
  have "table_step cfg (touched s w now t) t'" by simp
  then show ?thesis by (rule table_step_trans [OF one]) (simp add: touched_def)
qed

lemma seal_locked_step:
  assumes inv: "table_inv cfg t" and s: "seal_locked b cfg q t = (r, d', t')"
  shows "table_step cfg t t'"
  using s
proof (cases rule: seal_locked_cases)
  case (sealed s n)
  have "entry_inv cfg s" using inv find_session_Some [OF sealed(2)] by (simp add: table_inv_def)
  then show ?thesis using sealed(7) next_sequence_step [OF sealed(4)]
    by (intro table_step_update [OF inv sealed(2)]) (auto simp: entry_inv_def session_evolves_def intro: less_imp_le)
qed (simp add: inv table_step_same)

lemma server_step_table: "server_step b cfg t t' \<Longrightarrow> table_inv cfg t \<Longrightarrow> table_step cfg t t'"
proof (induction rule: server_step.induct)
  case (seal_status con i st d t r d' t')
  then show ?case
    by (auto simp: server_seal_status_def table_step_same intro: seal_locked_step split: sum.splits prod.splits)
qed (auto simp: server_seal_def erase_session_def close_connection_def reap_def Let_def
  intro: request_step open_step seal_locked_step table_step_filter table_step_same)

lemma new_table_inv: "table_inv cfg new_session_table"
  by (simp add: table_inv_def new_session_table_def)

interpretation secure_server: state_machine "\<lambda>t. t = new_session_table" "server_step b cfg" "table_inv cfg"
  by unfold_locales (auto simp: new_table_inv dest: server_step_table simp: table_step_def)

lemma find_update_other:
  "i \<noteq> j \<Longrightarrow> (\<And>e. se_session_id (f e) = se_session_id e) \<Longrightarrow> find_session i (update_session j f es) = find_session i es"
  by (induction es) auto

lemma find_session_distinct:
  "distinct (map se_session_id es) \<Longrightarrow> find_session i es = Some e \<longleftrightarrow> e \<in> set es \<and> se_session_id e = i"
  by (induction es) (auto simp: image_iff)

lemma same_users_filter [simp]: "same_users es es" "same_users es (filter P es)"
  by (auto simp: same_users_def)

lemma same_users_update:
  assumes "find_session i es = Some s" "se_session_id (f s) = se_session_id s" "se_user (f s) = se_user s"
  shows "same_users es (update_session i f es)"
  using update_set [OF assms(1), of f] find_session_Some [OF assms(1)] assms(2,3) unfolding same_users_def by fastforce

lemma same_users_find:
  assumes "same_users es es'" "distinct (map se_session_id es)" "find_session i es = Some e" "find_session i es' = Some e'"
  shows "se_user e' = se_user e"
proof -
  have e: "e \<in> set es" "se_session_id e = i" "e' \<in> set es'" "se_session_id e' = i"
    using find_session_Some assms(3,4) by blast+
  then obtain x where "x \<in> set es" "se_session_id x = i" "se_user x = se_user e'"
    using assms(1) unfolding same_users_def by force
  moreover have "x = e" using calculation(1,2) assms(3) find_session_distinct [OF assms(2), of i x] by simp
  ultimately show ?thesis by simp
qed

lemma seal_locked_users: "seal_locked b cfg q t = (r, d', t') \<Longrightarrow> same_users (sv_sessions t) (sv_sessions t')"
  by (erule seal_locked_cases) (auto intro: same_users_update)

lemma request_users:
  assumes "table_inv cfg t" "on_session_request b cfg from rq now drawn t = Some (r, t')"
  shows "same_users (sv_sessions t) (sv_sessions t')"
proof -
  obtain i where i: "allocate_session_id (sv_sessions t) (sv_next_session_id t) = Some (i, next_id i)" "i \<noteq> 0"
      "find_session i (sv_sessions t) = None"
    using new_session_id [OF assms(1)] by blast
  from assms(2) i show ?thesis
    by (cases rule: on_session_request_cases) (auto simp: same_users_def find_session_None)
qed

lemma authenticated_by_open:
  assumes inv: "table_inv cfg t" and o: "server_open b cfg from w d now t = (r, d', t')"
    and e: "find_session i (sv_sessions t) = Some e" "find_session i (sv_sessions t') = Some e'"
    and u: "se_user e = None" "se_user e' = Some u"
  obtains n a where "ww_session_id w = i" "open_wrapper b d (se_session_key e) w = (Inr n, d')"
    "decode_session_authenticate_packet (take n d') = Inr a" "find_user cfg (eu_user_id a) = Some u"
    "verify_session_authenticate \<lparr> ci_backend = b, ci_key = tu_password_key u \<rparr> a (se_client_public_key e)
       (se_server_public_key e) = Inr ()"
    "r = Inr \<lparr> so_session_id = i, so_size = 0, so_kind = Kind_authenticated \<rparr>"
proof -
  have dist: "distinct (map se_session_id (sv_sessions t))" using inv by (simp add: table_inv_def)
  have differ: "\<not> same_users (sv_sessions t) (sv_sessions t')" using same_users_find [OF _ dist e] u by auto
  from o show thesis
  proof (cases rule: server_open_cases)
    case (refused err)
    with differ show thesis by (simp add: same_sessions_def)
  next
    case (admitted s n)
    let ?es = "sv_sessions (touched s w now t)"
    have s: "se_session_id s = ww_session_id w" using find_session_Some [OF admitted(1)] by simp
    have quiet: "same_users (sv_sessions t) ?es"
      using same_users_update admitted(1) s by (auto simp: touched_def)
    have "\<not> same_users (sv_sessions t) (filter P ?es)" if "sv_sessions t' = filter P ?es" for P using that differ by simp
    moreover have "same_users (sv_sessions t) (filter P ?es)" for P
      using quiet unfolding same_users_def by simp
    ultimately have nf: "sv_sessions t' \<noteq> filter P ?es" for P by blast
    from admitted(7) show thesis
    proof (cases rule: server_apply_cases)
      case (status st)
      from status(2) show thesis using quiet differ nf
        by (cases rule: apply_status_cases) (auto simp: count_refused_service_def)
    next
      case (authenticate a f)
      from authenticate(3) show thesis
      proof (cases rule: server_authenticate_cases)
        case (authenticated v k)
        have both: "sv_sessions t' = update_session (se_session_id s) (\<lambda>e. e\<lparr> se_last_received_sequence :=
            Some (decode_sequence (ww_sequence w)), se_last_received_ms := now, se_user := Some v \<rparr>) (sv_sessions t)"
          using authenticated(4) by (simp add: touched_def update_update)
        have i: "ww_session_id w = i"
        proof (rule ccontr)
          assume "ww_session_id w \<noteq> i"
          then have "find_session i (sv_sessions t') = find_session i (sv_sessions t)"
            unfolding both s by (simp add: find_update_other)
          with e u show False by simp
        qed
        then have "s = e" using admitted(1) e(1) by simp
        have "find_session i (sv_sessions t') = Some (e\<lparr> se_last_received_sequence :=
            Some (decode_sequence (ww_sequence w)), se_last_received_ms := now, se_user := Some v \<rparr>)"
          unfolding both using find_update [of i "sv_sessions t" e] e(1) s i \<open>s = e\<close> by simp
        then have "v = u" using e(2) u(2) by auto
        with that [of n a] i \<open>s = e\<close> admitted(4) authenticate(2,4) authenticated(1-3) s show thesis by simp
      qed (use quiet differ in \<open>simp add: count_authentication_failure_def\<close>)
    qed (use quiet differ in \<open>simp_all add: count_refused_service_def\<close>)
  qed
qed

lemma user_step:
  assumes "server_step b cfg t t'" "table_inv cfg t"
    and e: "find_session i (sv_sessions t) = Some e" "find_session i (sv_sessions t') = Some e'"
    and u: "se_user e = None" "se_user e' = Some u"
  shows "\<exists>from w d now d'. server_open b cfg from w d now t =
    (Inr \<lparr> so_session_id = i, so_size = 0, so_kind = Kind_authenticated \<rparr>, d', t')"
proof -
  have dist: "distinct (map se_session_id (sv_sessions t))" using assms(2) by (simp add: table_inv_def)
  have differ: "\<not> same_users (sv_sessions t) (sv_sessions t')" using same_users_find [OF _ dist e] u by auto
  from assms(1) show ?thesis
  proof cases
    case (request org rq now drawn r)
    with differ request_users [OF assms(2)] show ?thesis by blast
  next
    case (opened org w d now r d')
    from authenticated_by_open [OF assms(2) opened e u] opened show ?thesis by blast
  next
    case (seal c j p d r x)
    with differ seal_locked_users show ?thesis unfolding server_seal_def by blast
  next
    case (seal_status con j st d r d')
    with differ seal_locked_users show ?thesis unfolding server_seal_status_def
      by (auto split: sum.splits prod.splits)
  next
    case (reap now n)
    with differ show ?thesis by (auto simp: reap_def Let_def)
  next
    case (close_connection c n)
    with differ show ?thesis by (auto simp: close_connection_def Let_def)
  qed (use differ in \<open>simp_all add: erase_session_def server_note_unencrypted_def\<close>)
qed

lemma request_defined:
  assumes "allocate_session_id (sv_sessions t) (sv_next_session_id t) = Some x"
  shows "\<exists>r t'. on_session_request b cfg from rq now drawn t = Some (r, t')"
  using assms unfolding on_session_request_def
  by (auto simp: Let_def split: sum.split prod.split)

lemma find_session_append:
  "find_session i (es @ fs) = (case find_session i es of None \<Rightarrow> find_session i fs | Some e \<Rightarrow> Some e)"
  by (induction es) auto



lemma sample_session:
  "\<exists>r t. on_session_request sample_backend sample_configuration sample_origin sample_request 5 (Inr sample_key_pair)
     new_session_table = Some (r, t) \<and> length (sv_sessions t) = 1"
proof -
  have "allocate_session_id [] 1 = Some (1, 2)" by (subst allocate_session_id.simps) (simp add: next_id_def)
  then show ?thesis
    by (simp add: on_session_request_def new_session_table_def sample_configuration_def sample_key_pair_def
      sample_request_def sample_origin_def valid_serial_number_def admit_request_def session_limit_def
      max_server_sessions_def derive_session_key_def sample_backend_def basic_session_response_mac_def
      handshake_mac_def header_octets_def public_keys_xor_def cbc_mac_def ctr_def Let_def secure_sizes
      aes_block_size_def max_mac_input_size_def)
qed

subsection \<open>Properties\<close>

text \<open>
  C10: whatever arrives at a server and in whatever order, the sessions of its table have distinct,
  non-zero ids, there are never more of them than the configuration and the fixed limit of 255 allow,
  an authenticated session belongs to a configured user, and its sequence numbers stay within 48 bits.
\<close>

theorem server_table_invariant:
  assumes "reachable_from (\<lambda>t. t = new_session_table) (server_step b cfg) t"
  shows "distinct (map se_session_id (sv_sessions t)) \<and> length (sv_sessions t) \<le> unat (sg_max_sessions cfg) \<and>
    length (sv_sessions t) \<le> 255 \<and>
    (\<forall>e \<in> set (sv_sessions t). se_session_id e \<noteq> 0 \<and> se_next_sequence e \<le> max_sequence + 1 \<and>
       (\<forall>u. se_user e = Some u \<longrightarrow> u \<in> set (sg_users cfg)))"
proof -
  have inv: "table_inv cfg t" using secure_server.reachable_inv [OF assms] .
  then have "length (sv_sessions t) \<le> session_limit cfg" by (simp add: table_inv_def)
  moreover have "u \<in> set (sg_users cfg)" if "find_user cfg i = Some u" for u i
    using that by (auto simp: find_user_def find_Some_iff)
  ultimately show ?thesis using inv
    by (auto simp: table_inv_def entry_inv_def session_limit_def max_server_sessions_def)
qed

theorem server_table_invariant_witness:
  "\<exists>r t. on_session_request sample_backend sample_configuration sample_origin sample_request 5 (Inr sample_key_pair)
       new_session_table = Some (r, t) \<and> length (sv_sessions t) = 1 \<and> distinct (map se_session_id (sv_sessions t)) \<and>
     length (sv_sessions t) \<le> 255"
proof -
  obtain r t where q: "on_session_request sample_backend sample_configuration sample_origin sample_request 5
      (Inr sample_key_pair) new_session_table = Some (r, t)" "length (sv_sessions t) = 1"
    using sample_session by blast
  have "reachable_from (\<lambda>t. t = new_session_table) (server_step sample_backend sample_configuration) t"
    by (rule reachable_from.step, rule reachable_from.start, rule refl, rule server_step.request, rule q(1))
  from server_table_invariant [OF this] q show ?thesis by blast
qed

text \<open>
  C9: the search for a session id ends, so every SESSION_REQUEST is answered.  Whatever the table's
  history, the handler returns; when it opens a session, the id it hands out is not zero and no session
  that is still open has it, and afterwards it names the new, unauthenticated session.
\<close>

theorem session_request_returns:
  assumes "reachable_from (\<lambda>t. t = new_session_table) (server_step b cfg) t"
  shows "\<exists>r t'. on_session_request b cfg from rq now drawn t = Some (r, t') \<and>
    (\<forall>f. r = Inr f \<longrightarrow> ea_session_id f \<noteq> 0 \<and> \<not> session_alive (ea_session_id f) t \<and>
       session_alive (ea_session_id f) t' \<and> \<not> session_authenticated (ea_session_id f) t')"
proof -
  have inv: "table_inv cfg t" using secure_server.reachable_inv [OF assms] .
  then obtain i where i: "allocate_session_id (sv_sessions t) (sv_next_session_id t) = Some (i, next_id i)" "i \<noteq> 0"
      "find_session i (sv_sessions t) = None"
    using new_session_id by blast
  obtain r t' where o: "on_session_request b cfg from rq now drawn t = Some (r, t')"
    using request_defined [OF i(1)] by blast
  from o have "\<forall>f. r = Inr f \<longrightarrow> ea_session_id f \<noteq> 0 \<and> \<not> session_alive (ea_session_id f) t \<and>
       session_alive (ea_session_id f) t' \<and> \<not> session_authenticated (ea_session_id f) t'"
  proof (cases rule: on_session_request_cases)
    case (granted j nx kp key mac)
    then have "j = i" using i(1) by simp
    with granted i show ?thesis by (simp add: session_alive_def session_authenticated_def find_session_append)
  qed simp
  with o show ?thesis by blast
qed

theorem session_request_returns_witness:
  "\<exists>r t'. on_session_request sample_backend sample_configuration sample_origin sample_request 5 (Inr sample_key_pair)
     new_session_table = Some (r, t')"
  using session_request_returns [OF reachable_from.start [of "\<lambda>t. t = new_session_table"]] by blast



text \<open>
  C11: sessions of a server are isolated and only move forward.  After any step, each session in the
  table is either new, with a fresh id and nothing sent, received or authenticated; or it is a session
  that was there before, with the same keys, connection and peer, whose sequence numbers have not gone
  back and whose user, once authenticated, is the same.
\<close>

theorem sessions_move_forward:
  assumes "reachable_from (\<lambda>t. t = new_session_table) (server_step b cfg) t" "server_step b cfg t t'"
    and "e' \<in> set (sv_sessions t')"
  shows "(\<exists>e \<in> set (sv_sessions t). session_evolves e e') \<or> session_new t e'"
  using server_step_table [OF assms(2) secure_server.reachable_inv [OF assms(1)]] assms(3)
  unfolding table_step_def by blast

theorem sessions_move_forward_witness:
  "\<exists>r t. on_session_request sample_backend sample_configuration sample_origin sample_request 5 (Inr sample_key_pair)
       new_session_table = Some (r, t) \<and> sv_sessions t \<noteq> [] \<and> session_new new_session_table (hd (sv_sessions t))"
proof -
  obtain r t where q: "on_session_request sample_backend sample_configuration sample_origin sample_request 5
      (Inr sample_key_pair) new_session_table = Some (r, t)" "length (sv_sessions t) = 1"
    using sample_session by blast
  then have ne: "hd (sv_sessions t) \<in> set (sv_sessions t)" by (cases "sv_sessions t") simp_all
  have "reachable_from (\<lambda>t. t = new_session_table) (server_step sample_backend sample_configuration) new_session_table"
    by (rule reachable_from.start) simp
  from sessions_move_forward [OF this server_step.request [OF q(1)] ne] q ne show ?thesis
    by (auto simp: new_session_table_def)
qed

end
