(* ===== verification/Knx_Secure_Handshake.thy ===== *)
theory Knx_Secure_Handshake
  imports Knx_Secure_Server
begin

section \<open>The secure handshake end to end\<close>

text \<open>
  The client session and the server's table together: every packet of the handshake is encoded by one
  side and decoded by the other, as the transport carries it.  The primitives are assumed to work:
  they succeed, the cipher in counter mode is its own inverse and a code is one block; and the two
  halves of the key agreement give the same key.
\<close>

definition primitives_work :: "crypto_backend \<Rightarrow> bool" where
  "primitives_work b \<longleftrightarrow> ctr_symmetric b \<and> mac_is_block b \<and> (\<forall>k x. cb_cbc_mac b k x \<noteq> None) \<and>
     (\<forall>k c f s. fst (cb_ctr b k c f s))"

definition keys_agree :: "crypto_backend \<Rightarrow> x25519_key_pair \<Rightarrow> x25519_key_pair \<Rightarrow> bytes \<Rightarrow> bool" where
  "keys_agree b p q key \<longleftrightarrow> derive_session_key b (kp_private_key p) (kp_public_key q) = Inr key \<and>
     derive_session_key b (kp_private_key q) (kp_public_key p) = Inr key \<and> \<not> secret_empty key \<and>
     length (kp_public_key p) = 32 \<and> length (kp_public_key q) = 32"

definition may_log_in :: "server_configuration \<Rightarrow> tunnelling_credentials \<Rightarrow> bool" where
  "may_log_in cfg credentials \<longleftrightarrow> validate_credentials credentials = Inr () \<and>
     length (cd_serial_number credentials) = 6 \<and> valid_serial_number (sg_serial_number cfg) \<and>
     length (sg_serial_number cfg) = 6 \<and>
     (cd_skip_device_authentication credentials \<or>
        cd_device_authentication_code credentials = sg_device_authentication_code cfg) \<and>
     (\<exists>u. find_user cfg (cd_user_id credentials) = Some u \<and> tu_password_key u = cd_user_password_key credentials)"

text \<open>The client's request, the server's response and the client's authentication, as far as the server's table.\<close>

definition request_session ::
    "crypto_backend \<Rightarrow> server_configuration \<Rightarrow> tunnelling_credentials \<Rightarrow> client_origin \<Rightarrow> hpai \<Rightarrow> x25519_key_pair \<Rightarrow>
     x25519_key_pair \<Rightarrow> u64 \<Rightarrow> bytes \<Rightarrow> server_session_table \<Rightarrow> (wrapper_frame \<times> client_session \<times> server_session_table) option" where
  "request_session b cfg credentials from endpoint kp_c kp_s now buf t =
     (case client_begin buf endpoint now (Inr kp_c) (new_client_session credentials) of
        (Inl _, _, _) \<Rightarrow> None
      | (Inr n1, d1, c1) \<Rightarrow>
     (case decode_session_request_packet (take n1 d1) of Inl _ \<Rightarrow> None | Inr rq \<Rightarrow>
     (case on_session_request b cfg from rq now (Inr kp_s) t of None \<Rightarrow> None | Some (Inl _, _) \<Rightarrow> None | Some (Inr rsp, t1) \<Rightarrow>
     (case encode_session_response_packet (replicate session_response_size 0) rsp of (Inl _, _) \<Rightarrow> None | (Inr _, d2) \<Rightarrow>
     (case decode_session_response_packet d2 of Inl _ \<Rightarrow> None | Inr rsp' \<Rightarrow>
     (case on_session_response b rsp' buf now c1 of (Inl _, _, _) \<Rightarrow> None | (Inr n3, d3, c3) \<Rightarrow>
     (case decode_wrapper_packet (take n3 d3) of Inl _ \<Rightarrow> None | Inr w \<Rightarrow> Some (w, c3, t1))))))))"

definition handshake ::
    "crypto_backend \<Rightarrow> server_configuration \<Rightarrow> tunnelling_credentials \<Rightarrow> client_origin \<Rightarrow> hpai \<Rightarrow> x25519_key_pair \<Rightarrow>
     x25519_key_pair \<Rightarrow> u64 \<Rightarrow> bytes \<Rightarrow> server_session_table \<Rightarrow> (client_session \<times> server_session_table) option" where
  "handshake b cfg credentials from endpoint kp_c kp_s now buf t =
     (case request_session b cfg credentials from endpoint kp_c kp_s now buf t of None \<Rightarrow> None | Some (w, c3, t1) \<Rightarrow>
     (case server_open b cfg from w buf now t1 of (Inl _, _, _) \<Rightarrow> None | (Inr f, _, t2) \<Rightarrow>
      if so_kind f \<noteq> Kind_authenticated then None else
     (case server_seal_status b cfg (og_connection from) (so_session_id f) status_authentication_success buf t2 of
        (Inl _, _, _) \<Rightarrow> None
      | (Inr n4, d4, t3) \<Rightarrow>
     (case decode_wrapper_packet (take n4 d4) of Inl _ \<Rightarrow> None | Inr w2 \<Rightarrow>
     (case client_open b w2 buf now c3 of (Inl _, _, _) \<Rightarrow> None | (Inr _, _, c4) \<Rightarrow> Some (c4, t3))))))"

definition sample_agreement :: crypto_backend where
  "sample_agreement = sample_backend\<lparr> cb_x25519_derive := (\<lambda>a b. Some (map2 (*) a b)) \<rparr>"

definition sample_client_keys :: x25519_key_pair where
  "sample_client_keys = \<lparr> kp_private_key = replicate 32 5, kp_public_key = replicate 32 15 \<rparr>"

definition sample_endpoint :: hpai where
  "sample_endpoint = \<lparr> hpai_endpoint = \<lparr> v4_address = [0, 0, 0, 0], v4_port = 0 \<rparr>, hpai_protocol = 1 \<rparr>"

subsection \<open>Lemmas\<close>

lemma cbc_mac_total:
  assumes "primitives_work (ci_backend w)" "length b0 + 2 + length ad + length p \<le> 2000" "length ad \<le> 0xFFFF"
  shows "\<exists>m. cbc_mac w b0 ad p = Inr m"
proof -
  have "(length b0 + 2 + length ad + length p + 16 - 1) div 16 * 16 \<le> length b0 + 2 + length ad + length p + 16 - 1" by simp
  then have "\<not> (length b0 + 2 + length ad + length p + 16 - 1) div 16 * 16 > 2048" using assms(2) by linarith
  then show ?thesis using assms(1,3) by (auto simp: cbc_mac_def Let_def aes_block_size_def max_mac_input_size_def
    primitives_work_def split: option.split)
qed

lemma ctr_total: "primitives_work (ci_backend w) \<Longrightarrow> \<exists>m' p'. ctr w c m p = (Inr (), m', p')"
proof -
  assume "primitives_work (ci_backend w)"
  then have "fst (cb_ctr (ci_backend w) (ci_key w) c m p)" by (simp add: primitives_work_def)
  then show ?thesis by (cases "cb_ctr (ci_backend w) (ci_key w) c m p") (simp add: ctr_def)
qed

lemma handshake_mac_total:
  assumes "primitives_work (ci_backend w)" "length ad \<le> 1000"
  shows "\<exists>m. handshake_mac w ad = Inr m \<and> length m = 16"
proof -
  obtain m where m: "cbc_mac w (replicate aes_block_size 0) ad [] = Inr m"
    using cbc_mac_total [OF assms(1)] assms(2) by (force simp: aes_block_size_def)
  obtain m' p' where c: "ctr w handshake_counter_0 m [] = (Inr (), m', p')" using ctr_total [OF assms(1)] by blast
  have "length m = 16" using length_cbc_mac [OF _ m] assms(1) by (simp add: primitives_work_def)
  then have "length m' = 16" using ctr_symmetricD(1) [OF _ c] assms(1) by (simp add: primitives_work_def)
  with m c show ?thesis by (simp add: handshake_mac_def)
qed

lemma handshake_macs_total:
  assumes "primitives_work (ci_backend w)"
  shows "\<exists>m. basic_session_response_mac w i cp sp = Inr m \<and> length m = 16"
    "\<exists>m. basic_session_authenticate_mac w u cp sp = Inr m \<and> length m = 16"
  using handshake_mac_total [OF assms]
  by (simp_all add: basic_session_response_mac_def basic_session_authenticate_mac_def header_octets_def
    public_keys_xor_def x25519_key_size_def)

lemma seal_total:
  assumes "primitives_work (ci_backend w)" "wrapper_fields_wf flds" "length p \<le> 1434"
  shows "\<exists>mac enc. seal w (wrapper_message flds p) = (Inr mac, enc)"
proof -
  obtain m where "cbc_mac w (cm_block_0 (wrapper_message flds p)) (cm_associated_data (wrapper_message flds p)) p = Inr m"
    using cbc_mac_total [OF assms(1)] assms(2,3)
    by (force simp: wrapper_message_def wrapper_block_0_def wrapper_fields_wf_def)
  moreover obtain m' p' where "ctr w (cm_counter_0 (wrapper_message flds p)) m p = (Inr (), m', p')"
    using ctr_total [OF assms(1)] by blast
  ultimately show ?thesis by (auto simp: seal_def)
qed

lemma check_wrapped_packet:
  assumes "s \<notin> set services_refused_inside_wrapper" "length body \<le> 1000"
  shows "\<exists>h. check_wrapped_frame (knx_packet s body) = Inr h"
proof -
  have "unat (word_of_nat (6 + length body) :: u16) = 6 + length body"
    by (rule unat_u16_of_nat) (use assms(2) in simp)
  then show ?thesis using assms
    by (simp add: check_wrapped_frame_def decode_header_wire)
qed

lemma wrapper_delivered:
  assumes work: "primitives_work b" and wf: "wrapper_fields_wf flds" and check: "check_wrapped_frame plain = Inr h"
    and len: "length plain \<le> 1434" "38 + length plain \<le> length d"
  shows "\<exists>n d' v. seal_wrapper b d key flds plain = (Inr n, d') \<and> decode_wrapper_packet (take n d') = Inr v \<and>
    fields_of v = flds \<and>
    (\<forall>e. length plain \<le> length e \<longrightarrow> open_wrapper b e key v = (Inr (length plain), write_at e 0 plain))"
proof -
  let ?w = "\<lparr> ci_backend = b, ci_key = key \<rparr>"
  have b: "primitives_work (ci_backend ?w)" "ctr_symmetric (ci_backend ?w)" "mac_is_block (ci_backend ?w)"
    using work by (simp_all add: primitives_work_def)
  obtain mac enc where s: "seal ?w (wrapper_message flds plain) = (Inr mac, enc)"
    using seal_total [OF b(1) wf len(1)] by blast
  obtain n d' where sealed: "basic_seal_wrapper ?w d flds plain = (Inr n, d')"
    using seal_wrapper_body [OF wf check len s] by (simp add: Let_def)
  obtain v where v: "decode_wrapper_packet (take n d') = Inr v" "fields_of v = flds"
      "basic_open_wrapper ?w plain v = (Inr (length plain), write_at plain 0 plain)"
    using sealed_wrapper [OF b(2,3) wf sealed order_refl] by blast
  have "open_wrapper b e key v = (Inr (length plain), write_at e 0 plain)" if "length plain \<le> length e" for e
    using sealed_wrapper [OF b(2,3) wf sealed that] v(1) by (auto simp: open_wrapper_def)
  then show ?thesis using sealed v(1,2) by (auto simp: seal_wrapper_def)
qed

lemma packet_sizes:
  "session_request_wf f \<Longrightarrow> length (session_request_wire f) = session_request_size"
  "session_response_wf g \<Longrightarrow> length (session_response_wire g) = session_response_size"
  "length (eu_mac a) = 16 \<Longrightarrow> length (session_authenticate_wire a) = session_authenticate_size"
  by (simp_all add: session_request_wf_def session_request_wire_def hpai_wf_def hpai_wire_def session_response_wf_def
    session_response_wire_def session_authenticate_wire_def secure_sizes)

lemma begin_delivered:
  assumes "validate_credentials credentials = Inr ()" "hpai_wf endpoint" "known_protocol (hpai_protocol endpoint)"
    "length (kp_public_key kp) = 32" "session_request_size \<le> length buf"
  shows "\<exists>d c. client_begin buf endpoint now (Inr kp) (new_client_session credentials) = (Inr session_request_size, d, c) \<and>
    decode_session_request_packet (take session_request_size d) =
      Inr \<lparr> eq_control_endpoint = endpoint, eq_client_public_key = kp_public_key kp \<rparr> \<and>
    kc_credentials c = credentials \<and> kc_phase c = Phase_requested \<and> kc_key_pair c = kp \<and> kc_next_sequence c = 0 \<and>
    kc_last_received_sequence c = None"
proof -
  let ?rq = "\<lparr> eq_control_endpoint = endpoint, eq_client_public_key = kp_public_key kp \<rparr>"
  have wf: "session_request_wf ?rq" using assms(2,4) by (simp add: session_request_wf_def)
  have enc: "encode_session_request_packet buf ?rq = (Inr (), write_at buf 0 (session_request_wire ?rq))"
    using session_request.encode_wire [OF wf] assms(3,5) packet_sizes(1) [OF wf] by simp
  have dec: "decode_session_request_packet (take session_request_size (write_at buf 0 (session_request_wire ?rq))) = Inr ?rq"
    using session_request.decode_wire [OF wf] assms(3) packet_sizes(1) [OF wf] by simp
  show ?thesis using assms(1) enc dec
    by (simp add: client_begin_def new_client_session_def client_forget_def)
qed


lemma response_delivered:
  assumes work: "primitives_work b" and wf: "length (ea_server_public_key rsp) = 32" "length (ea_mac rsp) = 16"
    and c: "kc_phase c = Phase_requested" "kc_credentials c = credentials" "kc_key_pair c = kp" "kc_next_sequence c = 0"
      "kc_last_received_sequence c = None" "length (cd_serial_number credentials) = 6"
    and rsp: "ea_session_id rsp \<noteq> 0" "cd_skip_device_authentication credentials \<or>
      basic_session_response_mac \<lparr> ci_backend = b, ci_key = cd_device_authentication_code credentials \<rparr>
        (ea_session_id rsp) (kp_public_key kp) (ea_server_public_key rsp) = Inr (ea_mac rsp)"
    and key: "derive_session_key b (kp_private_key kp) (ea_server_public_key rsp) = Inr key" and buf: "62 \<le> length buf"
  shows "\<exists>n d c' v a. on_session_response b rsp buf now c = (Inr n, d, c') \<and> decode_wrapper_packet (take n d) = Inr v \<and>
    ww_session_id v = ea_session_id rsp \<and> length (eu_mac a) = 16 \<and> eu_user_id a = cd_user_id credentials \<and>
    basic_session_authenticate_mac \<lparr> ci_backend = b, ci_key = cd_user_password_key credentials \<rparr>
      (cd_user_id credentials) (kp_public_key kp) (ea_server_public_key rsp) = Inr (eu_mac a) \<and>
    open_wrapper b buf key v = (Inr 24, write_at buf 0 (session_authenticate_wire a)) \<and>
    kc_phase c' = Phase_authenticating \<and> kc_session_key c' = key \<and> kc_session_id c' = ea_session_id rsp \<and>
    kc_last_received_sequence c' = None"
proof -
  obtain m where m: "basic_session_authenticate_mac \<lparr> ci_backend = b, ci_key = cd_user_password_key credentials \<rparr>
      (cd_user_id credentials) (kp_public_key kp) (ea_server_public_key rsp) = Inr m" "length m = 16"
    using handshake_macs_total(2) [of "\<lparr> ci_backend = b, ci_key = cd_user_password_key credentials \<rparr>"
      "cd_user_id credentials" "kp_public_key kp" "ea_server_public_key rsp"] work by auto
  let ?a = "\<lparr> eu_user_id = cd_user_id credentials, eu_mac = m \<rparr>"
  have size: "length (session_authenticate_wire ?a) = session_authenticate_size" using packet_sizes(3) [of ?a] m(2) by simp
  have enc: "encode_session_authenticate_packet (replicate session_authenticate_size 0) ?a = (Inr (), session_authenticate_wire ?a)"
    using session_authenticate.encode_wire [of ?a "replicate session_authenticate_size 0"] m(2) size by (simp add: write_at_whole)
  have check: "\<exists>h. check_wrapped_frame (session_authenticate_wire ?a) = Inr h"
    unfolding session_authenticate_wire_def using m(2)
    by (intro check_wrapped_packet) (simp_all add: session_authenticate_service_def services_refused_inside_wrapper_def wrapper_service_def)
  let ?f = "\<lparr> wf_session_id = ea_session_id rsp, wf_sequence = encode_sequence 0,
    wf_serial_number = cd_serial_number credentials, wf_message_tag = tunnelling_message_tag \<rparr>"
  have f: "wrapper_fields_wf ?f" using c(6) by (simp add: wrapper_fields_wf_def tunnelling_message_tag_def)
  have sz: "length (session_authenticate_wire ?a) = 24" using size by (simp add: secure_sizes)
  obtain n d v where s: "seal_wrapper b buf key ?f (session_authenticate_wire ?a) = (Inr n, d)"
      "decode_wrapper_packet (take n d) = Inr v" "fields_of v = ?f"
      "open_wrapper b buf key v = (Inr 24, write_at buf 0 (session_authenticate_wire ?a))"
    using wrapper_delivered [OF work f, of "session_authenticate_wire ?a" _ buf key] check buf sz by auto
  have verified: "verify_response b rsp c = (Inr (), c)"
    using rsp c by (auto simp: verify_response_def Let_def verify_session_response_iff [symmetric])
  let ?c = "(authenticating key rsp c)\<lparr> kc_next_sequence := 1, kc_last_sent_ms := now \<rparr>"
  have "seal_frame b (session_authenticate_wire ?a) buf now (authenticating key rsp c) = (Inr n, d, ?c)"
    using s(1) c by (simp add: seal_frame_def authenticating_def max_sequence_def)
  then have "client_authenticate b rsp buf now c = (Inr n, d, ?c)"
    using key m(1) enc c by (simp add: client_authenticate_def authenticating_def)
  with verified c have o: "on_session_response b rsp buf now c =
      (Inr n, d, ?c\<lparr> kc_phase := Phase_authenticating, kc_last_received_ms := now \<rparr>)"
    by (simp add: on_session_response_def)
  have "ww_session_id v = ea_session_id rsp" using s(3) by (simp add: fields_of_def)
  with o s m c show ?thesis 
    by (intro exI [of _ n] exI [of _ d] exI [of _ "?c\<lparr> kc_phase := Phase_authenticating, kc_last_received_ms := now \<rparr>"]
      exI [of _ v] exI [of _ ?a] conjI) (simp_all add: authenticating_def)
qed


lemma authentication_delivered:
  assumes s: "find_session i (sv_sessions t) = Some s" "se_connection s = og_connection from" "se_peer s = og_peer from"
      "se_user s = None" "se_last_received_sequence s = None"
    and w: "ww_session_id w = i" "open_wrapper b buf (se_session_key s) w = (Inr 24, write_at buf 0 (session_authenticate_wire a))"
    and a: "length (eu_mac a) = 16" "find_user cfg (eu_user_id a) = Some u"
      "basic_session_authenticate_mac \<lparr> ci_backend = b, ci_key = tu_password_key u \<rparr> (eu_user_id a)
         (se_client_public_key s) (se_server_public_key s) = Inr (eu_mac a)"
  shows "\<exists>d t'. server_open b cfg from w buf now t =
      (Inr \<lparr> so_session_id = i, so_size = 0, so_kind = Kind_authenticated \<rparr>, d, t') \<and>
    find_session i (sv_sessions t') = Some (s\<lparr> se_last_received_sequence := Some (decode_sequence (ww_sequence w)),
      se_last_received_ms := now, se_user := Some u \<rparr>)"
proof -
  have id: "se_session_id s = i" using find_session_Some [OF s(1)] by simp
  have len: "length (session_authenticate_wire a) = 24" using packet_sizes(3) [OF a(1)] by (simp add: secure_sizes)
  have plain: "take 24 (write_at buf 0 (session_authenticate_wire a)) = session_authenticate_wire a" using len by simp
  have dec: "decode_session_authenticate_packet (session_authenticate_wire a) = Inr a"
    using session_authenticate.decode_wire [of a] a(1) by simp
  obtain e where no: "decode_session_status_packet (session_authenticate_wire a) = Inl e"
  proof (cases "decode_session_status_packet (session_authenticate_wire a)")
    case (Inr st)
    then show thesis using a(1)
      by (auto simp: decode_session_status_iff session_authenticate_wire_def knx_packet_def header_wire_def
        session_status_service_def session_authenticate_service_def)
  qed
  obtain h where check: "check_wrapped_frame (session_authenticate_wire a) = Inr h"
    unfolding session_authenticate_wire_def using a(1) check_wrapped_packet [of session_authenticate_service]
    by (force simp: session_authenticate_service_def services_refused_inside_wrapper_def wrapper_service_def)
  have ver: "verify_session_authenticate \<lparr> ci_backend = b, ci_key = tu_password_key u \<rparr> a
      (se_client_public_key s) (se_server_public_key s) = Inr ()"
    using a(3) by (simp add: verify_session_authenticate_iff)
  have peer: "same_peer (se_peer s) (og_peer from)" using s(3) by (simp add: same_peer_def)
  show ?thesis
    using s w(1,2) a(2) no dec ver check peer plain id find_update [OF s(1)]
    by (simp add: server_open_def server_admit_def server_apply_def server_authenticate_def Let_def update_update)
qed

lemma status_delivered:
  assumes work: "primitives_work b" and s: "find_session i (sv_sessions t) = Some s" "se_connection s = con" "se_next_sequence s = 0"
    and cfg: "length (sg_serial_number cfg) = 6" and buf: "46 \<le> length buf"
    and c: "kc_phase c = Phase_authenticating" "kc_session_key c = se_session_key s" "\<not> secret_empty (se_session_key s)"
      "kc_session_id c = i" "kc_last_received_sequence c = None"
  shows "\<exists>n d t' v f e c'. server_seal_status b cfg con i status_authentication_success buf t = (Inr n, d, t') \<and>
    decode_wrapper_packet (take n d) = Inr v \<and> client_open b v buf now c = (Inr f, e, c') \<and>
    find_session i (sv_sessions t') = Some (s\<lparr> se_next_sequence := 1 \<rparr>) \<and>
    kc_phase c' = Phase_established \<and> kc_session_key c' = se_session_key s \<and> kc_session_id c' = i"
proof -
  let ?st = "\<lparr> es_status = status_authentication_success \<rparr>"
  have len: "length (session_status_wire ?st) = 8" by (simp add: session_status_wire_def)
  have enc: "encode_session_status_packet (replicate session_status_size 0) ?st = (Inr (), session_status_wire ?st)"
    using session_status.encode_wire [of ?st "replicate session_status_size 0"] len
    by (simp add: secure_sizes write_at_whole)
  obtain h where check: "check_wrapped_frame (session_status_wire ?st) = Inr h"
    unfolding session_status_wire_def using check_wrapped_packet [of session_status_service]
    by (force simp: session_status_service_def services_refused_inside_wrapper_def wrapper_service_def)
  let ?f = "\<lparr> wf_session_id = i, wf_sequence = encode_sequence 0, wf_serial_number = sg_serial_number cfg,
    wf_message_tag = tunnelling_message_tag \<rparr>"
  have f: "wrapper_fields_wf ?f" using cfg by (simp add: wrapper_fields_wf_def tunnelling_message_tag_def)
  obtain n d v where w: "seal_wrapper b buf (se_session_key s) ?f (session_status_wire ?st) = (Inr n, d)"
      "decode_wrapper_packet (take n d) = Inr v" "fields_of v = ?f"
      "open_wrapper b buf (se_session_key s) v = (Inr 8, write_at buf 0 (session_status_wire ?st))"
    using wrapper_delivered [OF work f check, of buf "se_session_key s"] buf len by auto
  have sealed: "server_seal_status b cfg con i status_authentication_success buf t = (Inr n, d,
      t\<lparr> sv_sessions := update_session i (\<lambda>e. e\<lparr> se_next_sequence := se_next_sequence e + 1 \<rparr>) (sv_sessions t) \<rparr>)"
    using enc s w(1) by (simp add: server_seal_status_def seal_locked_def max_sequence_def)
  have "find_session i (update_session i (\<lambda>e. e\<lparr> se_next_sequence := se_next_sequence e + 1 \<rparr>) (sv_sessions t)) =
      Some (s\<lparr> se_next_sequence := 1 \<rparr>)"
    using find_update [OF s(1), of "\<lambda>e. e\<lparr> se_next_sequence := se_next_sequence e + 1 \<rparr>"] find_session_Some [OF s(1)] s(3) by simp
  moreover have "ww_session_id v = i" using w(3) by (simp add: fields_of_def)
  moreover have "take 8 (write_at buf 0 (session_status_wire ?st)) = session_status_wire ?st" using len by simp
  moreover have "decode_session_status_packet (session_status_wire ?st) = Inr ?st" using session_status.decode_wire [of ?st] by simp
  ultimately show ?thesis using sealed w(2,4) c check
    by (simp add: client_open_def authenticate_wrapper_def client_admit_def client_apply_def Let_def)
qed


lemma request_delivered:
  assumes work: "primitives_work b" and keys: "keys_agree b kp_c kp_s key" and login: "may_log_in cfg credentials"
    and endpoint: "hpai_wf endpoint" "known_protocol (hpai_protocol endpoint)" and buf: "62 \<le> length buf"
    and table: "table_inv cfg t" "admit_request cfg (og_peer from) t = Inr ()"
  obtains w c t1 i s a where
    "request_session b cfg credentials from endpoint kp_c kp_s now buf t = Some (w, c, t1)"
    "\<exists>r. on_session_request b cfg from \<lparr> eq_control_endpoint = endpoint, eq_client_public_key = kp_public_key kp_c \<rparr> now
       (Inr kp_s) t = Some (r, t1)"
    "find_session i (sv_sessions t) = None" "i \<noteq> 0" "find_session i (sv_sessions t1) = Some s"
    "se_connection s = og_connection from" "se_peer s = og_peer from" "se_user s = None" "se_last_received_sequence s = None"
    "se_next_sequence s = 0" "se_session_key s = key" "se_client_public_key s = kp_public_key kp_c"
    "se_server_public_key s = kp_public_key kp_s"
    "ww_session_id w = i" "open_wrapper b buf key w = (Inr 24, write_at buf 0 (session_authenticate_wire a))"
    "length (eu_mac a) = 16" "eu_user_id a = cd_user_id credentials"
    "basic_session_authenticate_mac \<lparr> ci_backend = b, ci_key = cd_user_password_key credentials \<rparr>
       (cd_user_id credentials) (kp_public_key kp_c) (kp_public_key kp_s) = Inr (eu_mac a)"
    "kc_phase c = Phase_authenticating" "kc_session_key c = key" "kc_session_id c = i" "kc_last_received_sequence c = None"
proof -
  let ?rq = "\<lparr> eq_control_endpoint = endpoint, eq_client_public_key = kp_public_key kp_c \<rparr>"
  have k: "derive_session_key b (kp_private_key kp_c) (kp_public_key kp_s) = Inr key"
    "derive_session_key b (kp_private_key kp_s) (kp_public_key kp_c) = Inr key"
    "length (kp_public_key kp_c) = 32" "length (kp_public_key kp_s) = 32"
    using keys by (simp_all add: keys_agree_def)
  have l: "validate_credentials credentials = Inr ()" "length (cd_serial_number credentials) = 6"
    "valid_serial_number (sg_serial_number cfg)"
    using login by (simp_all add: may_log_in_def)
  obtain d1 c1 where one: "client_begin buf endpoint now (Inr kp_c) (new_client_session credentials) = (Inr session_request_size, d1, c1)"
      "decode_session_request_packet (take session_request_size d1) = Inr ?rq"
      "kc_credentials c1 = credentials" "kc_phase c1 = Phase_requested" "kc_key_pair c1 = kp_c" "kc_next_sequence c1 = 0"
      "kc_last_received_sequence c1 = None"
    using begin_delivered [OF l(1) endpoint k(3), of buf now] buf by (auto simp: secure_sizes)
  obtain i where i: "allocate_session_id (sv_sessions t) (sv_next_session_id t) = Some (i, next_id i)" "i \<noteq> 0"
      "find_session i (sv_sessions t) = None"
    using new_session_id [OF table(1)] by blast
  obtain m where m: "basic_session_response_mac \<lparr> ci_backend = b, ci_key = sg_device_authentication_code cfg \<rparr> i
      (kp_public_key kp_c) (kp_public_key kp_s) = Inr m" "length m = 16"
    using handshake_macs_total(1) [of "\<lparr> ci_backend = b, ci_key = sg_device_authentication_code cfg \<rparr>"
      i "kp_public_key kp_c" "kp_public_key kp_s"] work by auto
  let ?rsp = "\<lparr> ea_session_id = i, ea_server_public_key = kp_public_key kp_s, ea_mac = m \<rparr>"
  let ?s = "\<lparr> se_session_id = i, se_connection = og_connection from, se_peer = og_peer from,
    se_client_public_key = kp_public_key kp_c, se_server_public_key = kp_public_key kp_s, se_session_key = key,
    se_user = None, se_created_ms = now, se_last_received_ms = now, se_next_sequence = 0, se_last_received_sequence = None \<rparr>"
  let ?t = "t\<lparr> sv_next_session_id := next_id i, sv_sessions := sv_sessions t @ [?s] \<rparr>"
  have two: "on_session_request b cfg from ?rq now (Inr kp_s) t = Some (Inr ?rsp, ?t)"
    using l(3) table(2) k(2) i(1) m(1) by (simp add: on_session_request_def Let_def)
  have wf: "session_response_wf ?rsp" using k(4) m(2) by (simp add: session_response_wf_def)
  have enc: "encode_session_response_packet (replicate session_response_size 0) ?rsp = (Inr (), session_response_wire ?rsp)"
    using session_response.encode_wire [OF wf, of "replicate session_response_size 0"] packet_sizes(2) [OF wf]
    by (simp add: write_at_whole)
  have dec: "decode_session_response_packet (session_response_wire ?rsp) = Inr ?rsp"
    using session_response.decode_wire [OF wf] by simp
  have auth: "cd_skip_device_authentication credentials \<or>
      basic_session_response_mac \<lparr> ci_backend = b, ci_key = cd_device_authentication_code credentials \<rparr>
        (ea_session_id ?rsp) (kp_public_key kp_c) (ea_server_public_key ?rsp) = Inr (ea_mac ?rsp)"
    using login m(1) by (auto simp: may_log_in_def)
  have pre: "length (ea_server_public_key ?rsp) = 32" "length (ea_mac ?rsp) = 16" "ea_session_id ?rsp \<noteq> 0"
      "derive_session_key b (kp_private_key kp_c) (ea_server_public_key ?rsp) = Inr key"
    using k m(2) i(2) by simp_all
  obtain n d c v a where three: "on_session_response b ?rsp buf now c1 = (Inr n, d, c)"
      "decode_wrapper_packet (take n d) = Inr v" "ww_session_id v = i" "length (eu_mac a) = 16"
      "eu_user_id a = cd_user_id credentials"
      "basic_session_authenticate_mac \<lparr> ci_backend = b, ci_key = cd_user_password_key credentials \<rparr>
         (cd_user_id credentials) (kp_public_key kp_c) (kp_public_key kp_s) = Inr (eu_mac a)"
      "open_wrapper b buf key v = (Inr 24, write_at buf 0 (session_authenticate_wire a))"
      "kc_phase c = Phase_authenticating" "kc_session_key c = key" "kc_session_id c = i" "kc_last_received_sequence c = None"
    using response_delivered [OF work pre(1,2) one(4,3,5,6,7) l(2) pre(3) auth pre(4) buf, of now]
    unfolding session_response_frame.simps by blast
  have "request_session b cfg credentials from endpoint kp_c kp_s now buf t = Some (v, c, ?t)"
    using one(1,2) two enc dec three(1,2) by (simp add: request_session_def)
  moreover have "find_session i (sv_sessions ?t) = Some ?s" using i(3) by (simp add: find_session_append)
  ultimately show thesis using that [of v c ?t i ?s a] two i(2,3) three by simp
qed

lemma sample_works: "primitives_work sample_agreement"
proof -
  have same: "cb_ctr sample_agreement = cb_ctr sample_backend" "cb_cbc_mac sample_agreement = cb_cbc_mac sample_backend"
    "ci_backend sample_cipher = sample_backend"
    by (simp_all add: sample_agreement_def sample_cipher_def)
  have "ctr_symmetric sample_agreement" "mac_is_block sample_agreement"
    using sample_backend_ok unfolding ctr_symmetric_def mac_is_block_def same by blast+
  moreover have "cb_cbc_mac sample_agreement k x \<noteq> None" "fst (cb_ctr sample_agreement k c f s)" for k x c f s
    by (simp_all add: sample_agreement_def sample_backend_def)
  ultimately show ?thesis by (simp add: primitives_work_def)
qed

lemma sample_keys: "keys_agree sample_agreement sample_client_keys sample_key_pair (replicate 16 32)"
proof -
  have "derive_session_key sample_agreement (kp_private_key sample_client_keys) (kp_public_key sample_key_pair) = Inr (replicate 16 32)"
    "derive_session_key sample_agreement (kp_private_key sample_key_pair) (kp_public_key sample_client_keys) = Inr (replicate 16 32)"
    by code_simp+
  then show ?thesis by (simp add: keys_agree_def sample_client_keys_def sample_key_pair_def secret_empty_def list_all_iff)
qed

lemma sample_login: "may_log_in sample_configuration sample_credentials"
  by (simp add: may_log_in_def sample_configuration_def sample_credentials_def validate_credentials_def
    valid_serial_number_def find_user_def)

lemma sample_endpoint_ok: "hpai_wf sample_endpoint" "known_protocol (hpai_protocol sample_endpoint)"
  by (simp_all add: sample_endpoint_def hpai_wf_def known_protocol_def udp_protocol_def)

lemma sample_admitted: "admit_request sample_configuration (og_peer sample_origin) new_session_table = Inr ()"
  by (simp add: admit_request_def session_limit_def max_server_sessions_def sample_configuration_def new_session_table_def)

subsection \<open>Properties\<close>

text \<open>
  C1: the handshake completes.  With credentials the server knows, room in its table, primitives that
  work and a key agreement that agrees, the packets the client and the server exchange end with the
  client established and the server's session authenticated as the client's user, both under the same
  session id and key, and the id was free before.
\<close>

theorem handshake_completes:
  assumes "primitives_work b" "keys_agree b kp_c kp_s key" "may_log_in cfg credentials"
    and "hpai_wf endpoint" "known_protocol (hpai_protocol endpoint)" "62 \<le> length buf"
    and "table_inv cfg t" "admit_request cfg (og_peer from) t = Inr ()"
  shows "\<exists>c t' s. handshake b cfg credentials from endpoint kp_c kp_s now buf t = Some (c, t') \<and>
    kc_phase c = Phase_established \<and> kc_session_key c = key \<and>
    \<not> session_alive (kc_session_id c) t \<and> session_authenticated (kc_session_id c) t' \<and>
    find_session (kc_session_id c) (sv_sessions t') = Some s \<and> se_session_key s = key \<and>
    se_user s = find_user cfg (cd_user_id credentials)"
proof -
  obtain w c t1 i s a where r: "request_session b cfg credentials from endpoint kp_c kp_s now buf t = Some (w, c, t1)"
    "find_session i (sv_sessions t) = None" "find_session i (sv_sessions t1) = Some s"
    "se_connection s = og_connection from" "se_peer s = og_peer from" "se_user s = None" "se_last_received_sequence s = None"
    "se_next_sequence s = 0" "se_session_key s = key" "se_client_public_key s = kp_public_key kp_c"
    "se_server_public_key s = kp_public_key kp_s"
    "ww_session_id w = i" "open_wrapper b buf key w = (Inr 24, write_at buf 0 (session_authenticate_wire a))"
    "length (eu_mac a) = 16" "eu_user_id a = cd_user_id credentials"
    "basic_session_authenticate_mac \<lparr> ci_backend = b, ci_key = cd_user_password_key credentials \<rparr>
       (cd_user_id credentials) (kp_public_key kp_c) (kp_public_key kp_s) = Inr (eu_mac a)"
    "kc_phase c = Phase_authenticating" "kc_session_key c = key" "kc_session_id c = i" "kc_last_received_sequence c = None"
    using request_delivered [OF assms] by metis
  obtain u where u: "find_user cfg (cd_user_id credentials) = Some u" "tu_password_key u = cd_user_password_key credentials"
    and serial: "length (sg_serial_number cfg) = 6"
    using assms(3) by (auto simp: may_log_in_def)
  let ?s = "s\<lparr> se_last_received_sequence := Some (decode_sequence (ww_sequence w)), se_last_received_ms := now, se_user := Some u \<rparr>"
  obtain d2 t2 where o: "server_open b cfg from w buf now t1 =
      (Inr \<lparr> so_session_id = i, so_size = 0, so_kind = Kind_authenticated \<rparr>, d2, t2)" "find_session i (sv_sessions t2) = Some ?s"
    using authentication_delivered [OF r(3-7) r(12), of b buf a cfg u now] r u by auto
  have key: "\<not> secret_empty key" using assms(2) by (simp add: keys_agree_def)
  have "46 \<le> length buf" using assms(6) by simp
  from status_delivered [OF assms(1) o(2) _ _ serial this r(17), of "og_connection from" now] r key
  obtain n d t3 v f e c' where st: "server_seal_status b cfg (og_connection from) i status_authentication_success buf t2 = (Inr n, d, t3)"
      "decode_wrapper_packet (take n d) = Inr v" "client_open b v buf now c = (Inr f, e, c')"
      "find_session i (sv_sessions t3) = Some (?s\<lparr> se_next_sequence := 1 \<rparr>)"
      "kc_phase c' = Phase_established" "kc_session_key c' = key" "kc_session_id c' = i"
    by auto
  have "handshake b cfg credentials from endpoint kp_c kp_s now buf t = Some (c', t3)"
    using r(1) o(1) st(1-3) by (simp add: handshake_def)
  then show ?thesis using st(4-7) r(2,9) u(1) by (simp add: session_alive_def session_authenticated_def)
qed

theorem handshake_completes_witness:
  "\<exists>c t'. handshake sample_agreement sample_configuration sample_credentials sample_origin sample_endpoint sample_client_keys
     sample_key_pair 5 (replicate 100 0) new_session_table = Some (c, t') \<and> kc_phase c = Phase_established \<and>
     session_authenticated (kc_session_id c) t'"
  using handshake_completes [OF sample_works sample_keys sample_login sample_endpoint_ok _ new_table_inv sample_admitted,
    of "replicate 100 0" 5] by auto

text \<open>
  C2: a session becomes authenticated in one way only.  If the user of a session is set by some step of
  the table, that step opened a wrapper of that session which carried a SESSION_AUTHENTICATE naming the
  user, and its code verified under the user's password key for the public keys of this very session.
\<close>

theorem authenticated_only_by_password:
  assumes "reachable_from (\<lambda>t. t = new_session_table) (server_step b cfg) t" "server_step b cfg t t'"
    and "find_session i (sv_sessions t) = Some e" "find_session i (sv_sessions t') = Some e'"
    and "se_user e = None" "se_user e' = Some u"
  shows "\<exists>from w d now d' n a. server_open b cfg from w d now t =
      (Inr \<lparr> so_session_id = i, so_size = 0, so_kind = Kind_authenticated \<rparr>, d', t') \<and> ww_session_id w = i \<and>
    open_wrapper b d (se_session_key e) w = (Inr n, d') \<and> decode_session_authenticate_packet (take n d') = Inr a \<and>
    find_user cfg (eu_user_id a) = Some u \<and>
    basic_session_authenticate_mac \<lparr> ci_backend = b, ci_key = tu_password_key u \<rparr> (eu_user_id a)
      (se_client_public_key e) (se_server_public_key e) = Inr (eu_mac a)"
proof -
  have inv: "table_inv cfg t" using secure_server.reachable_inv [OF assms(1)] .
  from user_step [OF assms(2) inv assms(3-6)] obtain org w d now d' where o: "server_open b cfg org w d now t =
      (Inr \<lparr> so_session_id = i, so_size = 0, so_kind = Kind_authenticated \<rparr>, d', t')" by blast
  from authenticated_by_open [OF inv o assms(3-6)] obtain n a where "ww_session_id w = i"
      "open_wrapper b d (se_session_key e) w = (Inr n, d')" "decode_session_authenticate_packet (take n d') = Inr a"
      "find_user cfg (eu_user_id a) = Some u"
      "verify_session_authenticate \<lparr> ci_backend = b, ci_key = tu_password_key u \<rparr> a (se_client_public_key e)
         (se_server_public_key e) = Inr ()" .
  with o show ?thesis unfolding verify_session_authenticate_iff by blast
qed

theorem authenticated_only_by_password_witness:
  "\<exists>t t' i e e' u. server_step sample_agreement sample_configuration t t' \<and> find_session i (sv_sessions t) = Some e \<and>
     se_user e = None \<and> find_session i (sv_sessions t') = Some e' \<and> se_user e' = Some u \<and>
     (\<exists>from w d now d' n a. server_open sample_agreement sample_configuration from w d now t =
        (Inr \<lparr> so_session_id = i, so_size = 0, so_kind = Kind_authenticated \<rparr>, d', t') \<and>
      decode_session_authenticate_packet (take n d') = Inr a \<and> find_user sample_configuration (eu_user_id a) = Some u)"
proof -
  let ?b = sample_agreement and ?g = sample_configuration and ?o = sample_origin and ?B = "replicate 100 (0 :: byte)"
  let ?u = "\<lparr> tu_user_id = 2, tu_password_key = replicate 16 5, tu_tunnel_addresses = [] \<rparr>"
  have len: "62 \<le> length ?B" by simp
  obtain w c t i s a x where r: "on_session_request ?b ?g ?o \<lparr> eq_control_endpoint = sample_endpoint,
      eq_client_public_key = kp_public_key sample_client_keys \<rparr> 5 (Inr sample_key_pair) new_session_table = Some (x, t)"
    "find_session i (sv_sessions t) = Some s"
    "se_connection s = og_connection ?o" "se_peer s = og_peer ?o" "se_user s = None" "se_last_received_sequence s = None"
    "se_session_key s = replicate 16 32" "se_client_public_key s = kp_public_key sample_client_keys"
    "se_server_public_key s = kp_public_key sample_key_pair"
    "ww_session_id w = i" "open_wrapper ?b ?B (replicate 16 32) w = (Inr 24, write_at ?B 0 (session_authenticate_wire a))"
    "length (eu_mac a) = 16" "eu_user_id a = cd_user_id sample_credentials"
    "basic_session_authenticate_mac \<lparr> ci_backend = ?b, ci_key = cd_user_password_key sample_credentials \<rparr>
       (cd_user_id sample_credentials) (kp_public_key sample_client_keys) (kp_public_key sample_key_pair) = Inr (eu_mac a)"
    using request_delivered [OF sample_works sample_keys sample_login sample_endpoint_ok len new_table_inv sample_admitted, of 5]
    by metis
  have u: "find_user ?g (eu_user_id a) = Some ?u" "tu_password_key ?u = cd_user_password_key sample_credentials"
    using r(13) by (simp_all add: find_user_def sample_configuration_def sample_credentials_def)
  let ?e = "s\<lparr> se_last_received_sequence := Some (decode_sequence (ww_sequence w)), se_last_received_ms := 5, se_user := Some ?u \<rparr>"
  have op: "open_wrapper ?b ?B (se_session_key s) w = (Inr 24, write_at ?B 0 (session_authenticate_wire a))"
    using r(7,11) by simp
  have mac: "basic_session_authenticate_mac \<lparr> ci_backend = ?b, ci_key = tu_password_key ?u \<rparr> (eu_user_id a)
      (se_client_public_key s) (se_server_public_key s) = Inr (eu_mac a)"
    using r(8,9,13,14) u(2) by simp
  obtain d' t' where o: "server_open ?b ?g ?o w ?B 5 t =
      (Inr \<lparr> so_session_id = i, so_size = 0, so_kind = Kind_authenticated \<rparr>, d', t')" "find_session i (sv_sessions t') = Some ?e"
    using authentication_delivered [OF r(2-6,10) op r(12) u(1) mac, of 5] by blast
  have reach: "reachable_from (\<lambda>t. t = new_session_table) (server_step ?b ?g) t"
    by (rule reachable_from.step, rule reachable_from.start, rule refl, rule server_step.request, rule r(1))
  note step = server_step.opened [OF o(1)]
  have user: "se_user ?e = Some ?u" by simp
  from authenticated_only_by_password [OF reach step r(2) o(2) r(5) user] step r(2,5) o(2) user
  show ?thesis by blast
qed

end
