(* ===== verification/Knx_Secure_Timer.thy ===== *)
theory Knx_Secure_Timer
  imports Knx_Secure_Client
begin

section \<open>The KNX IP Secure routing timer\<close>

text \<open>
  The timer of a secure routing endpoint, \<open>knx/secure/routing_timer_state.cpp\<close>: synchronisation, the
  acceptance of wrappers by their timer value, the ring of frames remembered against duplicates, and
  the schedule of TIMER_NOTIFY.  What a call to the entropy source returned, octets or nothing, is an
  argument.  A time is read by \<open>sint\<close> as the casts of the source do.

  The sums of signed 64-bit values are sums of integers here; in the source an overflow of one is
  undefined.  \<open>event_sums\<close> lists every such sum an operation calculates, and the theorem \<open>timer_never_back\<close>
  shows that all of them fit in 64 bits as long as timer values have 48 bits, as the packets carry them,
  and instants of the monotonic clock are below \<open>2 ^ 63 - 2 ^ 48\<close> ms, so that the two agree.
\<close>

definition keeper_periodic_notify_min_ms :: u64 where "keeper_periodic_notify_min_ms = 10000"
definition keeper_update_notify_min_ms :: u64 where "keeper_update_notify_min_ms = 100"

record routing_frame_identity =
  rf_timer_value :: u64
  rf_serial_number :: bytes
  rf_message_tag :: bytes

datatype wrapper_verdict = Verdict_accepted | Verdict_duplicate | Verdict_outdated | Verdict_unsynchronised

datatype refusal = Refusal_authentication | Refusal_unencrypted | Refusal_service

record timer_notify_request =
  nr_serial_number :: bytes
  nr_message_tag :: bytes

record routing_timer_state =
  rt_serial_number :: bytes
  rt_latency_ms :: int
  rt_sync_latency_ms :: int
  rt_clock_difference :: int
  rt_synchronised :: bool
  rt_timekeeper :: bool
  rt_synchronisation_tag :: "bytes option"
  rt_synchronisation_deadline_ms :: u64
  rt_scheduled_update :: "timer_notify_request option"
  rt_notify_deadline_ms :: "u64 option"
  rt_cache :: "routing_frame_identity list"
  rt_cache_next :: nat
  rt_cache_count :: nat
  rt_fallback_tag :: u16
  rt_counters :: statistics

definition no_frame :: routing_frame_identity where
  "no_frame = \<lparr> rf_timer_value = 0, rf_serial_number = replicate 6 0, rf_message_tag = replicate 2 0 \<rparr>"

definition new_routing_timer :: "u16 \<Rightarrow> bytes \<Rightarrow> u16 \<Rightarrow> routing_timer_state" where
  "new_routing_timer latency_tolerance_ms serial_number duplicate_cache_entries =
     \<lparr> rt_serial_number = serial_number, rt_latency_ms = uint latency_tolerance_ms,
       rt_sync_latency_ms = (uint latency_tolerance_ms + 5) div 10, rt_clock_difference = 0, rt_synchronised = False,
       rt_timekeeper = False, rt_synchronisation_tag = None, rt_synchronisation_deadline_ms = 0,
       rt_scheduled_update = None, rt_notify_deadline_ms = None,
       rt_cache = replicate (max (unat duplicate_cache_entries) 1) no_frame, rt_cache_next = 0, rt_cache_count = 0,
       rt_fallback_tag = 0, rt_counters = no_statistics \<rparr>"

definition timer_value :: "u64 \<Rightarrow> routing_timer_state \<Rightarrow> u64" where
  "timer_value now_ms s = word_of_int (max 0 (min (uint max_sequence) (sint now_ms + rt_clock_difference s)))"

definition delay_bounds :: "bool \<Rightarrow> routing_timer_state \<Rightarrow> int \<times> int" where
  "delay_bounds update s =
     (let keeper_minimum = uint (if update then keeper_update_notify_min_ms else keeper_periodic_notify_min_ms);
          keeper_maximum = keeper_minimum + (if update then 1 else 3) * rt_sync_latency_ms s
      in if rt_timekeeper s then (keeper_minimum, keeper_maximum)
         else (keeper_maximum + rt_sync_latency_ms s, keeper_maximum + 11 * rt_sync_latency_ms s))"

definition random_between :: "bytes option \<Rightarrow> int \<Rightarrow> int \<Rightarrow> u64" where
  "random_between drawn minimum maximum =
     (case drawn of
        None \<Rightarrow> word_of_int minimum
      | Some octets \<Rightarrow>
          (let draw = push_bit 24 (ucast (octets ! 0)) OR push_bit 16 (ucast (octets ! 1)) OR push_bit 8 (ucast (octets ! 2)) OR
                      ucast (octets ! 3) :: u64
           in word_of_int minimum + (draw mod (word_of_int (maximum - minimum) + 1))))"

definition random_tag :: "bytes option \<Rightarrow> routing_timer_state \<Rightarrow> bytes \<times> routing_timer_state" where
  "random_tag drawn s =
     (case drawn of
        Some tag \<Rightarrow> (tag, s)
      | None \<Rightarrow>
          let fallback_tag = rt_fallback_tag s + 1
          in ([ucast (drop_bit 8 fallback_tag), ucast (fallback_tag AND 0xFF)], s \<lparr> rt_fallback_tag := fallback_tag \<rparr>))"

definition reschedule :: "u64 \<Rightarrow> timer_notify_request option \<Rightarrow> bytes option \<Rightarrow> routing_timer_state \<Rightarrow> routing_timer_state" where
  "reschedule now_ms update drawn s =
     (let (minimum, maximum) = delay_bounds (update \<noteq> None) s
      in s \<lparr> rt_scheduled_update := update, rt_notify_deadline_ms := Some (now_ms + random_between drawn minimum maximum) \<rparr>)"

definition begin_synchronisation ::
    "u64 \<Rightarrow> bytes option \<Rightarrow> routing_timer_state \<Rightarrow> timer_notify_request \<times> routing_timer_state" where
  "begin_synchronisation now_ms drawn_tag s =
     (let wait = uint keeper_update_notify_min_ms + 12 * rt_sync_latency_ms s + 2 * rt_latency_ms s;
          (tag, s) = random_tag drawn_tag (s \<lparr> rt_synchronised := False \<rparr>)
      in (\<lparr> nr_serial_number = rt_serial_number s, nr_message_tag = tag \<rparr>,
          s \<lparr> rt_synchronisation_tag := Some tag, rt_synchronisation_deadline_ms := now_ms + word_of_int wait,
              rt_counters := (rt_counters s) \<lparr> sc_timer_notifications_sent := sc_timer_notifications_sent (rt_counters s) + 1 \<rparr> \<rparr>))"

definition finish_synchronisation :: "u64 \<Rightarrow> bytes option \<Rightarrow> routing_timer_state \<Rightarrow> routing_timer_state" where
  "finish_synchronisation now_ms drawn s =
     reschedule now_ms None drawn (s \<lparr> rt_synchronisation_tag := None, rt_synchronised := True \<rparr>)"

definition count_adjustment :: "routing_timer_state \<Rightarrow> routing_timer_state" where
  "count_adjustment s =
     s \<lparr> rt_counters := (rt_counters s) \<lparr> sc_timer_adjustments := sc_timer_adjustments (rt_counters s) + 1 \<rparr> \<rparr>"

definition advance :: "int \<Rightarrow> int \<Rightarrow> routing_timer_state \<Rightarrow> routing_timer_state" where
  "advance local received s =
     (if received \<le> local then s
      else count_adjustment (s \<lparr> rt_clock_difference := rt_clock_difference s + (received - local) \<rparr>))"

definition on_timer_notify :: "u64 \<Rightarrow> routing_frame_identity \<Rightarrow> bytes option \<Rightarrow> routing_timer_state \<Rightarrow> routing_timer_state" where
  "on_timer_notify now_ms notify drawn s =
     (let answers_request = (case rt_synchronisation_tag s of None \<Rightarrow> False
            | Some tag \<Rightarrow> rf_serial_number notify = rt_serial_number s \<and> rf_message_tag notify = tag)
      in if answers_request
         then finish_synchronisation now_ms drawn
                (count_adjustment (s \<lparr> rt_clock_difference := sint (rf_timer_value notify) - sint now_ms \<rparr>))
         else
           let local = sint (timer_value now_ms s); received = sint (rf_timer_value notify)
           in if received > local - rt_sync_latency_ms s
              then reschedule now_ms None drawn ((advance local received s) \<lparr> rt_timekeeper := False \<rparr>)
              else if received \<le> local - rt_latency_ms s \<and> rt_scheduled_update s = None
              then reschedule now_ms (Some \<lparr> nr_serial_number = rf_serial_number notify,
                     nr_message_tag = rf_message_tag notify \<rparr>) drawn s
              else s)"

definition remembered :: "routing_frame_identity \<Rightarrow> routing_timer_state \<Rightarrow> bool" where
  "remembered frame s \<longleftrightarrow> frame \<in> set (take (rt_cache_count s) (rt_cache s))"

definition remember :: "routing_frame_identity \<Rightarrow> routing_timer_state \<Rightarrow> routing_timer_state" where
  "remember frame s =
     s \<lparr> rt_cache := (rt_cache s)[rt_cache_next s := frame],
         rt_cache_next := (rt_cache_next s + 1) mod length (rt_cache s),
         rt_cache_count := min (rt_cache_count s + 1) (length (rt_cache s)) \<rparr>"

definition count_timer_replay :: "routing_timer_state \<Rightarrow> routing_timer_state" where
  "count_timer_replay s = s \<lparr> rt_counters := (rt_counters s) \<lparr> sc_replays := sc_replays (rt_counters s) + 1 \<rparr> \<rparr>"

definition count_timer_duplicate :: "routing_timer_state \<Rightarrow> routing_timer_state" where
  "count_timer_duplicate s = s \<lparr> rt_counters := (rt_counters s) \<lparr> sc_duplicates := sc_duplicates (rt_counters s) + 1 \<rparr> \<rparr>"

definition on_wrapper ::
    "u64 \<Rightarrow> routing_frame_identity \<Rightarrow> bytes option \<Rightarrow> routing_timer_state \<Rightarrow> wrapper_verdict \<times> routing_timer_state" where
  "on_wrapper now_ms wrapper drawn s =
     (if \<not> rt_synchronised s \<or> remembered wrapper s
      then (if rt_synchronised s then (Verdict_duplicate, count_timer_duplicate s)
            else (Verdict_unsynchronised, count_timer_replay s))
      else
        let local = sint (timer_value now_ms s); received = sint (rf_timer_value wrapper)
        in if received \<le> local - rt_latency_ms s
           then (Verdict_outdated, count_timer_replay
                  (if rt_scheduled_update s = None
                   then reschedule now_ms (Some \<lparr> nr_serial_number = rf_serial_number wrapper,
                          nr_message_tag = rf_message_tag wrapper \<rparr>) drawn s
                   else s))
           else
             let s = (if received > local - rt_sync_latency_ms s \<and> rt_scheduled_update s = None
                      then reschedule now_ms None drawn s else s)
             in (Verdict_accepted, remember wrapper (advance local received s)))"

definition on_outgoing_wrapper :: "u64 \<Rightarrow> bytes option \<Rightarrow> routing_timer_state \<Rightarrow> u64 \<times> routing_timer_state" where
  "on_outgoing_wrapper now_ms drawn s =
     (let s = (if rt_scheduled_update s = None then reschedule now_ms None drawn s else s)
      in (timer_value now_ms s, s))"

definition take_due_notify ::
    "u64 \<Rightarrow> bytes option \<Rightarrow> bytes option \<Rightarrow> bytes option \<Rightarrow> routing_timer_state \<Rightarrow>
     timer_notify_request option \<times> routing_timer_state" where
  "take_due_notify now_ms drawn_finish drawn_tag drawn s =
     (let s = (if rt_synchronisation_tag s \<noteq> None \<and> now_ms \<ge> rt_synchronisation_deadline_ms s
               then finish_synchronisation now_ms drawn_finish (s \<lparr> rt_timekeeper := True \<rparr>) else s)
      in if (case rt_notify_deadline_ms s of None \<Rightarrow> True | Some deadline \<Rightarrow> now_ms < deadline) then (None, s)
         else
           let (request, s) = (case rt_scheduled_update s of
                 Some update \<Rightarrow> (update, s)
               | None \<Rightarrow> (let (tag, s) = random_tag drawn_tag s
                          in (\<lparr> nr_serial_number = rt_serial_number s, nr_message_tag = tag \<rparr>, s)));
               s = reschedule now_ms None drawn (s \<lparr> rt_timekeeper := True \<rparr>)
           in (Some request,
               s \<lparr> rt_counters := (rt_counters s) \<lparr> sc_timer_notifications_sent := sc_timer_notifications_sent (rt_counters s) + 1 \<rparr> \<rparr>))"

definition next_deadline_ms :: "routing_timer_state \<Rightarrow> u64" where
  "next_deadline_ms s =
     (let notify = (case rt_notify_deadline_ms s of None \<Rightarrow> - 1 | Some deadline \<Rightarrow> deadline)
      in if rt_synchronisation_tag s \<noteq> None then min notify (rt_synchronisation_deadline_ms s) else notify)"

definition reset_timer :: "routing_timer_state \<Rightarrow> routing_timer_state" where
  "reset_timer s =
     s \<lparr> rt_clock_difference := 0, rt_synchronised := False, rt_timekeeper := False, rt_synchronisation_tag := None,
         rt_synchronisation_deadline_ms := 0, rt_scheduled_update := None, rt_notify_deadline_ms := None,
         rt_cache_next := 0, rt_cache_count := 0 \<rparr>"

definition note_refused :: "refusal \<Rightarrow> routing_timer_state \<Rightarrow> routing_timer_state" where
  "note_refused reason s =
     (case reason of
        Refusal_authentication \<Rightarrow> s \<lparr> rt_counters := (rt_counters s)
          \<lparr> sc_authentication_failures := sc_authentication_failures (rt_counters s) + 1 \<rparr> \<rparr>
      | Refusal_unencrypted \<Rightarrow> s \<lparr> rt_counters := (rt_counters s)
          \<lparr> sc_unencrypted_refused := sc_unencrypted_refused (rt_counters s) + 1 \<rparr> \<rparr>
      | Refusal_service \<Rightarrow> s \<lparr> rt_counters := (rt_counters s)
          \<lparr> sc_refused_services := sc_refused_services (rt_counters s) + 1 \<rparr> \<rparr>)"

subsection \<open>Runs of operations, and the ring as a list\<close>

text \<open>
  An event is a call of one of the timer's operations; \<open>frames_run\<close> collects the frames a run accepted
  or sent.  \<open>recent\<close> reads the ring as a list, the newest frame first.
\<close>

datatype timer_event =
    Te_begin u64 "bytes option"
  | Te_notify u64 routing_frame_identity "bytes option"
  | Te_wrapper u64 routing_frame_identity "bytes option"
  | Te_outgoing u64 "bytes option"
  | Te_take u64 "bytes option" "bytes option" "bytes option"
  | Te_refused refusal
  | Te_sent routing_frame_identity
  | Te_reset

fun timer_after :: "timer_event \<Rightarrow> routing_timer_state \<Rightarrow> routing_timer_state" where
  "timer_after (Te_begin now tag) s = snd (begin_synchronisation now tag s)"
| "timer_after (Te_notify now f r) s = on_timer_notify now f r s"
| "timer_after (Te_wrapper now f r) s = snd (on_wrapper now f r s)"
| "timer_after (Te_outgoing now r) s = snd (on_outgoing_wrapper now r s)"
| "timer_after (Te_take now r1 tag r2) s = snd (take_due_notify now r1 tag r2 s)"
| "timer_after (Te_refused reason) s = note_refused reason s"
| "timer_after (Te_sent f) s = remember f s"
| "timer_after Te_reset s = reset_timer s"

fun frames_of :: "timer_event \<Rightarrow> routing_timer_state \<Rightarrow> routing_frame_identity list" where
  "frames_of (Te_wrapper now f r) s = (if fst (on_wrapper now f r s) = Verdict_accepted then [f] else [])"
| "frames_of (Te_sent f) s = [f]"
| "frames_of _ s = []"

primrec timer_run :: "timer_event list \<Rightarrow> routing_timer_state \<Rightarrow> routing_timer_state" where
  "timer_run [] s = s"
| "timer_run (ev # evs) s = timer_run evs (timer_after ev s)"

primrec frames_run :: "timer_event list \<Rightarrow> routing_timer_state \<Rightarrow> routing_frame_identity list" where
  "frames_run [] s = []"
| "frames_run (ev # evs) s = frames_of ev s @ frames_run evs (timer_after ev s)"

definition recent :: "routing_timer_state \<Rightarrow> routing_frame_identity list" where
  "recent s = map (\<lambda>k. rt_cache s ! ((rt_cache_next s + length (rt_cache s) - Suc k) mod length (rt_cache s))) [0..<rt_cache_count s]"

definition ring_ok :: "routing_timer_state \<Rightarrow> bool" where
  "ring_ok s \<longleftrightarrow> rt_cache_next s < length (rt_cache s) \<and> rt_cache_count s \<le> length (rt_cache s) \<and>
     (rt_cache_count s < length (rt_cache s) \<longrightarrow> rt_cache_next s = rt_cache_count s)"

definition timer_inv :: "routing_timer_state \<Rightarrow> bool" where
  "timer_inv s \<longleftrightarrow> ring_ok s \<and> 0 \<le> rt_latency_ms s \<and> rt_latency_ms s < 65536 \<and>
     rt_sync_latency_ms s = (rt_latency_ms s + 5) div 10 \<and>
     (rt_synchronisation_tag s \<noteq> None \<longrightarrow> \<not> rt_synchronised s) \<and>
     (rt_synchronised s \<or> rt_scheduled_update s \<noteq> None \<longrightarrow> rt_notify_deadline_ms s \<noteq> None)"

definition same_ring :: "routing_timer_state \<Rightarrow> routing_timer_state \<Rightarrow> bool" where
  "same_ring s t \<longleftrightarrow> rt_cache t = rt_cache s \<and> rt_cache_next t = rt_cache_next s \<and> rt_cache_count t = rt_cache_count s"

definition answers_request :: "routing_frame_identity \<Rightarrow> routing_timer_state \<Rightarrow> bool" where
  "answers_request f s \<longleftrightarrow> rt_synchronisation_tag s = Some (rf_message_tag f) \<and> rf_serial_number f = rt_serial_number s"

fun sets_clock :: "timer_event \<Rightarrow> routing_timer_state \<Rightarrow> bool" where
  "sets_clock (Te_notify now f r) s = answers_request f s"
| "sets_clock Te_reset s = True"
| "sets_clock _ s = False"

text \<open>
  The signed 64-bit sums of an operation: the timer value and the limits it is compared with, the change
  of the clock difference where there is one, and the bounds of a delay and their distance, for either role.
\<close>

definition fits_int64 :: "int \<Rightarrow> bool" where
  "fits_int64 x \<longleftrightarrow> - (2 ^ 63) \<le> x \<and> x < 2 ^ 63"

definition clock_sums :: "u64 \<Rightarrow> u64 \<Rightarrow> routing_timer_state \<Rightarrow> int list" where
  "clock_sums now_ms received_value s =
     (let local = sint (timer_value now_ms s); received = sint received_value
      in [sint now_ms + rt_clock_difference s, local - rt_sync_latency_ms s, local - rt_latency_ms s] @
         (if received \<le> local then [] else [received - local, rt_clock_difference s + (received - local)]))"

definition delay_sums :: "routing_timer_state \<Rightarrow> int list" where
  "delay_sums s =
     (let sync = rt_sync_latency_ms s
      in concat (map (\<lambda>(keeper_minimum, n). [n * sync, keeper_minimum + n * sync, keeper_minimum + n * sync + sync,
           11 * sync, keeper_minimum + n * sync + 11 * sync, 10 * sync])
         [(uint keeper_update_notify_min_ms, 1), (uint keeper_periodic_notify_min_ms, 3)]))"

fun event_sums :: "timer_event \<Rightarrow> routing_timer_state \<Rightarrow> int list" where
  "event_sums (Te_begin now tag) s = [12 * rt_sync_latency_ms s, 2 * rt_latency_ms s,
     uint keeper_update_notify_min_ms + 12 * rt_sync_latency_ms s,
     uint keeper_update_notify_min_ms + 12 * rt_sync_latency_ms s + 2 * rt_latency_ms s]"
| "event_sums (Te_notify now f r) s =
     (if answers_request f s then [sint (rf_timer_value f) - sint now] else clock_sums now (rf_timer_value f) s) @ delay_sums s"
| "event_sums (Te_wrapper now f r) s = clock_sums now (rf_timer_value f) s @ delay_sums s"
| "event_sums (Te_outgoing now r) s = (sint now + rt_clock_difference s) # delay_sums s"
| "event_sums (Te_take now r1 tag r2) s = delay_sums s"
| "event_sums _ s = []"

definition instant_in_range :: "u64 \<Rightarrow> bool" where
  "instant_in_range now \<longleftrightarrow> uint now \<le> 2 ^ 63 - 2 ^ 48"

fun event_in_range :: "timer_event \<Rightarrow> bool" where
  "event_in_range (Te_begin now tag) \<longleftrightarrow> instant_in_range now"
| "event_in_range (Te_notify now f r) \<longleftrightarrow> instant_in_range now \<and> rf_timer_value f \<le> max_sequence"
| "event_in_range (Te_wrapper now f r) \<longleftrightarrow> instant_in_range now \<and> rf_timer_value f \<le> max_sequence"
| "event_in_range (Te_outgoing now r) \<longleftrightarrow> instant_in_range now"
| "event_in_range (Te_take now r1 tag r2) \<longleftrightarrow> instant_in_range now"
| "event_in_range _ \<longleftrightarrow> True"

definition clock_in_range :: "routing_timer_state \<Rightarrow> bool" where
  "clock_in_range s \<longleftrightarrow> - (2 ^ 63 - 2 ^ 48) \<le> rt_clock_difference s \<and> rt_clock_difference s \<le> uint max_sequence"

inductive timer_step :: "routing_timer_state \<Rightarrow> routing_timer_state \<Rightarrow> bool" where
  timer_step: "timer_step s (timer_after ev s)"

definition sample_frame :: routing_frame_identity where
  "sample_frame = \<lparr> rf_timer_value = 500, rf_serial_number = [9, 9, 9, 9, 9, 9], rf_message_tag = [1, 2] \<rparr>"

subsection \<open>Lemmas\<close>

lemma reschedule_fields [simp]:
  "same_ring s (reschedule now u r s)" "rt_clock_difference (reschedule now u r s) = rt_clock_difference s"
  "rt_synchronised (reschedule now u r s) = rt_synchronised s" "rt_synchronisation_tag (reschedule now u r s) = rt_synchronisation_tag s"
  "rt_latency_ms (reschedule now u r s) = rt_latency_ms s" "rt_sync_latency_ms (reschedule now u r s) = rt_sync_latency_ms s"
  "rt_scheduled_update (reschedule now u r s) = u" "rt_notify_deadline_ms (reschedule now u r s) \<noteq> None"
  "rt_cache (reschedule now u r s) = rt_cache s" "rt_cache_next (reschedule now u r s) = rt_cache_next s"
  "rt_cache_count (reschedule now u r s) = rt_cache_count s"
  "rt_timekeeper (reschedule now u r s) = rt_timekeeper s" "rt_serial_number (reschedule now u r s) = rt_serial_number s"
  by (simp_all add: reschedule_def same_ring_def split: prod.split)

lemma advance_fields [simp]:
  "same_ring s (advance l r s)" "rt_clock_difference (advance l r s) = rt_clock_difference s + max 0 (r - l)"
  "rt_synchronised (advance l r s) = rt_synchronised s" "rt_synchronisation_tag (advance l r s) = rt_synchronisation_tag s"
  "rt_latency_ms (advance l r s) = rt_latency_ms s" "rt_sync_latency_ms (advance l r s) = rt_sync_latency_ms s"
  "rt_scheduled_update (advance l r s) = rt_scheduled_update s" "rt_notify_deadline_ms (advance l r s) = rt_notify_deadline_ms s"
  by (simp_all add: advance_def count_adjustment_def same_ring_def)

lemma random_tag_fields:
  assumes "random_tag r s = (tag, t)"
  shows "\<exists>k. t = s\<lparr> rt_fallback_tag := k \<rparr>"
  using assms by (cases r) (auto simp: random_tag_def Let_def intro: exI [of _ "rt_fallback_tag s"])

lemma mod_back:
  assumes "n < N" "k < (N :: nat)"
  shows "(n + N - Suc k) mod N = (if k < n then n - Suc k else n + N - Suc k)"
proof (cases "k < n")
  case True
  then have "n + N - Suc k = (n - Suc k) + N" using assms by arith
  then have "(n + N - Suc k) mod N = (n - Suc k) mod N" by (simp only: mod_add_self2)
  then show ?thesis using True assms by simp
qed (use assms in auto)

lemma mod_next: "n < N \<Longrightarrow> (n + 1) mod N = (if n + 1 = N then 0 else n + 1)" for n N :: nat
  by auto

lemma ring_step:
  assumes "n < N" "k < (N :: nat)"
  shows "k = 0 \<Longrightarrow> ((n + 1) mod N + N - Suc k) mod N = n"
    "k = Suc j \<Longrightarrow> ((n + 1) mod N + N - Suc k) mod N = (n + N - Suc j) mod N"
    "k = Suc j \<Longrightarrow> (n + N - Suc j) mod N \<noteq> n"
proof -
  have m: "(n + 1) mod N < N" using assms by simp
  note r = mod_back [OF m assms(2)] mod_next [OF assms(1)]
  show "((n + 1) mod N + N - Suc k) mod N = n" if "k = 0"
    unfolding r(1) unfolding r(2) using that assms by (cases "n + 1 = N") simp_all
  assume j: "k = Suc j"
  then have jn: "j < N" using assms by simp
  show "((n + 1) mod N + N - Suc k) mod N = (n + N - Suc j) mod N"
    unfolding r(1) mod_back [OF assms(1) jn] unfolding r(2) using j assms
    by (cases "n + 1 = N"; cases "j < n") simp_all
  show "(n + N - Suc j) mod N \<noteq> n"
    unfolding mod_back [OF assms(1) jn] using j assms by (cases "j < n") simp_all
qed

lemma recent_remember:
  assumes "ring_ok s"
  shows "recent (remember f s) = take (length (rt_cache s)) (f # recent s)" "ring_ok (remember f s)"
proof -
  let ?N = "length (rt_cache s)" and ?n = "rt_cache_next s" and ?c = "rt_cache_count s"
  have b: "?n < ?N" "?c \<le> ?N" "?c < ?N \<longrightarrow> ?n = ?c" using assms by (simp_all add: ring_ok_def)
  have nxt: "rt_cache_next (remember f s) = (if ?n + 1 = ?N then 0 else ?n + 1)"
    "rt_cache_count (remember f s) = min (?c + 1) ?N" "length (rt_cache (remember f s)) = ?N"
    using mod_next [OF b(1)] by (simp_all add: remember_def)
  show "ring_ok (remember f s)" unfolding ring_ok_def nxt using b by (cases "?c < ?N") auto
  show "recent (remember f s) = take ?N (f # recent s)"
  proof (rule nth_equalityI)
    show "length (recent (remember f s)) = length (take ?N (f # recent s))" by (simp add: recent_def remember_def)
    fix k assume "k < length (recent (remember f s))"
    then have k: "k < ?N" "k < Suc ?c" by (simp_all add: recent_def remember_def)
    have "k < rt_cache_count (remember f s)" using k nxt(2) by simp
    then have "recent (remember f s) ! k = rt_cache (remember f s) !
        ((rt_cache_next (remember f s) + length (rt_cache (remember f s)) - Suc k) mod length (rt_cache (remember f s)))"
      by (simp add: recent_def)
    then have at: "recent (remember f s) ! k = (rt_cache s)[?n := f] ! (((?n + 1) mod ?N + ?N - Suc k) mod ?N)"
      unfolding nxt(3) unfolding remember_def by simp
    show "recent (remember f s) ! k = take ?N (f # recent s) ! k"
    proof (cases k)
      case 0
      then show ?thesis unfolding at ring_step(1) [OF b(1) k(1) 0] using b(1) k by simp
    next
      case (Suc j)
      have "(rt_cache s)[?n := f] ! ((?n + ?N - Suc j) mod ?N) = rt_cache s ! ((?n + ?N - Suc j) mod ?N)"
        using ring_step(3) [OF b(1) k(1) Suc] by simp
      then show ?thesis unfolding at ring_step(2) [OF b(1) k(1) Suc] using Suc k by (simp add: recent_def)
    qed
  qed
qed

lemma remembered_recent:
  assumes "ring_ok s"
  shows "remembered f s \<longleftrightarrow> f \<in> set (recent s)"
proof -
  let ?N = "length (rt_cache s)" and ?n = "rt_cache_next s" and ?c = "rt_cache_count s"
  have b: "?n < ?N" "?c \<le> ?N" "?c < ?N \<longrightarrow> ?n = ?c" using assms by (simp_all add: ring_ok_def)
  have idx: "(\<lambda>k. (?n + ?N - Suc k) mod ?N) ` {0..<?c} = {0..<?c}"
  proof (cases "?c < ?N")
    case True
    then have "?n = ?c" using b by simp
    have "(\<lambda>k. (?n + ?N - Suc k) mod ?N) ` {0..<?c} = (\<lambda>k. ?c - Suc k) ` {0..<?c}"
    proof (rule image_cong [OF refl])
      fix x assume "x \<in> {0..<?c}"
      then show "(?n + ?N - Suc x) mod ?N = ?c - Suc x" using mod_back [of ?n ?N x] b \<open>?n = ?c\<close> by simp
    qed
    also have "\<dots> = {0..<?c}"
    proof (intro equalityI subsetI)
      fix x assume "x \<in> {0..<?c}"
      then have "x = ?c - Suc (?c - Suc x)" "?c - Suc x \<in> {0..<?c}" by auto
      then show "x \<in> (\<lambda>k. ?c - Suc k) ` {0..<?c}" by blast
    qed auto
    finally show ?thesis .
  next
    case False
    then have c: "?c = ?N" using b by simp
    show ?thesis
    proof (intro equalityI subsetI)
      fix x assume "x \<in> {0..<?c}"
      then have x: "x < ?N" using c by simp
      let ?k = "if x < ?n then ?n - Suc x else ?n + ?N - Suc x"
      have k: "?k < ?N" using x b(1) by (cases "x < ?n") simp_all
      have "(?n + ?N - Suc ?k) mod ?N = x"
        unfolding mod_back [OF b(1) k] using x b(1) by (cases "x < ?n") simp_all
      then show "x \<in> (\<lambda>k. (?n + ?N - Suc k) mod ?N) ` {0..<?c}" using k c by (intro image_eqI [of _ _ ?k]) simp_all
    next
      fix x assume "x \<in> (\<lambda>k. (?n + ?N - Suc k) mod ?N) ` {0..<?c}"
      then obtain k where "x = (?n + ?N - Suc k) mod ?N" by blast
      moreover have "0 < ?N" using b(1) by linarith
      ultimately show "x \<in> {0..<?c}" unfolding c by simp
    qed
  qed
  have "set (recent s) = (!) (rt_cache s) ` (\<lambda>k. (?n + ?N - Suc k) mod ?N) ` {0..<?c}"
    unfolding recent_def image_image set_map set_upt ..
  also have "\<dots> = set (take ?c (rt_cache s))" unfolding idx using nth_image [OF b(2)] by simp
  finally show ?thesis by (simp add: remembered_def)
qed

lemma same_ring_recent: "same_ring s t \<Longrightarrow> recent t = recent s \<and> ring_ok t = ring_ok s \<and> length (rt_cache t) = length (rt_cache s)"
  by (simp add: same_ring_def recent_def ring_ok_def)

lemma same_ring_trans: "same_ring s t \<Longrightarrow> same_ring t u \<Longrightarrow> same_ring s u"
  by (simp add: same_ring_def)

lemma random_between_bounds:
  assumes "0 \<le> lo" "lo \<le> hi" "hi < 2 ^ 32"
  shows "lo \<le> uint (random_between r lo hi)" "uint (random_between r lo hi) \<le> hi"
proof -
  have lo: "uint (word_of_int lo :: u64) = lo" using assms by (simp add: uint_word_of_int take_bit_eq_mod)
  have len: "uint (word_of_int (hi - lo) + 1 :: u64) = hi - lo + 1"
    using assms by (simp add: uint_word_ariths uint_word_of_int take_bit_eq_mod mod_simps)
  have "lo \<le> uint (random_between r lo hi) \<and> uint (random_between r lo hi) \<le> hi"
  proof (cases r)
    case None
    then show ?thesis using lo assms(2) by (simp add: random_between_def)
  next
    case (Some octets)
    obtain d where d: "random_between r lo hi = word_of_int lo + (d mod (word_of_int (hi - lo) + 1))"
      by (simp add: random_between_def Some Let_def)
    define e where "e = d mod (word_of_int (hi - lo) + 1)"
    have m: "uint e = uint d mod (hi - lo + 1)" unfolding e_def by (simp only: uint_mod len)
    have "0 \<le> uint d mod (hi - lo + 1)" "uint d mod (hi - lo + 1) < hi - lo + 1"
      using assms pos_mod_bound [of "hi - lo + 1"] by simp_all
    moreover from this have "uint (word_of_int lo + e) = lo + uint e"
      using assms m lo uint_add_lem [of "word_of_int lo :: u64" e] by simp
    ultimately show ?thesis unfolding d e_def [symmetric] by (simp add: m)
  qed
  then show "lo \<le> uint (random_between r lo hi)" "uint (random_between r lo hi) \<le> hi" by simp_all
qed

lemma uint_max_sequence: "uint max_sequence = 2 ^ 48 - 1"
  using unat_max_sequence by (simp add: uint_nat)

lemma timer_value_exact:
  "uint (timer_value now s) = max 0 (min (uint max_sequence) (sint now + rt_clock_difference s))"
  by (simp add: timer_value_def uint_word_of_int take_bit_eq_mod uint_max_sequence)

lemma sint_timer_small:
  assumes "(w :: u64) \<le> max_sequence"
  shows "sint w = uint w"
proof -
  have w: "uint w \<le> 2 ^ 48 - 1" using assms unfolding word_le_def uint_max_sequence .
  have "(0 :: int) \<le> uint w" by simp
  then have a: "- (2 ^ 63) \<le> uint w" by (rule order_trans [rotated]) simp
  have b: "uint w < 2 ^ 63" using w by (rule le_less_trans) simp
  have "signed_take_bit 63 (uint w) = uint w" using a b by (rule signed_take_bit_int_eq_self)
  moreover have "LENGTH(64) - Suc 0 = 63" by simp
  ultimately show ?thesis by (simp only: sint_uint)
qed

lemma sint_timer_value: "sint (timer_value now s) = uint (timer_value now s)"
  by (rule sint_timer_small) (simp add: word_le_def timer_value_exact uint_max_sequence)

lemma timer_value_mono: "rt_clock_difference s \<le> rt_clock_difference t \<Longrightarrow> timer_value now s \<le> timer_value now t"
  unfolding word_le_def timer_value_exact by (rule max.mono min.mono | simp)+

lemma counts_fields [simp]:
  "same_ring s (count_timer_replay s)" "same_ring s (count_timer_duplicate s)" "same_ring s (note_refused reason s)"
  "same_ring s (count_adjustment s)" "same_ring s s"
  "timer_inv (count_timer_replay s) = timer_inv s" "timer_inv (count_timer_duplicate s) = timer_inv s"
  "timer_inv (note_refused reason s) = timer_inv s"
  "rt_clock_difference (count_timer_replay s) = rt_clock_difference s"
  "rt_clock_difference (count_timer_duplicate s) = rt_clock_difference s"
  "rt_clock_difference (note_refused reason s) = rt_clock_difference s"
  by (cases reason; simp add: count_timer_replay_def count_timer_duplicate_def note_refused_def count_adjustment_def
    same_ring_def timer_inv_def ring_ok_def)+

lemma reschedule_inv: "timer_inv s \<Longrightarrow> timer_inv (reschedule now u r s)"
  by (simp add: timer_inv_def ring_ok_def)

lemma finish_inv: "timer_inv s \<Longrightarrow> timer_inv (finish_synchronisation now r s)"
  by (simp add: finish_synchronisation_def timer_inv_def ring_ok_def)

lemma advance_inv: "timer_inv s \<Longrightarrow> timer_inv (advance l r s)"
  using same_ring_recent [of s "advance l r s"] by (simp add: timer_inv_def)

lemma remember_inv: "timer_inv s \<Longrightarrow> timer_inv (remember f s)"
  using recent_remember(2) [of s f] by (simp add: timer_inv_def) (simp add: remember_def)

lemma keeper_inv: "timer_inv (s\<lparr> rt_timekeeper := k \<rparr>) = timer_inv s" "timer_inv (s\<lparr> rt_clock_difference := d \<rparr>) = timer_inv s"
  "timer_inv (s\<lparr> rt_fallback_tag := j \<rparr>) = timer_inv s" "timer_inv (s\<lparr> rt_counters := c \<rparr>) = timer_inv s"
  "timer_inv (count_adjustment s) = timer_inv s"
  by (simp_all add: timer_inv_def ring_ok_def count_adjustment_def)

lemma on_timer_notify_inv: "timer_inv s \<Longrightarrow> timer_inv (on_timer_notify now f r s)"
  by (simp add: on_timer_notify_def Let_def keeper_inv advance_inv finish_inv reschedule_inv)

lemma on_wrapper_inv: "timer_inv s \<Longrightarrow> timer_inv (snd (on_wrapper now f r s))"
  by (simp add: on_wrapper_def Let_def keeper_inv advance_inv reschedule_inv remember_inv)

lemma begin_sync_inv: "timer_inv s \<Longrightarrow> timer_inv (snd (begin_synchronisation now tag s))"
  by (cases tag) (auto simp: begin_synchronisation_def random_tag_def Let_def timer_inv_def ring_ok_def)

lemma take_due_inv: "timer_inv s \<Longrightarrow> timer_inv (snd (take_due_notify now r1 tag r2 s))"
  by (cases tag) (simp_all add: take_due_notify_def random_tag_def Let_def keeper_inv finish_inv reschedule_inv
    split: option.split)

lemma reset_timer_inv: "timer_inv s \<Longrightarrow> timer_inv (reset_timer s)"
  by (auto simp: reset_timer_def timer_inv_def ring_ok_def)

lemma timer_after_inv: "timer_inv s \<Longrightarrow> timer_inv (timer_after ev s)"
  by (cases ev) (simp_all add: begin_sync_inv on_timer_notify_inv on_wrapper_inv on_outgoing_wrapper_def Let_def reschedule_inv
    take_due_inv remember_inv reset_timer_inv)

lemma new_timer_inv: "timer_inv (new_routing_timer latency serial entries)"
  using unsigned_less [of latency] by (auto simp: new_routing_timer_def timer_inv_def ring_ok_def)

lemma same_ring_steps:
  "same_ring s (finish_synchronisation now r s)" "same_ring s (snd (begin_synchronisation now tag s))"
  "same_ring s (on_timer_notify now f r s)" "same_ring s (snd (on_outgoing_wrapper now r s))"
  "same_ring s (snd (take_due_notify now r1 tag r2 s))"
proof -
  show fin: "same_ring s (finish_synchronisation now r s)" for s r
    by (simp add: finish_synchronisation_def same_ring_def)
  show "same_ring s (snd (begin_synchronisation now tag s))"
    by (cases tag) (simp_all add: begin_synchronisation_def random_tag_def Let_def same_ring_def)
  show "same_ring s (on_timer_notify now f r s)"
    by (simp add: on_timer_notify_def Let_def finish_synchronisation_def same_ring_def advance_def count_adjustment_def)
  show "same_ring s (snd (on_outgoing_wrapper now r s))"
    by (simp add: on_outgoing_wrapper_def Let_def same_ring_def)
  show "same_ring s (snd (take_due_notify now r1 tag r2 s))"
    by (cases tag) (simp_all add: take_due_notify_def random_tag_def Let_def finish_synchronisation_def same_ring_def
      split: option.split)
qed

lemma on_wrapper_ring:
  "fst (on_wrapper now f r s) = Verdict_accepted \<Longrightarrow> \<exists>t. same_ring s t \<and> snd (on_wrapper now f r s) = remember f t"
  "fst (on_wrapper now f r s) \<noteq> Verdict_accepted \<Longrightarrow> same_ring s (snd (on_wrapper now f r s))"
proof -
  let ?l = "sint (timer_value now s)" and ?r = "sint (rf_timer_value f)"
  let ?u = "if ?r > ?l - rt_sync_latency_ms s \<and> rt_scheduled_update s = None then reschedule now None r s else s"
  assume "fst (on_wrapper now f r s) = Verdict_accepted"
  then have "snd (on_wrapper now f r s) = remember f (advance ?l ?r ?u)"
    by (auto simp: on_wrapper_def Let_def split: if_splits)
  moreover have "same_ring s (advance ?l ?r ?u)" by (simp add: same_ring_def advance_def count_adjustment_def)
  ultimately show "\<exists>t. same_ring s t \<and> snd (on_wrapper now f r s) = remember f t" by blast
next
  assume "fst (on_wrapper now f r s) \<noteq> Verdict_accepted"
  then show "same_ring s (snd (on_wrapper now f r s))"
    by (auto simp: on_wrapper_def Let_def same_ring_def count_timer_duplicate_def count_timer_replay_def split: if_splits)
qed

lemma recent_step:
  assumes "ring_ok s" "ev \<noteq> Te_reset"
  shows "recent (timer_after ev s) = take (length (rt_cache s)) (rev (frames_of ev s) @ recent s) \<and>
    length (rt_cache (timer_after ev s)) = length (rt_cache s) \<and> ring_ok (timer_after ev s)"
proof -
  have full: "take (length (rt_cache s)) (recent s) = recent s"
    using assms(1) by (simp add: recent_def ring_ok_def)
  have same: ?thesis if "same_ring s (timer_after ev s)" "frames_of ev s = []"
    using same_ring_recent [OF that(1)] that(2) assms(1) full by simp
  have rem: "recent (remember f t) = take (length (rt_cache s)) (f # recent s) \<and>
      length (rt_cache (remember f t)) = length (rt_cache s) \<and> ring_ok (remember f t)" if "same_ring s t" for f t
    using recent_remember [of t f] same_ring_recent [OF that] assms(1) by (simp add: remember_def)
  show ?thesis
  proof (cases ev)
    case (Te_wrapper now f r)
    show ?thesis
    proof (cases "fst (on_wrapper now f r s) = Verdict_accepted")
      case True
      then show ?thesis using on_wrapper_ring(1) [OF True] rem Te_wrapper by auto
    next
      case False
      then show ?thesis using on_wrapper_ring(2) [OF False] same Te_wrapper by simp
    qed
  next
    case (Te_sent f)
    then show ?thesis using rem [of s f] by simp
  qed (use assms(2) same in \<open>simp_all add: same_ring_steps\<close>)
qed

lemma take_append_take: "take n (xs @ take n ys) = take n (xs @ ys)"
  by simp

lemma recent_run:
  assumes "ring_ok s" "Te_reset \<notin> set evs"
  shows "recent (timer_run evs s) = take (length (rt_cache s)) (rev (frames_run evs s) @ recent s) \<and> ring_ok (timer_run evs s)"
  using assms
proof (induction evs arbitrary: s)
  case Nil
  then show ?case by (simp add: recent_def ring_ok_def)
next
  case (Cons ev evs)
  have one: "recent (timer_after ev s) = take (length (rt_cache s)) (rev (frames_of ev s) @ recent s)"
      "length (rt_cache (timer_after ev s)) = length (rt_cache s)" "ring_ok (timer_after ev s)"
    using recent_step [OF Cons.prems(1), of ev] Cons.prems(2) by auto
  have "recent (timer_run evs (timer_after ev s)) =
      take (length (rt_cache s)) (rev (frames_run evs (timer_after ev s)) @ recent (timer_after ev s)) \<and>
      ring_ok (timer_run evs (timer_after ev s))"
    using Cons.IH [OF one(3)] Cons.prems(2) one(2) by simp
  then show ?case unfolding one(1) take_append_take by (simp only: timer_run.simps frames_run.simps rev_append append_assoc)
qed

lemma clock_forward:
  assumes "\<not> sets_clock ev s"
  shows "rt_clock_difference s \<le> rt_clock_difference (timer_after ev s)"
proof (cases ev)
  case (Te_begin now tag)
  then show ?thesis by (cases tag) (simp_all add: begin_synchronisation_def random_tag_def Let_def)
next
  case (Te_notify now f r)
  then have "\<not> (case rt_synchronisation_tag s of None \<Rightarrow> False
      | Some tag \<Rightarrow> rf_serial_number f = rt_serial_number s \<and> rf_message_tag f = tag)"
    using assms by (auto simp: answers_request_def split: option.splits)
  then show ?thesis using Te_notify by (simp add: on_timer_notify_def Let_def)
next
  case (Te_take now r1 tag r2)
  then show ?thesis by (cases tag) (simp_all add: take_due_notify_def random_tag_def Let_def finish_synchronisation_def
    split: option.split)
qed (use assms in \<open>auto simp: on_wrapper_def on_outgoing_wrapper_def remember_def Let_def\<close>)

text \<open>The signed sums of the timer stay within 64 bits\<close>

lemma sint_instant:
  assumes "instant_in_range now"
  shows "sint now = uint now" "0 \<le> sint now" "sint now \<le> 2 ^ 63 - 2 ^ 48"
proof -
  have "uint now < 2 ^ 63" using assms unfolding instant_in_range_def by (rule le_less_trans) simp
  moreover have "- (2 ^ 63) \<le> uint now" by (rule order_trans [of _ 0]) simp_all
  ultimately have "signed_take_bit 63 (uint now) = uint now" by (intro signed_take_bit_int_eq_self)
  moreover have "LENGTH(64) - Suc 0 = 63" by simp
  ultimately show e: "sint now = uint now" by (simp only: sint_uint)
  show "0 \<le> sint now" "sint now \<le> 2 ^ 63 - 2 ^ 48" unfolding e using assms by (simp_all add: instant_in_range_def)
qed

lemma sint_received:
  assumes "(w :: u64) \<le> max_sequence"
  shows "0 \<le> sint w" "sint w \<le> uint max_sequence"
  using assms by (simp_all add: sint_timer_small word_le_def)

lemma advanced_difference:
  fixes n d r l :: int
  assumes "0 \<le> n" "n \<le> L" "- L \<le> d" "d \<le> M" "0 \<le> r" "r \<le> M" "l = max 0 (min M (n + d))" "0 \<le> M"
  shows "- L \<le> d + max 0 (r - l)" "d + max 0 (r - l) \<le> M" "0 \<le> l" "l \<le> M"
  using assms by (auto simp: max_def min_def)

lemma timer_after_clock:
  "rt_clock_difference (timer_after (Te_notify now f r) s) =
     (if answers_request f s then sint (rf_timer_value f) - sint now
      else if sint (rf_timer_value f) > sint (timer_value now s) - rt_sync_latency_ms s
      then rt_clock_difference s + max 0 (sint (rf_timer_value f) - sint (timer_value now s)) else rt_clock_difference s)"
  "rt_clock_difference (timer_after (Te_wrapper now f r) s) =
     (if fst (on_wrapper now f r s) = Verdict_accepted
      then rt_clock_difference s + max 0 (sint (rf_timer_value f) - sint (timer_value now s)) else rt_clock_difference s)"
  "rt_clock_difference (timer_after (Te_begin now tag) s) = rt_clock_difference s"
  "rt_clock_difference (timer_after (Te_outgoing now r) s) = rt_clock_difference s"
  "rt_clock_difference (timer_after (Te_take now r1 tag r2) s) = rt_clock_difference s"
  "rt_clock_difference (timer_after (Te_refused reason) s) = rt_clock_difference s"
  "rt_clock_difference (timer_after (Te_sent f) s) = rt_clock_difference s"
  "rt_clock_difference (timer_after Te_reset s) = 0"
proof -
  show "rt_clock_difference (timer_after (Te_notify now f r) s) =
     (if answers_request f s then sint (rf_timer_value f) - sint now
      else if sint (rf_timer_value f) > sint (timer_value now s) - rt_sync_latency_ms s
      then rt_clock_difference s + max 0 (sint (rf_timer_value f) - sint (timer_value now s)) else rt_clock_difference s)"
    by (auto simp: on_timer_notify_def answers_request_def finish_synchronisation_def count_adjustment_def Let_def
      split: option.splits)
  show "rt_clock_difference (timer_after (Te_wrapper now f r) s) =
     (if fst (on_wrapper now f r s) = Verdict_accepted
      then rt_clock_difference s + max 0 (sint (rf_timer_value f) - sint (timer_value now s)) else rt_clock_difference s)"
    by (simp add: on_wrapper_def remember_def Let_def)
  show "rt_clock_difference (timer_after (Te_begin now tag) s) = rt_clock_difference s"
    by (cases tag) (simp_all add: begin_synchronisation_def random_tag_def Let_def)
  show "rt_clock_difference (timer_after (Te_take now r1 tag r2) s) = rt_clock_difference s"
    by (cases tag) (simp_all add: take_due_notify_def random_tag_def Let_def finish_synchronisation_def split: option.split)
qed (simp_all add: on_outgoing_wrapper_def remember_def reset_timer_def Let_def)

lemma latencies_small:
  assumes "timer_inv s"
  shows "0 \<le> rt_latency_ms s" "rt_latency_ms s < 65536" "0 \<le> rt_sync_latency_ms s" "rt_sync_latency_ms s \<le> 6554"
  using assms by (auto simp: timer_inv_def)

lemma delay_sums_fit: "timer_inv s \<Longrightarrow> list_all fits_int64 (delay_sums s)"
  using latencies_small [of s]
  by (simp add: delay_sums_def Let_def fits_int64_def keeper_update_notify_min_ms_def keeper_periodic_notify_min_ms_def)

lemma clock_sums_fit:
  assumes "timer_inv s" "clock_in_range s" "instant_in_range now" "w \<le> max_sequence"
  shows "list_all fits_int64 (clock_sums now w s)" "- (2 ^ 63 - 2 ^ 48) \<le> rt_clock_difference s + max 0 (sint w - sint (timer_value now s))"
    "rt_clock_difference s + max 0 (sint w - sint (timer_value now s)) \<le> uint max_sequence"
proof -
  note n = sint_instant(2,3) [OF assms(3)] and w = sint_received [OF assms(4)]
  have d: "- (2 ^ 63 - 2 ^ 48) \<le> rt_clock_difference s" "rt_clock_difference s \<le> uint max_sequence"
    using assms(2) by (simp_all add: clock_in_range_def)
  have l: "sint (timer_value now s) = max 0 (min (uint max_sequence) (sint now + rt_clock_difference s))"
    by (simp add: sint_timer_value timer_value_exact)
  note b = advanced_difference [OF n d w l]
  show b1: "- (2 ^ 63 - 2 ^ 48) \<le> rt_clock_difference s + max 0 (sint w - sint (timer_value now s))"
    and b2: "rt_clock_difference s + max 0 (sint w - sint (timer_value now s)) \<le> uint max_sequence"
    using b(1,2) by simp_all
  have "0 \<le> sint (timer_value now s)" "sint (timer_value now s) \<le> uint max_sequence" using b(3,4) by simp_all
  then show "list_all fits_int64 (clock_sums now w s)"
    using n d w b1 b2 latencies_small [OF assms(1)] by (simp add: clock_sums_def Let_def fits_int64_def uint_max_sequence)
qed

lemma timer_event_fits:
  assumes "timer_inv s" "clock_in_range s" "event_in_range ev"
  shows "list_all fits_int64 (event_sums ev s) \<and> clock_in_range (timer_after ev s)"
proof (cases ev)
  case (Te_notify now f r)
  then have r: "instant_in_range now" "rf_timer_value f \<le> max_sequence" using assms(3) by simp_all
  have "fits_int64 (sint (rf_timer_value f) - sint now)"
    using sint_instant(2,3) [OF r(1)] sint_received [OF r(2)] by (simp add: fits_int64_def uint_max_sequence)
  moreover have "- (2 ^ 63 - 2 ^ 48) \<le> sint (rf_timer_value f) - sint now" "sint (rf_timer_value f) - sint now \<le> uint max_sequence"
    using sint_instant(2,3) [OF r(1)] sint_received [OF r(2)] by simp_all
  ultimately show ?thesis
    using Te_notify clock_sums_fit [OF assms(1,2) r] delay_sums_fit [OF assms(1)] assms(2)
    by (simp add: clock_in_range_def timer_after_clock del: timer_after.simps)
next
  case (Te_wrapper now f r)
  then have r: "instant_in_range now" "rf_timer_value f \<le> max_sequence" using assms(3) by simp_all
  show ?thesis
    using Te_wrapper clock_sums_fit [OF assms(1,2) r] delay_sums_fit [OF assms(1)] assms(2)
    by (simp add: clock_in_range_def timer_after_clock del: timer_after.simps)
next
  case (Te_begin now tag)
  then show ?thesis using assms(2) latencies_small [OF assms(1)]
    by (simp add: clock_in_range_def timer_after_clock fits_int64_def keeper_update_notify_min_ms_def del: timer_after.simps)
next
  case (Te_outgoing now r)
  then have "instant_in_range now" using assms(3) by simp
  then show ?thesis using Te_outgoing assms(2) sint_instant(2,3) [of now] delay_sums_fit [OF assms(1)]
    by (simp add: clock_in_range_def timer_after_clock fits_int64_def uint_max_sequence del: timer_after.simps)
next
  case (Te_take now r1 tag r2)
  then show ?thesis using assms(2) delay_sums_fit [OF assms(1)]
    by (simp add: clock_in_range_def timer_after_clock del: timer_after.simps)
qed (use assms(2) in \<open>simp_all add: clock_in_range_def timer_after_clock uint_max_sequence del: timer_after.simps\<close>)

lemma timer_run_fits:
  "list_all event_in_range evs \<Longrightarrow> timer_inv s \<Longrightarrow> clock_in_range s \<Longrightarrow>
   timer_inv (timer_run evs s) \<and> clock_in_range (timer_run evs s)"
  by (induction evs arbitrary: s) (simp_all add: timer_after_inv timer_event_fits)

lemma new_timer_clock: "clock_in_range (new_routing_timer latency serial entries)"
  by (simp add: clock_in_range_def new_routing_timer_def uint_max_sequence)

interpretation routing_timer: state_machine "\<lambda>s. \<exists>latency serial entries. s = new_routing_timer latency serial entries"
  timer_step timer_inv
  by unfold_locales (auto elim!: timer_step.cases intro: new_timer_inv timer_after_inv)

subsection \<open>Properties\<close>

text \<open>
  C17: the ring of remembered frames is the list of the last frames.  For a new timer and any run of its
  operations without a reset, a frame is refused as a duplicate exactly when it is among the last
  frames that were accepted or sent, as many as the cache has entries; so a replay is dropped as long
  as fewer frames than that followed it.
\<close>

theorem duplicate_cache_exact:
  assumes "Te_reset \<notin> set evs"
  shows "remembered f (timer_run evs (new_routing_timer latency serial entries)) \<longleftrightarrow>
    f \<in> set (take (max (unat entries) 1) (rev (frames_run evs (new_routing_timer latency serial entries))))"
proof -
  let ?s = "new_routing_timer latency serial entries"
  have ok: "ring_ok ?s" using new_timer_inv by (simp add: timer_inv_def)
  have "recent ?s = []" "length (rt_cache ?s) = max (unat entries) 1" by (simp_all add: recent_def new_routing_timer_def)
  with recent_run [OF ok assms] show ?thesis by (simp add: remembered_recent)
qed

theorem duplicate_cache_exact_witness:
  "remembered sample_frame (timer_run [Te_sent sample_frame] (new_routing_timer 1000 [1, 2, 3, 4, 5, 6] 2))"
  using duplicate_cache_exact [of "[Te_sent sample_frame]" sample_frame 1000 "[1, 2, 3, 4, 5, 6]" 2] by simp

text \<open>
  C18: when a wrapper is accepted.  It is, exactly when the timer has synchronised, the frame is not
  remembered and its timer value lies within the latency tolerance of the local timer.  It is then
  remembered and the local timer is at least the value it carried; a refused wrapper moves neither
  the clock nor the ring, so a replay cannot disturb them.
\<close>

theorem wrapper_acceptance_exact:
  assumes "timer_inv s" "on_wrapper now f r s = (v, t)" "rf_timer_value f \<le> max_sequence" "0 \<le> sint now + rt_clock_difference s"
  shows "(v = Verdict_accepted \<longleftrightarrow> rt_synchronised s \<and> \<not> remembered f s \<and>
       uint (rf_timer_value f) > uint (timer_value now s) - rt_latency_ms s) \<and>
    (if v = Verdict_accepted then remembered f t \<and> rf_timer_value f \<le> timer_value now t \<and> timer_value now s \<le> timer_value now t
     else rt_clock_difference t = rt_clock_difference s \<and> recent t = recent s)"
proof -
  have rc: "sint (rf_timer_value f) = uint (rf_timer_value f)" "sint (timer_value now s) = uint (timer_value now s)"
    using sint_timer_small [OF assms(3)] sint_timer_value by auto
  have ok: "ring_ok s" using assms(1) by (simp add: timer_inv_def)
  have iff: "v = Verdict_accepted \<longleftrightarrow> rt_synchronised s \<and> \<not> remembered f s \<and>
      uint (rf_timer_value f) > uint (timer_value now s) - rt_latency_ms s"
    using assms(2) by (auto simp: on_wrapper_def Let_def rc split: if_splits)
  show ?thesis
  proof (cases "v = Verdict_accepted")
    case True
    then obtain t0 where t0: "same_ring s t0" "t = remember f t0" using on_wrapper_ring(1) [of now f r s] assms(2) by auto
    then have "recent t = take (length (rt_cache t0)) (f # recent t0)" "ring_ok t" "0 < length (rt_cache t0)"
      using recent_remember [of t0 f] same_ring_recent [OF t0(1)] ok by (auto simp: ring_ok_def)
    then have rem: "remembered f t" by (cases "length (rt_cache t0)") (simp_all add: remembered_recent)
    have diff: "rt_clock_difference t = rt_clock_difference s + max 0 (uint (rf_timer_value f) - uint (timer_value now s))"
      using assms(2) True by (auto simp: on_wrapper_def Let_def rc remember_def split: if_splits)
    have "uint (rf_timer_value f) \<le> uint max_sequence" using assms(3) by (simp add: word_le_def)
    then have "uint (rf_timer_value f) \<le> uint (timer_value now t)"
      using assms(4) unfolding timer_value_exact diff by linarith
    then have "rf_timer_value f \<le> timer_value now t" by (simp add: word_le_def)
    moreover have "timer_value now s \<le> timer_value now t" using diff by (intro timer_value_mono) simp
    ultimately show ?thesis using iff rem True by simp
  next
    case False
    have "recent t = recent s" using on_wrapper_ring(2) [of now f r s] False assms(2) same_ring_recent by auto
    moreover have "rt_clock_difference t = rt_clock_difference s"
      using assms(2) False by (auto simp: on_wrapper_def Let_def split: if_splits)
    ultimately show ?thesis using iff False by simp
  qed
qed

theorem wrapper_acceptance_exact_witness:
  "\<exists>t. on_wrapper 5 sample_frame None (new_routing_timer 1000 [1, 2, 3, 4, 5, 6] 2) = (Verdict_unsynchronised, t) \<and> recent t = []"
proof -
  let ?s = "new_routing_timer 1000 [1, 2, 3, 4, 5, 6] 2"
  obtain t where o: "on_wrapper 5 sample_frame None ?s = (Verdict_unsynchronised, t)"
    by (simp add: on_wrapper_def new_routing_timer_def)
  have "rf_timer_value sample_frame \<le> max_sequence" by (simp add: sample_frame_def max_sequence_def)
  moreover have "0 \<le> sint (5 :: u64) + rt_clock_difference ?s" by (simp add: new_routing_timer_def)
  ultimately show ?thesis using wrapper_acceptance_exact [OF new_timer_inv o] o by (simp add: recent_def new_routing_timer_def)
qed

text \<open>
  C19: the timer never goes back, and its arithmetic never overflows.  After any run of a new timer whose
  instants are below \<open>2 ^ 63 - 2 ^ 48\<close> ms and whose timer values have 48 bits, every signed sum the next
  operation calculates fits in 64 bits, as does the sum behind the timer value at any such instant.
  Except for a reset and for the notification that answers the router's own synchronisation request, the
  operation lowers the timer value at no such instant, so a wrapper that was too old stays too old.
\<close>

theorem timer_never_back:
  assumes "list_all event_in_range evs" "event_in_range ev" "instant_in_range now"
    and "s = timer_run evs (new_routing_timer latency serial entries)"
  shows "list_all fits_int64 (event_sums ev s) \<and>
    fits_int64 (sint now + rt_clock_difference s) \<and> fits_int64 (sint now + rt_clock_difference (timer_after ev s)) \<and>
    (\<not> sets_clock ev s \<longrightarrow> timer_value now s \<le> timer_value now (timer_after ev s))"
proof -
  have s: "timer_inv s" "clock_in_range s"
    using timer_run_fits [OF assms(1) new_timer_inv new_timer_clock] assms(4) by simp_all
  note t = timer_event_fits [OF s assms(2)]
  have "fits_int64 (sint now + rt_clock_difference u)" if "clock_in_range u" for u
    using that sint_instant(2,3) [OF assms(3)] by (simp add: clock_in_range_def fits_int64_def uint_max_sequence)
  then show ?thesis using s(2) t timer_value_mono [OF clock_forward] by blast
qed

theorem timer_never_back_witness:
  "timer_value 7 (new_routing_timer 1000 [1, 2, 3, 4, 5, 6] 2) \<le>
     timer_value 7 (timer_after (Te_notify 5 sample_frame None) (new_routing_timer 1000 [1, 2, 3, 4, 5, 6] 2)) \<and>
   list_all fits_int64 (event_sums (Te_notify 5 sample_frame None) (new_routing_timer 1000 [1, 2, 3, 4, 5, 6] 2))"
proof -
  have "\<not> sets_clock (Te_notify 5 sample_frame None) (new_routing_timer 1000 [1, 2, 3, 4, 5, 6] 2)"
    by (simp add: answers_request_def new_routing_timer_def)
  then show ?thesis
    using timer_never_back [of "[]" "Te_notify 5 sample_frame None" 7 "new_routing_timer 1000 [1, 2, 3, 4, 5, 6] 2"
        1000 "[1, 2, 3, 4, 5, 6]" 2]
    by (simp add: instant_in_range_def sample_frame_def max_sequence_def)
qed

text \<open>
  C20: when the next TIMER_NOTIFY is sent.  The delay that is drawn lies within the bounds for the role
  of the router, whatever the entropy source returns; the bounds of a follower begin no earlier than
  those of a timekeeper end, and strictly later exactly when the latency tolerance is at least 5 ms,
  which is when a live timekeeper is sure to speak first.
\<close>

theorem notify_delay_bounds:
  assumes "timer_inv s"
  shows "(\<exists>d. rt_notify_deadline_ms (reschedule now u r s) = Some (now + d) \<and>
      fst (delay_bounds (u \<noteq> None) s) \<le> uint d \<and> uint d \<le> snd (delay_bounds (u \<noteq> None) s)) \<and>
    snd (delay_bounds b (s\<lparr> rt_timekeeper := True \<rparr>)) \<le> fst (delay_bounds b (s\<lparr> rt_timekeeper := False \<rparr>)) \<and>
    (snd (delay_bounds b (s\<lparr> rt_timekeeper := True \<rparr>)) < fst (delay_bounds b (s\<lparr> rt_timekeeper := False \<rparr>)) \<longleftrightarrow>
       5 \<le> rt_latency_ms s)"
proof -
  have l: "0 \<le> rt_sync_latency_ms s" "rt_sync_latency_ms s \<le> 6554" "0 < rt_sync_latency_ms s \<longleftrightarrow> 5 \<le> rt_latency_ms s"
    using assms by (auto simp: timer_inv_def)
  obtain lo hi where b: "delay_bounds (u \<noteq> None) s = (lo, hi)" by fastforce
  have "0 \<le> lo" "lo \<le> hi" "hi < 2 ^ 32"
    using b l by (auto simp: delay_bounds_def keeper_periodic_notify_min_ms_def keeper_update_notify_min_ms_def Let_def
      split: if_splits)
  then have "\<exists>d. rt_notify_deadline_ms (reschedule now u r s) = Some (now + d) \<and>
      fst (delay_bounds (u \<noteq> None) s) \<le> uint d \<and> uint d \<le> snd (delay_bounds (u \<noteq> None) s)"
    using b random_between_bounds [of lo hi r] by (auto simp: reschedule_def)
  then show ?thesis using l by (simp add: delay_bounds_def Let_def)
qed

theorem notify_delay_bounds_witness:
  "snd (delay_bounds True ((new_routing_timer 1000 [1, 2, 3, 4, 5, 6] 2)\<lparr> rt_timekeeper := True \<rparr>)) <
   fst (delay_bounds True ((new_routing_timer 1000 [1, 2, 3, 4, 5, 6] 2)\<lparr> rt_timekeeper := False \<rparr>))"
  using notify_delay_bounds [OF new_timer_inv [of 1000 "[1, 2, 3, 4, 5, 6]" 2], of 0 None None True]
  by (simp add: new_routing_timer_def)

text \<open>
  Synchronisation ends.  A router that has asked for the time and is still waiting for the answer
  is not synchronised, and becomes so at the first poll at or after its deadline: when nobody answered,
  it keeps the time itself, and a notification is scheduled.
\<close>

theorem synchronisation_ends:
  assumes "timer_inv s" "rt_synchronisation_tag s \<noteq> None" "rt_synchronisation_deadline_ms s \<le> now"
    and "take_due_notify now r1 tag r2 s = (q, t)"
  shows "\<not> rt_synchronised s \<and> rt_synchronised t \<and> rt_timekeeper t \<and> rt_synchronisation_tag t = None \<and>
    rt_notify_deadline_ms t \<noteq> None"
proof -
  have main: "\<not> rt_synchronised s \<and> rt_synchronised t \<and> rt_timekeeper t \<and> rt_synchronisation_tag t = None"
    using assms
    by (cases tag) (auto simp: take_due_notify_def finish_synchronisation_def random_tag_def timer_inv_def Let_def
      split: if_splits option.splits)
  have "timer_inv t" using take_due_inv [OF assms(1), of now r1 tag r2] assms(4) by simp
  with main show ?thesis by (auto simp: timer_inv_def)
qed

theorem synchronisation_ends_witness:
  "\<exists>s t q. s = snd (begin_synchronisation 5 (Some [7, 8]) (new_routing_timer 1000 [1, 2, 3, 4, 5, 6] 2)) \<and>
     take_due_notify 10000 None None None s = (q, t) \<and> rt_synchronised t \<and> rt_timekeeper t"
proof -
  let ?s = "snd (begin_synchronisation 5 (Some [7, 8]) (new_routing_timer 1000 [1, 2, 3, 4, 5, 6] 2))"
  obtain q t where o: "take_due_notify 10000 None None None ?s = (q, t)" by fastforce
  have "timer_inv ?s" using begin_sync_inv [OF new_timer_inv] .
  moreover have "rt_synchronisation_tag ?s \<noteq> None" "rt_synchronisation_deadline_ms ?s \<le> 10000"
    by (simp_all add: begin_synchronisation_def new_routing_timer_def random_tag_def keeper_update_notify_min_ms_def Let_def)
  ultimately show ?thesis using synchronisation_ends [of ?s 10000 None None None q t] o by blast
qed

end
