(* ===== verification/Floating.thy ===== *)
theory Floating
  imports Complex_Main
begin

text \<open>
  The floating-point arithmetic the C++ sources use (\<open>float\<close> and \<open>double\<close>, IEEE 754 binary32 and
  binary64, rounding to nearest with ties to even).  A finite value is the rational number it
  denotes; \<open>float_round p u x\<close> is the value with \<open>p\<close> significant bits, and no finer than the
  smallest positive one \<open>u\<close>, that is nearest to \<open>x\<close>.  The sign of zero plays no part in the
  modelled code, and none of its values comes near the largest finite one.
\<close>

datatype ieee = Finite rat | Infinite bool | Nan

definition round_even :: "rat \<Rightarrow> int" where
  "round_even x =
     (let f = \<lfloor>x\<rfloor>; r = x - of_int f
      in if r < 1 / 2 then f else if 1 / 2 < r then f + 1 else if even f then f else f + 1)"

function ulp :: "nat \<Rightarrow> rat \<Rightarrow> rat \<Rightarrow> rat" where
  "ulp p u x = (if u \<le> 0 \<or> x < 2 ^ p * u then u else ulp p (2 * u) x)"
  by auto

lemma floor_half_less:
  assumes "1 \<le> (y :: rat)"
  shows "\<lfloor>y / 2\<rfloor> < \<lfloor>y\<rfloor>"
proof (cases "y < 2")
  case True
  then have "\<lfloor>y / 2\<rfloor> = 0" using assms by (simp add: floor_eq_iff)
  with assms show ?thesis by simp
next
  case False
  then have "of_int (\<lfloor>y / 2\<rfloor> + 1) \<le> y" using of_int_floor_le [of "y / 2"] by simp
  then show ?thesis by (simp add: le_floor_iff flip: zless_iff_Suc_zadd add1_zle_eq)
qed

lemma ulp_steps_end:
  assumes "\<not> u \<le> 0" "\<not> x < 2 ^ p * (u :: rat)"
  shows "nat \<lfloor>x / (2 * u)\<rfloor> < nat \<lfloor>x / u\<rfloor>"
proof -
  have "1 * u \<le> 2 ^ p * u" using assms(1) by (intro mult_right_mono) simp_all
  with assms have "u \<le> x" by linarith
  with assms have "1 \<le> x / u" by (simp add: le_divide_eq)
  with floor_half_less [OF this] show ?thesis by (simp add: field_simps)
qed

termination ulp
  by (relation "measure (\<lambda>(p, u, x). nat \<lfloor>x / u\<rfloor>)") (use ulp_steps_end in auto)

declare ulp.simps [simp del]

definition float_round :: "nat \<Rightarrow> rat \<Rightarrow> rat \<Rightarrow> rat" where
  "float_round p u x = (let s = ulp p u \<bar>x\<bar> in of_int (round_even (x / s)) * s)"

definition single_round :: "rat \<Rightarrow> rat" where
  "single_round = float_round 24 (1 / 2 ^ 149)"

definition double_round :: "rat \<Rightarrow> rat" where
  "double_round = float_round 53 (1 / 2 ^ 1074)"

fun at_least :: "ieee \<Rightarrow> rat \<Rightarrow> bool" where
  "at_least (Finite x) y = (y \<le> x)"
| "at_least (Infinite negative) y = (\<not> negative)"
| "at_least Nan y = False"

fun at_most :: "ieee \<Rightarrow> rat \<Rightarrow> bool" where
  "at_most (Finite x) y = (x \<le> y)"
| "at_most (Infinite negative) y = negative"
| "at_most Nan y = False"

text \<open>The value of a finite number; only asked of numbers that passed a range test.\<close>

fun finite_value :: "ieee \<Rightarrow> rat" where
  "finite_value (Finite x) = x"
| "finite_value (Infinite negative) = 0"
| "finite_value Nan = 0"

text \<open>A conversion to an integer type truncates towards zero.\<close>

definition to_integer :: "rat \<Rightarrow> int" where
  "to_integer x = (if 0 \<le> x then \<lfloor>x\<rfloor> else \<lceil>x\<rceil>)"

subsection \<open>Lemmas\<close>

lemma round_even_near: "\<bar>of_int (round_even x) - x\<bar> \<le> 1 / 2"
proof -
  have "of_int \<lfloor>x\<rfloor> \<le> x" "x < of_int \<lfloor>x\<rfloor> + 1" by linarith+
  then show ?thesis by (simp add: round_even_def Let_def abs_le_iff)
qed

lemma round_even_mono:
  assumes "x \<le> y"
  shows "round_even x \<le> round_even y"
proof (cases "\<lfloor>x\<rfloor> = \<lfloor>y\<rfloor>")
  case True
  then show ?thesis using assms by (auto simp: round_even_def Let_def)
next
  case False
  then have "\<lfloor>x\<rfloor> + 1 \<le> \<lfloor>y\<rfloor>" using assms floor_mono [OF assms] by linarith
  then show ?thesis by (auto simp: round_even_def Let_def)
qed

lemma round_even_of_int [simp]: "round_even (of_int k) = k"
  by (simp add: round_even_def)

lemma ulp_least: "0 < u \<Longrightarrow> u \<le> ulp p u x"
proof (induction p u x rule: ulp.induct)
  case (1 p u x)
  then show ?case by (subst ulp.simps) (cases "x < 2 ^ p * u", auto)
qed

lemma ulp_covers: "0 < u \<Longrightarrow> x < 2 ^ p * ulp p u x"
proof (induction p u x rule: ulp.induct)
  case (1 p u x)
  then show ?case by (subst ulp.simps) (cases "x < 2 ^ p * u", auto)
qed

lemma ulp_fine: "0 < u \<Longrightarrow> ulp p u x = u \<or> 2 ^ p * ulp p u x \<le> 2 * x"
proof (induction p u x rule: ulp.induct)
  case (1 p u x)
  show ?case
  proof (cases "x < 2 ^ p * u")
    case True
    then show ?thesis by (subst ulp.simps) simp
  next
    case False
    then have step: "ulp p u x = ulp p (2 * u) x" using 1(2) by (subst ulp.simps) simp
    have "ulp p (2 * u) x = 2 * u \<or> 2 ^ p * ulp p (2 * u) x \<le> 2 * x"
      using 1 False by auto
    with False step show ?thesis by auto
  qed
qed

lemma float_round_near:
  assumes "0 < u"
  shows "\<bar>float_round p u x - x\<bar> \<le> \<bar>x\<bar> / 2 ^ p + u / 2"
proof -
  let ?s = "ulp p u \<bar>x\<bar>"
  have s: "0 < ?s" using assms ulp_least [OF assms] by (rule less_le_trans)
  have "float_round p u x - x = (of_int (round_even (x / ?s)) - x / ?s) * ?s"
    using s by (simp add: float_round_def Let_def field_simps)
  then have "\<bar>float_round p u x - x\<bar> = \<bar>of_int (round_even (x / ?s)) - x / ?s\<bar> * ?s"
    using s by (simp add: abs_mult)
  also have "\<dots> \<le> 1 / 2 * ?s"
    using s by (intro mult_right_mono round_even_near) simp
  also have "\<dots> \<le> \<bar>x\<bar> / 2 ^ p + u / 2"
    using ulp_fine [OF assms, of p "\<bar>x\<bar>"]
  proof
    assume "2 ^ p * ?s \<le> 2 * \<bar>x\<bar>"
    then have "1 / 2 * ?s \<le> \<bar>x\<bar> / 2 ^ p" by (simp add: field_simps)
    with assms show ?thesis by simp
  qed simp
  finally show ?thesis .
qed

lemma float_round_zero [simp]: "float_round p u 0 = 0"
  using round_even_of_int [of 0] by (simp add: float_round_def)

text \<open>A number with no more significant bits than the format has is its own nearest value.\<close>

lemma ulp_power: "0 < u \<Longrightarrow> \<exists>k. ulp p u x = 2 ^ k * u"
proof (induction p u x rule: ulp.induct)
  case (1 p u x)
  show ?case
  proof (cases "x < 2 ^ p * u")
    case True
    then have "ulp p u x = 2 ^ 0 * u" by (subst ulp.simps) simp
    then show ?thesis by blast
  next
    case False
    then obtain k where "ulp p (2 * u) x = 2 ^ k * (2 * u)" using 1 by auto
    with False 1(2) have "ulp p u x = 2 ^ Suc k * u" by (subst ulp.simps) simp
    then show ?thesis by blast
  qed
qed

lemma ulp_eq:
  assumes "0 < u" "s = 2 ^ k * u" "x < 2 ^ p * s" "k = 0 \<or> 2 ^ p * s \<le> 2 * x"
  shows "ulp p u x = s"
proof -
  obtain j where j: "ulp p u x = 2 ^ j * u" using ulp_power [OF assms(1)] by blast
  have "\<not> j < k"
  proof
    assume "j < k"
    then have "2 * 2 ^ j \<le> (2 ^ k :: rat)" using power_increasing [of "Suc j" k "2 :: rat"] by simp
    then have "2 ^ p * (2 * 2 ^ j * u) \<le> 2 ^ p * s" using assms by (simp add: mult_right_mono)
    moreover have "x < 2 ^ p * (2 ^ j * u)" using ulp_covers [OF assms(1), of x p] j by simp
    moreover have "2 ^ p * s \<le> 2 * x" using assms(4) \<open>j < k\<close> by auto
    moreover have "2 ^ p * (2 * 2 ^ j * u) = 2 * (2 ^ p * (2 ^ j * u))" by simp
    ultimately show False by linarith
  qed
  moreover have "\<not> k < j"
  proof
    assume "k < j"
    then have le: "2 * 2 ^ k \<le> (2 ^ j :: rat)" using power_increasing [of "Suc k" j "2 :: rat"] by simp
    have "(2 :: rat) ^ j \<noteq> 1" using le one_le_power [of "2 :: rat" k] by linarith
    then have "2 ^ j * u \<noteq> u" using assms(1) by simp
    then have "2 ^ p * (2 ^ j * u) \<le> 2 * x" using ulp_fine [OF assms(1), of p x] j by auto
    moreover have "2 ^ p * (2 * 2 ^ k * u) \<le> 2 ^ p * (2 ^ j * u)" using le assms(1) by (simp add: mult_right_mono)
    ultimately show False using assms(2,3) by (simp add: algebra_simps)
  qed
  ultimately show ?thesis using j assms(2) by (metis linorder_neqE_nat)
qed

lemma power_split:
  fixes u :: rat
  assumes "\<not> i \<le> j"
  shows "2 * (2 ^ j * u) * 2 ^ (i - Suc j) = 2 ^ i * u"
proof -
  have "i = Suc j + (i - Suc j)" using assms by simp
  then have "(2 :: rat) ^ i = 2 ^ Suc j * 2 ^ (i - Suc j)" by (metis power_add)
  then show ?thesis by simp
qed

lemma float_round_exact:
  assumes "0 < u" "x = of_int k * (2 ^ j * u)" "\<bar>k\<bar> < 2 ^ p"
  shows "float_round p u x = x"
proof -
  let ?s = "ulp p u \<bar>x\<bar>"
  obtain i where i: "?s = 2 ^ i * u" using ulp_power [OF assms(1)] by blast
  have s: "0 < ?s" using assms(1) ulp_least [OF assms(1)] by (rule less_le_trans)
  have "i \<le> j"
  proof (rule ccontr)
    assume far: "\<not> i \<le> j"
    let ?t = "2 ^ j * u"
    have t: "0 < ?t" using assms(1) by simp
    have "?s \<noteq> u"
    proof -
      have "(2 :: rat) * 1 \<le> 2 ^ i" using far power_increasing [of 1 i "2 :: rat"] by simp
      then have "(2 :: rat) ^ i \<noteq> 1" by linarith
      then show ?thesis using i assms(1) by simp
    qed
    then have "2 ^ p * ?s \<le> 2 * \<bar>x\<bar>" using ulp_fine [OF assms(1), of p "\<bar>x\<bar>"] by blast
    then have fine: "2 ^ p * ?s \<le> 2 * (\<bar>of_int k\<bar> * ?t)" using assms(1,2) by (simp add: abs_mult)
    have "2 * ?t * 1 \<le> 2 * ?t * 2 ^ (i - Suc j)" using t by (intro mult_left_mono) simp_all
    then have "2 * ?t \<le> ?s" unfolding power_split [OF far] i by simp
    then have "2 ^ p * (2 * ?t) \<le> 2 ^ p * ?s" by (rule mult_left_mono) simp
    then have "2 ^ p * (2 * ?t) \<le> 2 * (\<bar>of_int k\<bar> * ?t)" using fine by (rule order_trans)
    then have "2 ^ p * (2 * ?t) \<le> \<bar>of_int k\<bar> * (2 * ?t)" by (simp only: mult.left_commute)
    then have "2 ^ p \<le> \<bar>rat_of_int k\<bar>" using t by (simp only: mult_le_cancel_right)
    moreover have "\<bar>rat_of_int k\<bar> < 2 ^ p"
      using assms(3) by (metis of_int_abs of_int_less_iff of_int_numeral of_int_power)
    ultimately show False by simp
  qed
  then have "(2 :: rat) ^ j = 2 ^ (j - i) * 2 ^ i" by (metis le_add_diff_inverse2 power_add)
  then have "x / ?s = of_int (k * 2 ^ (j - i))" using assms i by simp
  then have "float_round p u x = x / ?s * ?s"
    by (simp only: float_round_def Let_def round_even_of_int)
  then show ?thesis using s by simp
qed

text \<open>The error of one operation on numbers of the size the sources calculate with.\<close>

lemma double_round_near:
  assumes "-134217728 \<le> x" "x \<le> 134217728"
  shows "x - 1 / 33554432 \<le> double_round x" "double_round x \<le> x + 1 / 33554432"
proof -
  have "\<bar>double_round x - x\<bar> \<le> \<bar>x\<bar> / 2 ^ 53 + 1 / 2 ^ 1074 / 2"
    unfolding double_round_def by (rule float_round_near) simp
  also have "\<dots> \<le> 134217728 / 2 ^ 53 + 1 / 2 ^ 26"
    using assms by (intro add_mono divide_right_mono) simp_all
  also have "\<dots> = 1 / 33554432" by simp
  finally have "double_round x - x \<le> 1 / 33554432" "- (double_round x - x) \<le> 1 / 33554432"
    unfolding abs_le_iff by blast+
  then show "x - 1 / 33554432 \<le> double_round x" "double_round x \<le> x + 1 / 33554432" by linarith+
qed

lemma double_round_int:
  assumes "\<bar>k\<bar> < 2 ^ 53"
  shows "double_round (of_int k) = of_int k"
  unfolding double_round_def by (rule float_round_exact [where k = k and j = 1074]) (use assms in simp_all)

lemma single_round_near: "\<bar>single_round x - x\<bar> \<le> \<bar>x\<bar> / 2 ^ 24 + 1 / 2 ^ 150"
proof -
  have "\<bar>single_round x - x\<bar> \<le> \<bar>x\<bar> / 2 ^ 24 + 1 / 2 ^ 149 / 2"
    unfolding single_round_def by (rule float_round_near) simp
  then show ?thesis by simp
qed

lemma single_round_scaled:
  assumes "\<bar>m\<bar> < 2 ^ 24"
  shows "single_round (of_int (m * 2 ^ e)) = of_int (m * 2 ^ e)"
  unfolding single_round_def
  by (rule float_round_exact [where k = m and j = "e + 149"]) (use assms in \<open>simp_all add: power_add\<close>)

lemma single_round_large:
  assumes "2 ^ 19 \<le> \<bar>x\<bar>" "\<bar>x\<bar> < 2 ^ 20"
  shows "single_round x = of_int (round_even (x * 16)) / 16"
proof -
  have "ulp 24 (1 / 2 ^ 149) \<bar>x\<bar> = 1 / 16"
    by (rule ulp_eq [where k = 145]) (use assms in simp_all)
  then show ?thesis unfolding single_round_def float_round_def Let_def by (simp only:) simp
qed

end
