(* ===== verification/Knx_Dpt.thy ===== *)
theory Knx_Dpt
  imports Knx_Cemi Floating
begin

text \<open>
  The datapoint types of \<open>knx/dpt/\<close>: the payload an encoded value occupies (\<open>payload.hpp\<close>), the
  view of a received one (\<open>value_view.hpp\<close>), the table of main types (\<open>descriptor.hpp\<close>), the
  fixed-width string (\<open>string_value.hpp\<close>), one encoder and one decoder per specialisation of
  \<open>traits\<close> (\<open>traits.hpp\<close>), and the scalings of \<open>dpt.hpp\<close>.

  \<open>std::int8_t\<close>, \<open>std::int16_t\<close> and \<open>std::int32_t\<close> values are integers, converted to octets modulo
  a power of two.  A \<open>char\<close> is its octet.  A \<open>float\<close> of main type 14 is its bit pattern, which is
  all \<open>std::bit_cast\<close> reads of it; one of main type 9 is the number it denotes, because that
  encoder calculates with it.
\<close>

subsection \<open>Payloads and views\<close>

definition payload_capacity :: nat where "payload_capacity = 14"

record payload =
  pl_storage :: bytes
  pl_size :: byte
  pl_compact_value :: byte
  pl_compacted :: bool

definition payload_default :: payload where
  "payload_default = \<lparr> pl_storage = replicate payload_capacity 0, pl_size = 0, pl_compact_value = 0,
     pl_compacted = True \<rparr>"

definition payload_compact :: "byte \<Rightarrow> payload" where
  "payload_compact v = payload_default\<lparr> pl_compact_value := v AND compact_mask \<rparr>"

text \<open>What \<open>payload::octets\<close> builds once the octets are known to fit.\<close>

definition payload_of :: "bytes \<Rightarrow> payload" where
  "payload_of octets = payload_default\<lparr> pl_storage := write_at (replicate payload_capacity 0) 0 octets,
     pl_size := word_of_nat (length octets), pl_compacted := False \<rparr>"

definition payload_octets :: "bytes \<Rightarrow> payload result" where
  "payload_octets octets =
     (if length octets > payload_capacity then Inl Payload_too_large else Inr (payload_of octets))"

definition payload_view :: "payload \<Rightarrow> bytes" where
  "payload_view p = take (unat (pl_size p)) (pl_storage p)"

definition payload_apdu :: "payload \<Rightarrow> apdu_payload" where
  "payload_apdu p =
     (if pl_compacted p then apdu_compact (pl_compact_value p)
      else case apdu_extended (payload_view p) of Inl e \<Rightarrow> apdu_default | Inr a \<Rightarrow> a)"

definition payload_equal :: "payload \<Rightarrow> payload \<Rightarrow> bool" where
  "payload_equal p q \<longleftrightarrow>
     (if pl_compacted p \<noteq> pl_compacted q \<or> pl_compact_value p \<noteq> pl_compact_value q \<or> pl_size p \<noteq> pl_size q
      then False
      else list_all (\<lambda>i. pl_storage p ! i = pl_storage q ! i) [0..<unat (pl_size p)])"

record value_view =
  vv_compacted :: bool
  vv_compact_value :: byte
  vv_octets :: bytes

definition make_value_view :: "cemi_frame \<Rightarrow> bytes \<Rightarrow> value_view" where
  "make_value_view f bs =
     (if frame_compact f
      then \<lparr> vv_compacted = True, vv_compact_value = cf_compact_value f, vv_octets = [] \<rparr>
      else \<lparr> vv_compacted = False, vv_compact_value = 0, vv_octets = cemi_payload f bs \<rparr>)"

subsection \<open>The table of main types\<close>

record descriptor =
  ds_main :: u16
  ds_bit_size :: u16
  ds_name :: string

definition descriptor_compact :: "descriptor \<Rightarrow> bool" where
  "descriptor_compact d \<longleftrightarrow> ds_bit_size d \<le> 6"

definition octet_size :: "descriptor \<Rightarrow> nat" where
  "octet_size d = (if descriptor_compact d then 0 else (unat (ds_bit_size d) + 7) div 8)"

definition descriptors :: "descriptor list" where
  "descriptors = map (\<lambda>(m, b, n). \<lparr> ds_main = m, ds_bit_size = b, ds_name = n \<rparr>)
     [(1, 1, ''1-bit''),
      (2, 2, ''1-bit controlled''),
      (3, 4, ''3-bit controlled''),
      (4, 8, ''character''),
      (5, 8, ''8-bit unsigned''),
      (6, 8, ''8-bit signed''),
      (7, 16, ''2-octet unsigned''),
      (8, 16, ''2-octet signed''),
      (9, 16, ''2-octet float''),
      (10, 24, ''time of day''),
      (11, 24, ''date''),
      (12, 32, ''4-octet unsigned''),
      (13, 32, ''4-octet signed''),
      (14, 32, ''4-octet float''),
      (16, 112, ''character string''),
      (17, 8, ''scene number''),
      (18, 8, ''scene control''),
      (20, 8, ''1-octet enumeration''),
      (232, 24, ''RGB colour'')]"

definition describe :: "u16 \<Rightarrow> descriptor result" where
  "describe m =
     (case List.find (\<lambda>entry. ds_main entry = m) descriptors of
        Some entry \<Rightarrow> Inr entry | None \<Rightarrow> Inl Unsupported_datapoint)"

subsection \<open>Fixed-width strings\<close>

record string_value =
  sv_data :: bytes

definition string_capacity :: nat where "string_capacity = 14"

definition string_make :: "bytes \<Rightarrow> string_value result" where
  "string_make chars =
     (if length chars > string_capacity then Inl Payload_too_large
      else Inr \<lparr> sv_data = write_at (replicate string_capacity 0) 0 chars \<rparr>)"

definition string_view :: "string_value \<Rightarrow> bytes" where
  "string_view s = takeWhile (\<lambda>c. c \<noteq> 0) (take string_capacity (sv_data s))"

subsection \<open>Reading and writing\<close>

definition read_compact :: "value_view \<Rightarrow> byte \<Rightarrow> byte result" where
  "read_compact v m =
     (if vv_compacted v then Inr (vv_compact_value v AND m)
      else if length (vv_octets v) \<noteq> 1 then Inl Unsupported_datapoint
      else Inr (vv_octets v ! 0 AND m))"

definition read_unsigned :: "nat \<Rightarrow> value_view \<Rightarrow> u32 result" where
  "read_unsigned width v =
     (if vv_compacted v \<or> length (vv_octets v) \<noteq> width then Inl Unsupported_datapoint
      else Inr (foldl (\<lambda>r b. push_bit 8 r OR ucast b) 0 (vv_octets v)))"

definition write_unsigned :: "nat \<Rightarrow> u32 \<Rightarrow> payload" where
  "write_unsigned width raw = payload_of (map (\<lambda>i. ucast (drop_bit (8 * (width - 1 - i)) raw)) [0..<width])"

definition round_to_int :: "rat \<Rightarrow> int" where
  "round_to_int v = to_integer (if 0 \<le> v then double_round (v + 1 / 2) else double_round (v - 1 / 2))"

subsection \<open>Main types carried in six bits\<close>

record controlled_bool =
  cb_control :: bool
  cb_value :: bool

record control_step =
  cs_increase :: bool
  cs_step_code :: byte

definition encode_1 :: "bool \<Rightarrow> payload result" where
  "encode_1 v = Inr (payload_compact (if v then 1 else 0))"

definition decode_1 :: "value_view \<Rightarrow> bool result" where
  "decode_1 v = (case read_compact v 0x01 of Inl e \<Rightarrow> Inl e | Inr raw \<Rightarrow> Inr (raw \<noteq> 0))"

definition encode_2 :: "controlled_bool \<Rightarrow> payload result" where
  "encode_2 v = Inr (payload_compact ((if cb_control v then 0x02 else 0x00) OR (if cb_value v then 0x01 else 0x00)))"

definition decode_2 :: "value_view \<Rightarrow> controlled_bool result" where
  "decode_2 v = (case read_compact v 0x03 of Inl e \<Rightarrow> Inl e
     | Inr raw \<Rightarrow> Inr \<lparr> cb_control = raw AND 0x02 \<noteq> 0, cb_value = raw AND 0x01 \<noteq> 0 \<rparr>)"

definition encode_3 :: "control_step \<Rightarrow> payload result" where
  "encode_3 v =
     (if cs_step_code v > 0x07 then Inl Value_out_of_range
      else Inr (payload_compact ((if cs_increase v then 0x08 else 0x00) OR cs_step_code v)))"

definition decode_3 :: "value_view \<Rightarrow> control_step result" where
  "decode_3 v = (case read_compact v 0x0F of Inl e \<Rightarrow> Inl e
     | Inr raw \<Rightarrow> Inr \<lparr> cs_increase = raw AND 0x08 \<noteq> 0, cs_step_code = raw AND 0x07 \<rparr>)"

subsection \<open>Integers and characters\<close>

definition encode_4 :: "byte \<Rightarrow> payload result" where
  "encode_4 v = Inr (write_unsigned 1 (ucast v))"

definition decode_4 :: "value_view \<Rightarrow> byte result" where
  "decode_4 v = (case read_unsigned 1 v of Inl e \<Rightarrow> Inl e | Inr raw \<Rightarrow> Inr (ucast raw))"

definition encode_5 :: "byte \<Rightarrow> payload result" where
  "encode_5 v = Inr (write_unsigned 1 (ucast v))"

definition decode_5 :: "value_view \<Rightarrow> byte result" where
  "decode_5 v = (case read_unsigned 1 v of Inl e \<Rightarrow> Inl e | Inr raw \<Rightarrow> Inr (ucast raw))"

definition encode_6 :: "int \<Rightarrow> payload result" where
  "encode_6 v = Inr (write_unsigned 1 (ucast (word_of_int v :: byte)))"

definition decode_6 :: "value_view \<Rightarrow> int result" where
  "decode_6 v = (case read_unsigned 1 v of Inl e \<Rightarrow> Inl e | Inr raw \<Rightarrow> Inr (sint (ucast raw :: byte)))"

definition encode_7 :: "u16 \<Rightarrow> payload result" where
  "encode_7 v = Inr (write_unsigned 2 (ucast v))"

definition decode_7 :: "value_view \<Rightarrow> u16 result" where
  "decode_7 v = (case read_unsigned 2 v of Inl e \<Rightarrow> Inl e | Inr raw \<Rightarrow> Inr (ucast raw))"

definition encode_8 :: "int \<Rightarrow> payload result" where
  "encode_8 v = Inr (write_unsigned 2 (ucast (word_of_int v :: u16)))"

definition decode_8 :: "value_view \<Rightarrow> int result" where
  "decode_8 v = (case read_unsigned 2 v of Inl e \<Rightarrow> Inl e | Inr raw \<Rightarrow> Inr (sint (ucast raw :: u16)))"

subsection \<open>The two-octet float\<close>

definition min_value :: rat where "min_value = single_round (- 67108864 / 100)"
definition max_value :: rat where "max_value = single_round (67076096 / 100)"

text \<open>
  The loop that halves the scaled value until the mantissa fits.  The exponent counts up from zero,
  so the test \<open>exponent == 15u\<close> is the test \<open>15 \<le> exponent\<close>.
\<close>

function scale_loop :: "rat \<Rightarrow> nat \<Rightarrow> int \<Rightarrow> (nat \<times> int) result" where
  "scale_loop scaled exponent mantissa =
     (if mantissa < -2048 \<or> mantissa > 2047
      then if exponent \<ge> 15 then Inl Value_out_of_range
           else let scaled = double_round (scaled / 2)
                in scale_loop scaled (exponent + 1) (round_to_int scaled)
      else Inr (exponent, mantissa))"
  by auto

termination scale_loop
  by (relation "measure (\<lambda>(scaled, exponent, mantissa). 15 - exponent)") auto

declare scale_loop.simps [simp del]

definition float_word :: "nat \<Rightarrow> int \<Rightarrow> u16" where
  "float_word exponent mantissa =
     ucast ((if mantissa < 0 then 0x8000 else 0x0000) OR ucast (push_bit 11 (word_of_nat exponent :: u16)) OR
       (word_of_int mantissa AND 0x07FF) :: u32)"

definition encode_9 :: "ieee \<Rightarrow> payload result" where
  "encode_9 v =
     (if \<not> at_least v min_value \<or> \<not> at_most v max_value then Inl Value_out_of_range
      else let scaled = double_round (finite_value v * 100)
           in case scale_loop scaled 0 (round_to_int scaled) of Inl e \<Rightarrow> Inl e
              | Inr (exponent, mantissa) \<Rightarrow> Inr (write_unsigned 2 (ucast (float_word exponent mantissa))))"

definition word_mantissa :: "u16 \<Rightarrow> int" where
  "word_mantissa w = (let mantissa = uint (w AND 0x07FF) in if w AND 0x8000 \<noteq> 0 then mantissa - 2048 else mantissa)"

definition word_exponent :: "u16 \<Rightarrow> nat" where
  "word_exponent w = unat (drop_bit 11 w AND 0x0F)"

definition decode_9 :: "value_view \<Rightarrow> ieee result" where
  "decode_9 v = (case read_unsigned 2 v of Inl e \<Rightarrow> Inl e
     | Inr raw \<Rightarrow> let word = ucast raw
         in Inr (Finite (single_round
              (single_round (of_int (word_mantissa word * 2 ^ word_exponent word)) / 100))))"

subsection \<open>Times, dates and colours\<close>

record time_of_day =
  td_weekday :: byte
  td_hour :: byte
  td_minute :: byte
  td_second :: byte

record date =
  dt_day :: byte
  dt_month :: byte
  dt_year :: u16

record scene_control =
  sc_learn :: bool
  sc_scene :: byte

record rgb =
  rgb_red :: byte
  rgb_green :: byte
  rgb_blue :: byte

definition encode_10 :: "time_of_day \<Rightarrow> payload result" where
  "encode_10 v =
     (if td_weekday v > 7 \<or> td_hour v > 23 \<or> td_minute v > 59 \<or> td_second v > 59 then Inl Value_out_of_range
      else payload_octets [push_bit 5 (td_weekday v) OR td_hour v, td_minute v, td_second v])"

definition decode_10 :: "value_view \<Rightarrow> time_of_day result" where
  "decode_10 v =
     (if vv_compacted v \<or> length (vv_octets v) \<noteq> 3 then Inl Unsupported_datapoint
      else let decoded = \<lparr> td_weekday = drop_bit 5 (vv_octets v ! 0), td_hour = vv_octets v ! 0 AND 0x1F,
                 td_minute = vv_octets v ! 1 AND 0x3F, td_second = vv_octets v ! 2 AND 0x3F \<rparr>
           in if td_hour decoded > 23 \<or> td_minute decoded > 59 \<or> td_second decoded > 59
              then Inl Value_out_of_range else Inr decoded)"

definition encode_11 :: "date \<Rightarrow> payload result" where
  "encode_11 v =
     (if dt_day v < 1 \<or> dt_day v > 31 \<or> dt_month v < 1 \<or> dt_month v > 12 then Inl Value_out_of_range
      else if dt_year v < 1990 \<or> dt_year v > 2089 then Inl Value_out_of_range
      else payload_octets [dt_day v, dt_month v,
             ucast (if dt_year v \<ge> 2000 then dt_year v - 2000 else dt_year v - 1900)])"

definition decode_11 :: "value_view \<Rightarrow> date result" where
  "decode_11 v =
     (if vv_compacted v \<or> length (vv_octets v) \<noteq> 3 then Inl Unsupported_datapoint
      else let day = vv_octets v ! 0 AND 0x1F; month = vv_octets v ! 1 AND 0x0F; year = vv_octets v ! 2 AND 0x7F
           in if day < 1 \<or> day > 31 \<or> month < 1 \<or> month > 12 \<or> year > 99 then Inl Value_out_of_range
              else Inr \<lparr> dt_day = day, dt_month = month,
                dt_year = (if year < 90 then 2000 + ucast year else 1900 + ucast year) \<rparr>)"

definition encode_12 :: "u32 \<Rightarrow> payload result" where
  "encode_12 v = Inr (write_unsigned 4 v)"

definition decode_12 :: "value_view \<Rightarrow> u32 result" where
  "decode_12 v = read_unsigned 4 v"

definition encode_13 :: "int \<Rightarrow> payload result" where
  "encode_13 v = Inr (write_unsigned 4 (word_of_int v))"

definition decode_13 :: "value_view \<Rightarrow> int result" where
  "decode_13 v = (case read_unsigned 4 v of Inl e \<Rightarrow> Inl e | Inr raw \<Rightarrow> Inr (sint raw))"

definition encode_14 :: "u32 \<Rightarrow> payload result" where
  "encode_14 bits = Inr (write_unsigned 4 bits)"

definition decode_14 :: "value_view \<Rightarrow> u32 result" where
  "decode_14 v = (case read_unsigned 4 v of Inl e \<Rightarrow> Inl e | Inr raw \<Rightarrow> Inr raw)"

definition encode_16 :: "string_value \<Rightarrow> payload result" where
  "encode_16 v = payload_octets (map (\<lambda>i. sv_data v ! i) [0..<string_capacity])"

definition decode_16 :: "value_view \<Rightarrow> string_value result" where
  "decode_16 v =
     (if vv_compacted v \<or> length (vv_octets v) \<noteq> string_capacity then Inl Unsupported_datapoint
      else Inr \<lparr> sv_data = map (\<lambda>i. vv_octets v ! i) [0..<string_capacity] \<rparr>)"

definition encode_17 :: "byte \<Rightarrow> payload result" where
  "encode_17 v = (if v > 0x3F then Inl Value_out_of_range else Inr (write_unsigned 1 (ucast v)))"

definition decode_17 :: "value_view \<Rightarrow> byte result" where
  "decode_17 v = (case read_unsigned 1 v of Inl e \<Rightarrow> Inl e | Inr raw \<Rightarrow> Inr (ucast (raw AND 0x3F)))"

definition encode_18 :: "scene_control \<Rightarrow> payload result" where
  "encode_18 v =
     (if sc_scene v > 0x3F then Inl Value_out_of_range
      else Inr (write_unsigned 1 (ucast ((if sc_learn v then 0x80 else 0x00) OR sc_scene v))))"

definition decode_18 :: "value_view \<Rightarrow> scene_control result" where
  "decode_18 v = (case read_unsigned 1 v of Inl e \<Rightarrow> Inl e
     | Inr raw \<Rightarrow> Inr \<lparr> sc_learn = raw AND 0x80 \<noteq> 0, sc_scene = ucast (raw AND 0x3F) \<rparr>)"

definition encode_20 :: "byte \<Rightarrow> payload result" where
  "encode_20 v = Inr (write_unsigned 1 (ucast v))"

definition decode_20 :: "value_view \<Rightarrow> byte result" where
  "decode_20 v = (case read_unsigned 1 v of Inl e \<Rightarrow> Inl e | Inr raw \<Rightarrow> Inr (ucast raw))"

definition encode_232 :: "rgb \<Rightarrow> payload result" where
  "encode_232 v = payload_octets [rgb_red v, rgb_green v, rgb_blue v]"

definition decode_232 :: "value_view \<Rightarrow> rgb result" where
  "decode_232 v =
     (if vv_compacted v \<or> length (vv_octets v) \<noteq> 3 then Inl Unsupported_datapoint
      else Inr \<lparr> rgb_red = vv_octets v ! 0, rgb_green = vv_octets v ! 1, rgb_blue = vv_octets v ! 2 \<rparr>)"

subsection \<open>Scalings of main type 5\<close>

definition encode_scaling :: "ieee \<Rightarrow> payload result" where
  "encode_scaling percent =
     (if \<not> at_least percent 0 \<or> \<not> at_most percent 100 then Inl Value_out_of_range
      else encode_5 (word_of_int (round_to_int
             (double_round (double_round (finite_value percent * 255) / 100)))))"

definition decode_scaling :: "value_view \<Rightarrow> ieee result" where
  "decode_scaling v = (case decode_5 v of Inl e \<Rightarrow> Inl e
     | Inr raw \<Rightarrow> Inr (Finite (double_round (double_round (of_int (uint raw) * 100) / 255))))"

definition encode_angle :: "ieee \<Rightarrow> payload result" where
  "encode_angle degrees =
     (if \<not> at_least degrees 0 \<or> \<not> at_most degrees 360 then Inl Value_out_of_range
      else encode_5 (word_of_int (round_to_int
             (double_round (double_round (finite_value degrees * 255) / 360)))))"

definition decode_angle :: "value_view \<Rightarrow> ieee result" where
  "decode_angle v = (case decode_5 v of Inl e \<Rightarrow> Inl e
     | Inr raw \<Rightarrow> Inr (Finite (double_round (double_round (of_int (uint raw) * 360) / 255))))"

subsection \<open>Every main type\<close>

text \<open>
  \<open>encode<Main>\<close> and \<open>decode<Main>\<close> pick a specialisation of \<open>traits\<close> at compile time.  A value of
  any of them is a \<open>dpt_value\<close>, its constructor naming the main type.
\<close>

datatype main_type =
    Main_1 | Main_2 | Main_3 | Main_4 | Main_5 | Main_6 | Main_7 | Main_8 | Main_9 | Main_10 | Main_11
  | Main_12 | Main_13 | Main_14 | Main_16 | Main_17 | Main_18 | Main_20 | Main_232

primrec main_number :: "main_type \<Rightarrow> u16" where
  "main_number Main_1 = 1" | "main_number Main_2 = 2" | "main_number Main_3 = 3" | "main_number Main_4 = 4"
| "main_number Main_5 = 5" | "main_number Main_6 = 6" | "main_number Main_7 = 7" | "main_number Main_8 = 8"
| "main_number Main_9 = 9" | "main_number Main_10 = 10" | "main_number Main_11 = 11" | "main_number Main_12 = 12"
| "main_number Main_13 = 13" | "main_number Main_14 = 14" | "main_number Main_16 = 16" | "main_number Main_17 = 17"
| "main_number Main_18 = 18" | "main_number Main_20 = 20" | "main_number Main_232 = 232"

datatype dpt_value =
    Value_1 bool | Value_2 controlled_bool | Value_3 control_step | Value_4 byte | Value_5 byte | Value_6 int
  | Value_7 u16 | Value_8 int | Value_9 ieee | Value_10 time_of_day | Value_11 date | Value_12 u32 | Value_13 int
  | Value_14 u32 | Value_16 string_value | Value_17 byte | Value_18 scene_control | Value_20 byte | Value_232 rgb

primrec main_of :: "dpt_value \<Rightarrow> main_type" where
  "main_of (Value_1 v) = Main_1" | "main_of (Value_2 v) = Main_2" | "main_of (Value_3 v) = Main_3"
| "main_of (Value_4 v) = Main_4" | "main_of (Value_5 v) = Main_5" | "main_of (Value_6 v) = Main_6"
| "main_of (Value_7 v) = Main_7" | "main_of (Value_8 v) = Main_8" | "main_of (Value_9 v) = Main_9"
| "main_of (Value_10 v) = Main_10" | "main_of (Value_11 v) = Main_11" | "main_of (Value_12 v) = Main_12"
| "main_of (Value_13 v) = Main_13" | "main_of (Value_14 v) = Main_14" | "main_of (Value_16 v) = Main_16"
| "main_of (Value_17 v) = Main_17" | "main_of (Value_18 v) = Main_18" | "main_of (Value_20 v) = Main_20"
| "main_of (Value_232 v) = Main_232"

primrec dpt_encode :: "dpt_value \<Rightarrow> payload result" where
  "dpt_encode (Value_1 v) = encode_1 v" | "dpt_encode (Value_2 v) = encode_2 v"
| "dpt_encode (Value_3 v) = encode_3 v" | "dpt_encode (Value_4 v) = encode_4 v"
| "dpt_encode (Value_5 v) = encode_5 v" | "dpt_encode (Value_6 v) = encode_6 v"
| "dpt_encode (Value_7 v) = encode_7 v" | "dpt_encode (Value_8 v) = encode_8 v"
| "dpt_encode (Value_9 v) = encode_9 v" | "dpt_encode (Value_10 v) = encode_10 v"
| "dpt_encode (Value_11 v) = encode_11 v" | "dpt_encode (Value_12 v) = encode_12 v"
| "dpt_encode (Value_13 v) = encode_13 v" | "dpt_encode (Value_14 v) = encode_14 v"
| "dpt_encode (Value_16 v) = encode_16 v" | "dpt_encode (Value_17 v) = encode_17 v"
| "dpt_encode (Value_18 v) = encode_18 v" | "dpt_encode (Value_20 v) = encode_20 v"
| "dpt_encode (Value_232 v) = encode_232 v"

primrec dpt_decode :: "main_type \<Rightarrow> value_view \<Rightarrow> dpt_value result" where
  "dpt_decode Main_1 w = map_sum id Value_1 (decode_1 w)" | "dpt_decode Main_2 w = map_sum id Value_2 (decode_2 w)"
| "dpt_decode Main_3 w = map_sum id Value_3 (decode_3 w)" | "dpt_decode Main_4 w = map_sum id Value_4 (decode_4 w)"
| "dpt_decode Main_5 w = map_sum id Value_5 (decode_5 w)" | "dpt_decode Main_6 w = map_sum id Value_6 (decode_6 w)"
| "dpt_decode Main_7 w = map_sum id Value_7 (decode_7 w)" | "dpt_decode Main_8 w = map_sum id Value_8 (decode_8 w)"
| "dpt_decode Main_9 w = map_sum id Value_9 (decode_9 w)" | "dpt_decode Main_10 w = map_sum id Value_10 (decode_10 w)"
| "dpt_decode Main_11 w = map_sum id Value_11 (decode_11 w)" | "dpt_decode Main_12 w = map_sum id Value_12 (decode_12 w)"
| "dpt_decode Main_13 w = map_sum id Value_13 (decode_13 w)" | "dpt_decode Main_14 w = map_sum id Value_14 (decode_14 w)"
| "dpt_decode Main_16 w = map_sum id Value_16 (decode_16 w)" | "dpt_decode Main_17 w = map_sum id Value_17 (decode_17 w)"
| "dpt_decode Main_18 w = map_sum id Value_18 (decode_18 w)" | "dpt_decode Main_20 w = map_sum id Value_20 (decode_20 w)"
| "dpt_decode Main_232 w = map_sum id Value_232 (decode_232 w)"

definition dpt_decode_frame :: "main_type \<Rightarrow> cemi_frame \<Rightarrow> bytes \<Rightarrow> dpt_value result" where
  "dpt_decode_frame t f bs = dpt_decode t (make_value_view f bs)"

subsection \<open>What a datapoint type promises\<close>

text \<open>
  \<open>carries m p\<close>: the payload has the form the table of main types gives for \<open>m\<close>.  \<open>readable m w\<close>:
  the received value has the form a decoder of \<open>m\<close> reads (a six-bit value may also arrive in one
  octet).  \<open>sent_view p\<close> is what the receiver of a payload sees.
\<close>

definition dpt_payload_wf :: "payload \<Rightarrow> bool" where
  "dpt_payload_wf p \<longleftrightarrow> length (pl_storage p) = 14 \<and>
     (if pl_compacted p then pl_size p = 0 \<and> pl_compact_value p AND compact_mask = pl_compact_value p
      else 1 \<le> pl_size p \<and> pl_size p \<le> 14 \<and> pl_compact_value p = 0)"

definition carries :: "u16 \<Rightarrow> payload \<Rightarrow> bool" where
  "carries m p \<longleftrightarrow> dpt_payload_wf p \<and>
     (case describe m of Inl e \<Rightarrow> False
      | Inr d \<Rightarrow> pl_compacted p = descriptor_compact d \<and> length (payload_view p) = octet_size d)"

definition readable :: "u16 \<Rightarrow> value_view \<Rightarrow> bool" where
  "readable m w \<longleftrightarrow>
     (case describe m of Inl e \<Rightarrow> False
      | Inr d \<Rightarrow> if descriptor_compact d then vv_compacted w \<or> length (vv_octets w) = 1
                 else \<not> vv_compacted w \<and> length (vv_octets w) = octet_size d)"

definition sent_view :: "payload \<Rightarrow> value_view" where
  "sent_view p = \<lparr> vv_compacted = pl_compacted p, vv_compact_value = pl_compact_value p, vv_octets = payload_view p \<rparr>"

text \<open>The values the C++ types can hold, and those the main types can represent.\<close>

primrec representable :: "dpt_value \<Rightarrow> bool" where
  "representable (Value_1 v) = True" | "representable (Value_2 v) = True" | "representable (Value_3 v) = True"
| "representable (Value_4 v) = True" | "representable (Value_5 v) = True"
| "representable (Value_6 v) = (-128 \<le> v \<and> v \<le> 127)" | "representable (Value_7 v) = True"
| "representable (Value_8 v) = (-32768 \<le> v \<and> v \<le> 32767)" | "representable (Value_9 v) = True"
| "representable (Value_10 v) = True" | "representable (Value_11 v) = True" | "representable (Value_12 v) = True"
| "representable (Value_13 v) = (-2147483648 \<le> v \<and> v \<le> 2147483647)" | "representable (Value_14 v) = True"
| "representable (Value_16 v) = (length (sv_data v) = 14)" | "representable (Value_17 v) = True"
| "representable (Value_18 v) = True" | "representable (Value_20 v) = True" | "representable (Value_232 v) = True"

definition date_ok :: "date \<Rightarrow> bool" where
  "date_ok v \<longleftrightarrow> 1 \<le> dt_day v \<and> dt_day v \<le> 31 \<and> 1 \<le> dt_month v \<and> dt_month v \<le> 12 \<and>
     1990 \<le> dt_year v \<and> dt_year v \<le> 2089"

definition time_ok :: "time_of_day \<Rightarrow> bool" where
  "time_ok v \<longleftrightarrow> td_weekday v \<le> 7 \<and> td_hour v \<le> 23 \<and> td_minute v \<le> 59 \<and> td_second v \<le> 59"

fun float_ok :: "ieee \<Rightarrow> bool" where
  "float_ok (Finite x) = (-671088.625 \<le> x \<and> x \<le> 670760.9375)"
| "float_ok _ = False"

primrec in_range :: "dpt_value \<Rightarrow> bool" where
  "in_range (Value_1 v) = True" | "in_range (Value_2 v) = True" | "in_range (Value_3 v) = (cs_step_code v \<le> 7)"
| "in_range (Value_4 v) = True" | "in_range (Value_5 v) = True" | "in_range (Value_6 v) = True"
| "in_range (Value_7 v) = True" | "in_range (Value_8 v) = True" | "in_range (Value_9 v) = float_ok v"
| "in_range (Value_10 v) = time_ok v" | "in_range (Value_11 v) = date_ok v" | "in_range (Value_12 v) = True"
| "in_range (Value_13 v) = True" | "in_range (Value_14 v) = True" | "in_range (Value_16 v) = True"
| "in_range (Value_17 v) = (v \<le> 63)" | "in_range (Value_18 v) = (sc_scene v \<le> 63)" | "in_range (Value_20 v) = True"
| "in_range (Value_232 v) = True"

text \<open>The number of payload octets of a main type; none for one carried in six bits.\<close>

definition main_octets :: "u16 \<Rightarrow> nat" where
  "main_octets m = (case describe m of Inl e \<Rightarrow> 0 | Inr d \<Rightarrow> octet_size d)"

definition read_time :: "bytes \<Rightarrow> time_of_day result" where
  "read_time xs =
     (if xs ! 0 AND 0x1F > 23 \<or> xs ! 1 AND 0x3F > 59 \<or> xs ! 2 AND 0x3F > 59 then Inl Value_out_of_range
      else Inr \<lparr> td_weekday = drop_bit 5 (xs ! 0), td_hour = xs ! 0 AND 0x1F, td_minute = xs ! 1 AND 0x3F,
        td_second = xs ! 2 AND 0x3F \<rparr>)"

definition read_date :: "bytes \<Rightarrow> date result" where
  "read_date xs =
     (let day = xs ! 0 AND 0x1F; month = xs ! 1 AND 0x0F; year = xs ! 2 AND 0x7F
      in if day < 1 \<or> day > 31 \<or> month < 1 \<or> month > 12 \<or> year > 99 then Inl Value_out_of_range
         else Inr \<lparr> dt_day = day, dt_month = month,
           dt_year = (if year < 90 then 2000 + ucast year else 1900 + ucast year) \<rparr>)"

definition year_octet :: "u16 \<Rightarrow> byte" where
  "year_octet y = ucast (if y \<ge> 2000 then y - 2000 else y - 1900)"

text \<open>
  The loop, for a value \<open>a\<close> in hundredths: while it runs, the scaled number is \<open>a / 2 ^ e\<close> up to the
  rounding of the arithmetic, and the loop is left with the first exponent whose mantissa fits.
\<close>

definition fits :: "rat \<Rightarrow> nat \<Rightarrow> int \<Rightarrow> bool" where
  "fits a e m \<longleftrightarrow> -2048 \<le> m \<and> m \<le> 2047 \<and>
     a / 2 ^ e - (1 / 2 + 1 / 8388608) \<le> of_int m \<and> of_int m \<le> a / 2 ^ e + (1 / 2 + 1 / 8388608)"

definition too_large :: "rat \<Rightarrow> nat \<Rightarrow> bool" where
  "too_large a e \<longleftrightarrow> a / 2 ^ e < -8193 / 4 \<or> 8189 / 4 < a / 2 ^ e"

text \<open>The number of hundredths a word denotes, and the value the decoder returns for it.\<close>

definition word_hundredths :: "u16 \<Rightarrow> int" where
  "word_hundredths w = word_mantissa w * 2 ^ word_exponent w"

definition word_value :: "u16 \<Rightarrow> rat" where
  "word_value w = single_round (of_int (word_hundredths w) / 100)"

definition group_write :: "group_address \<Rightarrow> individual_address \<Rightarrow> l_data_options \<Rightarrow> apdu_payload \<Rightarrow> l_data_message" where
  "group_write ga src opts a = default_message\<lparr> lm_source := src, lm_destination := ga_value ga,
     lm_service := group_value_write, lm_payload := a, lm_options := opts \<rparr>"

text \<open>The contract of a main type, and of one whose values survive the wire unchanged.\<close>

locale datapoint_type =
  fixes main :: u16 and holds :: "'a \<Rightarrow> bool" and valid :: "'a \<Rightarrow> bool"
    and encode :: "'a \<Rightarrow> payload result" and decode :: "value_view \<Rightarrow> 'a result"
  assumes encode_valid: "holds v \<Longrightarrow> valid v \<Longrightarrow> \<exists>p. encode v = Inr p \<and> carries main p"
    and encode_invalid: "holds v \<Longrightarrow> \<not> valid v \<Longrightarrow> encode v = Inl Value_out_of_range"
    and decode_foreign: "\<not> readable main w \<Longrightarrow> decode w = Inl Unsupported_datapoint"
    and decode_readable: "readable main w \<Longrightarrow>
      (\<exists>v. decode w = Inr v \<and> holds v \<and> valid v) \<or> decode w = Inl Value_out_of_range"
begin

lemma encode_iff: "holds v \<Longrightarrow> (\<exists>p. encode v = Inr p) \<longleftrightarrow> valid v"
  using encode_valid encode_invalid by fastforce

lemma encode_carries: "holds v \<Longrightarrow> encode v = Inr p \<Longrightarrow> carries main p"
  using encode_valid encode_invalid by fastforce

lemma decode_sound: "decode w = Inr v \<Longrightarrow> readable main w \<and> holds v \<and> valid v"
  using decode_foreign [of w] decode_readable [of w] by (cases "readable main w") auto

end

locale exact_datapoint = datapoint_type +
  assumes decode_encode: "holds v \<Longrightarrow> encode v = Inr p \<Longrightarrow> decode (sent_view p) = Inr v"
begin

lemma encode_inject: "holds v \<Longrightarrow> holds w \<Longrightarrow> encode v = Inr p \<Longrightarrow> encode w = Inr p \<Longrightarrow> v = w"
  using decode_encode [of v p] decode_encode [of w p] by simp

lemma decode_stable:
  "decode w = Inr v \<Longrightarrow> \<exists>p. encode v = Inr p \<and> carries main p \<and> decode (sent_view p) = Inr v"
  using decode_sound encode_valid decode_encode by blast

end

subsection \<open>Lemmas\<close>

lemma payload_view_of:
  assumes "length xs \<le> 14"
  shows "payload_view (payload_of xs) = xs" "pl_compacted (payload_of xs) = False"
    "pl_compact_value (payload_of xs) = 0" "length (pl_storage (payload_of xs)) = 14"
    "unat (pl_size (payload_of xs)) = length xs"
proof -
  have "unat (word_of_nat (length xs) :: byte) = length xs" using assms by (intro unat_byte_of_nat) simp
  then show "payload_view (payload_of xs) = xs" "unat (pl_size (payload_of xs)) = length xs"
    using assms by (simp_all add: payload_view_def payload_of_def payload_default_def payload_capacity_def write_at_def)
qed (use assms in \<open>simp_all add: payload_of_def payload_default_def payload_capacity_def write_at_def\<close>)

lemma sent_view_of: "length xs \<le> 14 \<Longrightarrow> sent_view (payload_of xs) = \<lparr> vv_compacted = False, vv_compact_value = 0, vv_octets = xs \<rparr>"
  by (simp add: sent_view_def payload_view_of)

lemma sent_view_compact:
  "sent_view (payload_compact v) = \<lparr> vv_compacted = True, vv_compact_value = v AND 0x3F, vv_octets = [] \<rparr>"
  by (simp add: sent_view_def payload_compact_def payload_default_def payload_view_def compact_mask_def)

lemma payload_octets_fit: "length xs \<le> 14 \<Longrightarrow> payload_octets xs = Inr (payload_of xs)"
  by (simp add: payload_octets_def payload_capacity_def)

lemma payload_wf_of: "xs \<noteq> [] \<Longrightarrow> length xs \<le> 14 \<Longrightarrow> dpt_payload_wf (payload_of xs)"
proof -
  assume a: "xs \<noteq> []" "length xs \<le> 14"
  then have "Suc 0 \<le> length xs" by (simp add: Suc_le_eq)
  with a show ?thesis
    using payload_view_of [OF a(2)] by (simp add: dpt_payload_wf_def word_le_nat_alt)
qed

lemma payload_wf_compact: "dpt_payload_wf (payload_compact v)"
  by (simp add: dpt_payload_wf_def payload_compact_def payload_default_def payload_capacity_def ac_simps)

lemma describe_all:
  "describe 1 = Inr \<lparr> ds_main = 1, ds_bit_size = 1, ds_name = ''1-bit'' \<rparr>"
  "describe 2 = Inr \<lparr> ds_main = 2, ds_bit_size = 2, ds_name = ''1-bit controlled'' \<rparr>"
  "describe 3 = Inr \<lparr> ds_main = 3, ds_bit_size = 4, ds_name = ''3-bit controlled'' \<rparr>"
  "describe 4 = Inr \<lparr> ds_main = 4, ds_bit_size = 8, ds_name = ''character'' \<rparr>"
  "describe 5 = Inr \<lparr> ds_main = 5, ds_bit_size = 8, ds_name = ''8-bit unsigned'' \<rparr>"
  "describe 6 = Inr \<lparr> ds_main = 6, ds_bit_size = 8, ds_name = ''8-bit signed'' \<rparr>"
  "describe 7 = Inr \<lparr> ds_main = 7, ds_bit_size = 16, ds_name = ''2-octet unsigned'' \<rparr>"
  "describe 8 = Inr \<lparr> ds_main = 8, ds_bit_size = 16, ds_name = ''2-octet signed'' \<rparr>"
  "describe 9 = Inr \<lparr> ds_main = 9, ds_bit_size = 16, ds_name = ''2-octet float'' \<rparr>"
  "describe 10 = Inr \<lparr> ds_main = 10, ds_bit_size = 24, ds_name = ''time of day'' \<rparr>"
  "describe 11 = Inr \<lparr> ds_main = 11, ds_bit_size = 24, ds_name = ''date'' \<rparr>"
  "describe 12 = Inr \<lparr> ds_main = 12, ds_bit_size = 32, ds_name = ''4-octet unsigned'' \<rparr>"
  "describe 13 = Inr \<lparr> ds_main = 13, ds_bit_size = 32, ds_name = ''4-octet signed'' \<rparr>"
  "describe 14 = Inr \<lparr> ds_main = 14, ds_bit_size = 32, ds_name = ''4-octet float'' \<rparr>"
  "describe 16 = Inr \<lparr> ds_main = 16, ds_bit_size = 112, ds_name = ''character string'' \<rparr>"
  "describe 17 = Inr \<lparr> ds_main = 17, ds_bit_size = 8, ds_name = ''scene number'' \<rparr>"
  "describe 18 = Inr \<lparr> ds_main = 18, ds_bit_size = 8, ds_name = ''scene control'' \<rparr>"
  "describe 20 = Inr \<lparr> ds_main = 20, ds_bit_size = 8, ds_name = ''1-octet enumeration'' \<rparr>"
  "describe 232 = Inr \<lparr> ds_main = 232, ds_bit_size = 24, ds_name = ''RGB colour'' \<rparr>"
  by (simp_all add: describe_def descriptors_def)

lemma main_octets_all [simp]:
  "main_octets 1 = 0" "main_octets 2 = 0" "main_octets 3 = 0" "main_octets 4 = 1" "main_octets 5 = 1"
  "main_octets 6 = 1" "main_octets 7 = 2" "main_octets 8 = 2" "main_octets 9 = 2" "main_octets 10 = 3"
  "main_octets 11 = 3" "main_octets 12 = 4" "main_octets 13 = 4" "main_octets 14 = 4" "main_octets 16 = 14"
  "main_octets 17 = 1" "main_octets 18 = 1" "main_octets 20 = 1" "main_octets 232 = 3"
  by (simp_all add: main_octets_def describe_all octet_size_def descriptor_compact_def)

lemma octet_size_positive: "0 < octet_size d \<longleftrightarrow> \<not> descriptor_compact d"
  by (auto simp: octet_size_def descriptor_compact_def word_le_nat_alt)

lemma carries_octets:
  "0 < main_octets m \<Longrightarrow> length xs = main_octets m \<Longrightarrow> length xs \<le> 14 \<Longrightarrow> carries m (payload_of xs)"
  using payload_wf_of [of xs] payload_view_of [of xs] octet_size_positive
  by (cases "xs = []") (auto simp: carries_def main_octets_def split: sum.splits)

lemma carries_compact:
  assumes "describe m = Inr d" "descriptor_compact d"
  shows "carries m (payload_compact v)"
  using assms payload_wf_compact [of v]
  by (simp add: carries_def octet_size_def payload_compact_def payload_default_def payload_view_def)

lemma readable_octets: "0 < main_octets m \<Longrightarrow> readable m w \<longleftrightarrow> \<not> vv_compacted w \<and> length (vv_octets w) = main_octets m"
  using octet_size_positive by (auto simp: readable_def main_octets_def split: sum.splits)

lemma readable_compact:
  "describe m = Inr d \<Longrightarrow> descriptor_compact d \<Longrightarrow> readable m w \<longleftrightarrow> vv_compacted w \<or> length (vv_octets w) = 1"
  by (simp add: readable_def)

lemma compact_descriptors:
  "\<exists>d. describe 1 = Inr d \<and> descriptor_compact d" "\<exists>d. describe 2 = Inr d \<and> descriptor_compact d"
  "\<exists>d. describe 3 = Inr d \<and> descriptor_compact d"
  by (simp_all add: describe_all descriptor_compact_def)

lemma carries_six_bits [simp]: "carries 1 (payload_compact v)" "carries 2 (payload_compact v)" "carries 3 (payload_compact v)"
  using compact_descriptors carries_compact by blast+

lemma readable_six_bits:
  "readable 1 w \<longleftrightarrow> vv_compacted w \<or> length (vv_octets w) = 1" "readable 2 w \<longleftrightarrow> vv_compacted w \<or> length (vv_octets w) = 1"
  "readable 3 w \<longleftrightarrow> vv_compacted w \<or> length (vv_octets w) = 1"
  using compact_descriptors readable_compact by blast+

subsection \<open>Words in octets\<close>

lemma write_unsigned_octets:
  "write_unsigned 1 raw = payload_of [ucast raw]"
  "write_unsigned 2 raw = payload_of [ucast (drop_bit 8 raw), ucast raw]"
  "write_unsigned 4 raw = payload_of [ucast (drop_bit 24 raw), ucast (drop_bit 16 raw), ucast (drop_bit 8 raw), ucast raw]"
  by (simp_all add: write_unsigned_def numeral_eq_Suc)

lemma read_write_unsigned:
  "read_unsigned 1 (sent_view (write_unsigned 1 raw)) = Inr (ucast (ucast raw :: byte))"
  "read_unsigned 2 (sent_view (write_unsigned 2 raw)) = Inr (ucast (ucast raw :: u16))"
  "read_unsigned 4 (sent_view (write_unsigned 4 raw)) = Inr raw"
proof -
  show "read_unsigned 1 (sent_view (write_unsigned 1 raw)) = Inr (ucast (ucast raw :: byte))"
    unfolding write_unsigned_octets by (simp add: sent_view_of read_unsigned_def)
  show "read_unsigned 2 (sent_view (write_unsigned 2 raw)) = Inr (ucast (ucast raw :: u16))"
    by (simp add: write_unsigned_octets sent_view_of read_unsigned_def, rule bit_eqI)
      (auto simp: bit_simps not_less dest: bit_imp_le_length)
  show "read_unsigned 4 (sent_view (write_unsigned 4 raw)) = Inr raw"
    apply (simp add: write_unsigned_octets sent_view_of read_unsigned_def)
    apply (rule bit_eqI)
    subgoal for n
      by (cases "n < 8"; cases "n < 16"; cases "n < 24"; auto simp: bit_simps)
    done
qed

lemma narrow_back [simp]: "ucast (ucast (b :: byte) :: u32) = b" "ucast (ucast (h :: u16) :: u32) = h"
  by (auto intro!: bit_eqI simp: bit_simps)

lemma carries_unsigned:
  "main_octets m = 1 \<Longrightarrow> carries m (write_unsigned 1 raw)"
  "main_octets m = 2 \<Longrightarrow> carries m (write_unsigned 2 raw)"
  "main_octets m = 4 \<Longrightarrow> carries m (write_unsigned 4 raw)"
  unfolding write_unsigned_octets by (simp_all add: carries_octets)

lemma read_unsigned_form:
  "0 < main_octets m \<Longrightarrow> main_octets m = n \<Longrightarrow> \<not> readable m w \<Longrightarrow> read_unsigned n w = Inl Unsupported_datapoint"
  "0 < main_octets m \<Longrightarrow> main_octets m = n \<Longrightarrow> readable m w \<Longrightarrow> \<exists>raw. read_unsigned n w = Inr raw"
  by (auto simp: readable_octets read_unsigned_def)

lemma read_one_octet: "read_unsigned 1 w = Inr raw \<Longrightarrow> raw = ucast (vv_octets w ! 0)"
  by (auto simp: read_unsigned_def length_Suc_conv split: if_splits)

lemma byte_below: "unat (x :: byte) < 2 ^ n \<longleftrightarrow> take_bit n x = x"
  by (metis take_bit_nat_eq_self_iff unsigned_take_bit_eq word_unat_eq_iff)

lemma small_take_bit:
  "(x :: byte) \<le> 7 \<longleftrightarrow> take_bit 3 x = x" "(x :: byte) \<le> 63 \<longleftrightarrow> take_bit 6 x = x" "(x :: byte) \<le> 31 \<longleftrightarrow> take_bit 5 x = x"
  "(x :: byte) \<le> 15 \<longleftrightarrow> take_bit 4 x = x" "(x :: byte) \<le> 127 \<longleftrightarrow> take_bit 7 x = x"
  by (auto simp: word_le_nat_alt simp flip: byte_below)

lemma string_make_view:
  assumes "length chars \<le> 14" "0 \<notin> set chars"
  shows "\<exists>s. string_make chars = Inr s \<and> representable (Value_16 s) \<and> string_view s = chars"
proof -
  have "takeWhile (\<lambda>c. c \<noteq> 0) (chars @ replicate (14 - length chars) 0) = chars"
    using assms(2) by (subst takeWhile_append2) (auto simp: takeWhile_eq_Nil_iff hd_replicate)
  then show ?thesis
    using assms(1) by (simp add: string_make_def string_view_def string_capacity_def write_at_def)
qed

lemma payload_equal_iff:
  assumes "dpt_payload_wf p" "dpt_payload_wf q"
  shows "payload_equal p q \<longleftrightarrow> pl_compacted p = pl_compacted q \<and> pl_compact_value p = pl_compact_value q \<and>
    payload_view p = payload_view q"
proof -
  have n: "length (payload_view p) = unat (pl_size p)" "length (payload_view q) = unat (pl_size q)"
    "unat (pl_size p) \<le> 14" "unat (pl_size q) \<le> 14" "length (pl_storage p) = 14" "length (pl_storage q) = 14"
    using assms by (auto simp: dpt_payload_wf_def payload_view_def word_le_nat_alt split: if_splits)
  have "payload_view p = payload_view q \<longleftrightarrow> pl_size p = pl_size q \<and>
      (\<forall>i < unat (pl_size p). pl_storage p ! i = pl_storage q ! i)"
    using n by (auto simp: list_eq_iff_nth_eq payload_view_def word_unat_eq_iff)
  then show ?thesis by (auto simp: payload_equal_def list_all_iff)
qed

subsection \<open>The exact main types\<close>

lemmas main_type_forms = readable_six_bits read_compact_def

lemma octet_masks:
  "(0x3F :: byte) = mask 6" "(0x1F :: byte) = mask 5" "(0x0F :: byte) = mask 4" "(0x07 :: byte) = mask 3"
  "(0x7F :: byte) = mask 7" "(0x3F :: u32) = mask 6" "(0x01 :: byte) = mask 1" "(0x03 :: byte) = mask 2"
  by (simp_all add: mask_eq_exp_minus_1)

lemma six_bits [simp]: "take_bit 6 (take_bit n (x :: byte)) = take_bit (min 6 n) x"
  by simp

interpretation main_1: exact_datapoint 1 "\<lambda>v. True" "\<lambda>v. True" encode_1 decode_1
  by unfold_locales (auto simp: encode_1_def decode_1_def main_type_forms sent_view_compact split: if_splits)

interpretation main_2: exact_datapoint 2 "\<lambda>v. True" "\<lambda>v. True" encode_2 decode_2
  by unfold_locales (auto simp: encode_2_def decode_2_def main_type_forms sent_view_compact split: if_splits)

lemma step_octet:
  assumes "(c :: byte) \<le> 7"
  shows "((((if b then 0x08 else 0) OR c) AND 0x3F) AND 0x0F) AND 0x08 \<noteq> 0 \<longleftrightarrow> b"
    "((((if b then 0x08 else 0) OR c) AND 0x3F) AND 0x0F) AND 0x07 = c"
proof -
  have "unat c < 8" using assms by (simp add: word_le_nat_alt)
  then have "c = 0 \<or> c = 1 \<or> c = 2 \<or> c = 3 \<or> c = 4 \<or> c = 5 \<or> c = 6 \<or> c = 7"
    by (simp add: word_unat_eq_iff) arith
  then show "((((if b then 0x08 else 0) OR c) AND 0x3F) AND 0x0F) AND 0x08 \<noteq> 0 \<longleftrightarrow> b"
    "((((if b then 0x08 else 0) OR c) AND 0x3F) AND 0x0F) AND 0x07 = c"
    by (cases b; elim disjE; simp)+
qed

interpretation main_3: exact_datapoint 3 "\<lambda>v. True" "\<lambda>v. cs_step_code v \<le> 7" encode_3 decode_3
proof unfold_locales
  fix v p
  assume "encode_3 v = Inr p"
  then have "cs_step_code v \<le> 7"
    "p = payload_compact ((if cs_increase v then 0x08 else 0) OR cs_step_code v)"
    by (auto simp: encode_3_def not_less split: if_splits)
  with step_octet [of "cs_step_code v" "cs_increase v"] show "decode_3 (sent_view p) = Inr v"
    by (simp add: decode_3_def read_compact_def sent_view_compact del: and.assoc)
next
  fix w
  assume "readable 3 w"
  then show "(\<exists>v. decode_3 w = Inr v \<and> True \<and> cs_step_code v \<le> 7) \<or> decode_3 w = Inl Value_out_of_range"
    by (auto simp: decode_3_def main_type_forms word_and_le1)
qed (auto simp: encode_3_def decode_3_def main_type_forms)

text \<open>The main types that are one unsigned word.\<close>

lemma narrow_take_bit: "ucast (ucast (raw :: u32) :: byte) = take_bit 8 raw" "ucast (ucast (raw :: u32) :: u16) = take_bit 16 raw"
  "take_bit 32 raw = raw"
  by (auto intro!: bit_eqI simp: bit_simps)

lemma narrow_octet:
  "ucast (take_bit 8 (raw :: u32)) = (ucast raw :: byte)" "ucast (take_bit 16 (raw :: u32)) = (ucast raw :: u16)"
  "take_bit 32 (raw :: u32) = raw"
  by (auto intro!: bit_eqI simp: bit_simps)

lemma six_bit_octet:
  "ucast ((raw :: u32) AND 0x3F) \<le> (63 :: byte)" "(b :: byte) \<le> 63 \<Longrightarrow> ucast (take_bit 8 (ucast b :: u32) AND 0x3F) = b"
proof -
  show "ucast ((raw :: u32) AND 0x3F) \<le> (63 :: byte)"
    unfolding small_take_bit by (rule bit_eqI) (auto simp: octet_masks(6) bit_simps)
  assume "b \<le> 63"
  then have *: "take_bit 6 b = b" by (simp add: small_take_bit)
  show "ucast (take_bit 8 (ucast b :: u32) AND 0x3F) = b"
    by (subst (2) * [symmetric], rule bit_eqI) (auto simp: octet_masks bit_simps)
qed

lemma bit_128: "bit (0x80 :: byte) n \<longleftrightarrow> n = 7" "bit (0x80 :: int) n \<longleftrightarrow> n = 7"
  using bit_exp_iff [of 7 n, where 'a = "8 word"] bit_exp_iff [of 7 n, where 'a = int] by auto

lemma scene_low_bits: "ucast (take_bit 8 (ucast ((if l then 0x80 else 0) OR b) :: u32) AND 0x3F) = take_bit 6 (b :: byte)"
  by (rule bit_eqI) (auto simp: octet_masks(6) bit_simps bit_128)

lemma scene_octet:
  assumes "(b :: byte) \<le> 63"
  shows "take_bit 8 (ucast ((if l then 0x80 else 0) OR b) :: u32) AND 0x80 \<noteq> 0 \<longleftrightarrow> l"
    "ucast (take_bit 8 (ucast ((if l then 0x80 else 0) OR b) :: u32) AND 0x3F) = b"
proof -
  have *: "take_bit 6 b = b" using assms by (simp add: small_take_bit)
  have "\<not> bit b 7" by (subst * [symmetric]) (simp add: bit_simps)
  then show "take_bit 8 (ucast ((if l then 0x80 else 0) OR b) :: u32) AND 0x80 \<noteq> 0 \<longleftrightarrow> l"
    using and_exp_eq_0_iff_not_bit [of "take_bit 8 (ucast ((if l then 0x80 else 0) OR b) :: u32)" 7]
    by (auto simp: bit_simps)
  show "ucast (take_bit 8 (ucast ((if l then 0x80 else 0) OR b) :: u32) AND 0x3F) = b"
    using scene_low_bits [of l b] * by simp
qed

lemma unsigned_exact:
  assumes size: "main_octets m = n" "n = 1 \<or> n = 2 \<or> n = 4"
    and enc: "\<And>v. encode v = (if valid v then Inr (write_unsigned n (f v)) else Inl Value_out_of_range)"
    and dec: "\<And>w. decode w = (case read_unsigned n w of Inl e \<Rightarrow> Inl e | Inr raw \<Rightarrow> Inr (g raw))"
    and sound: "\<And>raw. holds (g raw) \<and> valid (g raw)"
    and same: "\<And>v. holds v \<Longrightarrow> valid v \<Longrightarrow> g (take_bit (8 * n) (f v)) = v"
  shows "exact_datapoint m holds valid encode decode"
proof unfold_locales
  have pos: "0 < main_octets m" using size by auto
  show "\<exists>p. encode v = Inr p \<and> carries m p" if "valid v" for v
    using that size carries_unsigned [of m "f v"] by (auto simp: enc)
  show "encode v = Inl Value_out_of_range" if "\<not> valid v" for v
    using that by (simp add: enc)
  show "decode w = Inl Unsupported_datapoint" if "\<not> readable m w" for w
    using read_unsigned_form(1) [OF pos size(1) that] by (simp add: dec)
  show "(\<exists>v. decode w = Inr v \<and> holds v \<and> valid v) \<or> decode w = Inl Value_out_of_range" if "readable m w" for w
    using read_unsigned_form(2) [OF pos size(1) that] sound by (auto simp: dec)
  show "decode (sent_view p) = Inr v" if v: "holds v" and p: "encode v = Inr p" for v p
  proof -
    have "valid v" "p = write_unsigned n (f v)" using p by (auto simp: enc split: if_splits)
    moreover have "read_unsigned n (sent_view (write_unsigned n (f v))) = Inr (take_bit (8 * n) (f v))"
      using size(2) read_write_unsigned [of "f v"] narrow_take_bit [of "f v"] by auto
    ultimately show ?thesis using same v by (simp add: dec)
  qed
qed

lemma sint_of_signed_range:
  "-128 \<le> v \<Longrightarrow> v \<le> 127 \<Longrightarrow> sint (word_of_int v :: byte) = v"
  "-32768 \<le> v \<Longrightarrow> v \<le> 32767 \<Longrightarrow> sint (word_of_int v :: u16) = v"
  "-2147483648 \<le> v \<Longrightarrow> v \<le> 2147483647 \<Longrightarrow> sint (word_of_int v :: u32) = v"
  by (simp_all add: signed_of_int signed_take_bit_int_eq_self)

lemma sint_in_range:
  "-128 \<le> sint (b :: byte) \<and> sint b \<le> 127" "-32768 \<le> sint (h :: u16) \<and> sint h \<le> 32767"
  "-2147483648 \<le> sint (x :: u32) \<and> sint x \<le> 2147483647"
  using sint_ge [of b] sint_lt [of b] sint_ge [of h] sint_lt [of h] sint_ge [of x] sint_lt [of x] by simp_all

interpretation main_4: exact_datapoint 4 "\<lambda>v. True" "\<lambda>v. True" encode_4 decode_4
  by (rule unsigned_exact [where n = 1 and f = "\<lambda>v. ucast (v :: byte)" and g = "ucast"])
    (auto simp: encode_4_def decode_4_def narrow_octet not_less split: sum.split)

interpretation main_5: exact_datapoint 5 "\<lambda>v. True" "\<lambda>v. True" encode_5 decode_5
  by (rule unsigned_exact [where n = 1 and f = "\<lambda>v. ucast (v :: byte)" and g = "ucast"])
    (auto simp: encode_5_def decode_5_def narrow_octet not_less split: sum.split)

interpretation main_6: exact_datapoint 6 "\<lambda>v. -128 \<le> v \<and> v \<le> 127" "\<lambda>v. True" encode_6 decode_6
  by (rule unsigned_exact [where n = 1 and f = "\<lambda>v. ucast (word_of_int v :: byte)" and g = "\<lambda>raw. sint (ucast raw :: byte)"])
    (auto simp: encode_6_def decode_6_def narrow_octet not_less sint_of_signed_range sint_in_range split: sum.split)

interpretation main_7: exact_datapoint 7 "\<lambda>v. True" "\<lambda>v. True" encode_7 decode_7
  by (rule unsigned_exact [where n = 2 and f = "\<lambda>v. ucast (v :: u16)" and g = "ucast"])
    (auto simp: encode_7_def decode_7_def narrow_octet not_less split: sum.split)

interpretation main_8: exact_datapoint 8 "\<lambda>v. -32768 \<le> v \<and> v \<le> 32767" "\<lambda>v. True" encode_8 decode_8
  by (rule unsigned_exact [where n = 2 and f = "\<lambda>v. ucast (word_of_int v :: u16)" and g = "\<lambda>raw. sint (ucast raw :: u16)"])
    (auto simp: encode_8_def decode_8_def narrow_octet not_less sint_of_signed_range sint_in_range split: sum.split)

interpretation main_12: exact_datapoint 12 "\<lambda>v. True" "\<lambda>v. True" encode_12 decode_12
  by (rule unsigned_exact [where n = 4 and f = "\<lambda>v. v" and g = "\<lambda>raw. raw"])
    (auto simp: encode_12_def decode_12_def narrow_octet not_less split: sum.split)

interpretation main_13: exact_datapoint 13 "\<lambda>v. -2147483648 \<le> v \<and> v \<le> 2147483647" "\<lambda>v. True" encode_13 decode_13
  by (rule unsigned_exact [where n = 4 and f = "word_of_int" and g = "sint"])
    (auto simp: encode_13_def decode_13_def narrow_octet not_less sint_of_signed_range sint_in_range split: sum.split)

interpretation main_14: exact_datapoint 14 "\<lambda>v. True" "\<lambda>v. True" encode_14 decode_14
  by (rule unsigned_exact [where n = 4 and f = "\<lambda>v. v" and g = "\<lambda>raw. raw"])
    (auto simp: encode_14_def decode_14_def narrow_octet not_less split: sum.split)

interpretation main_17: exact_datapoint 17 "\<lambda>v. True" "\<lambda>v. v \<le> 63" encode_17 decode_17
  by (rule unsigned_exact [where n = 1 and f = "\<lambda>v. ucast (v :: byte)" and g = "\<lambda>raw. ucast (raw AND 0x3F)"])
    (auto simp: encode_17_def decode_17_def narrow_octet not_less six_bit_octet split: sum.split)

interpretation main_18: exact_datapoint 18 "\<lambda>v. True" "\<lambda>v. sc_scene v \<le> 63" encode_18 decode_18
proof (rule unsigned_exact [where n = 1 and f = "\<lambda>v. ucast ((if sc_learn v then 0x80 else 0x00) OR sc_scene v)"
      and g = "\<lambda>raw. \<lparr> sc_learn = raw AND 0x80 \<noteq> 0, sc_scene = ucast (raw AND 0x3F) \<rparr>"])
  show "\<lparr> sc_learn = take_bit (8 * 1) (ucast ((if sc_learn v then 0x80 else 0x00) OR sc_scene v) :: u32) AND 0x80 \<noteq> 0,
      sc_scene = ucast (take_bit (8 * 1) (ucast ((if sc_learn v then 0x80 else 0x00) OR sc_scene v) :: u32) AND 0x3F) \<rparr> = v"
    if "True" "sc_scene v \<le> 63" for v
    unfolding mult_1_right scene_octet [OF that(2), of "sc_learn v"] by simp
qed (auto simp: encode_18_def decode_18_def six_bit_octet not_less)

interpretation main_20: exact_datapoint 20 "\<lambda>v. True" "\<lambda>v. True" encode_20 decode_20
  by (rule unsigned_exact [where n = 1 and f = "\<lambda>v. ucast (v :: byte)" and g = "ucast"])
    (auto simp: encode_20_def decode_20_def narrow_octet not_less split: sum.split)

text \<open>The main types that are a fixed number of octets.\<close>

lemma octets_exact:
  assumes size: "main_octets m = n" "0 < n" "n \<le> 14"
    and enc: "\<And>v. holds v \<Longrightarrow> encode v = (if valid v then payload_octets (f v) else Inl Value_out_of_range)"
    and len: "\<And>v. length (f v) = n"
    and dec: "\<And>w. decode w = (if vv_compacted w \<or> length (vv_octets w) \<noteq> n then Inl Unsupported_datapoint else h (vv_octets w))"
    and sound: "\<And>xs. length xs = n \<Longrightarrow> (\<exists>v. h xs = Inr v \<and> holds v \<and> valid v) \<or> h xs = Inl Value_out_of_range"
    and same: "\<And>v. holds v \<Longrightarrow> valid v \<Longrightarrow> h (f v) = Inr v"
  shows "exact_datapoint m holds valid encode decode"
proof unfold_locales
  have pos: "0 < main_octets m" using size by simp
  show "\<exists>p. encode v = Inr p \<and> carries m p" if "holds v" "valid v" for v
    using that size len carries_octets [OF pos, of "f v"] by (simp add: enc payload_octets_fit)
  show "encode v = Inl Value_out_of_range" if "holds v" "\<not> valid v" for v
    using that by (simp add: enc)
  show "decode w = Inl Unsupported_datapoint" if "\<not> readable m w" for w
    using that readable_octets [OF pos, of w] size by (simp add: dec)
  show "(\<exists>v. decode w = Inr v \<and> holds v \<and> valid v) \<or> decode w = Inl Value_out_of_range" if "readable m w" for w
    using that readable_octets [OF pos, of w] size sound [of "vv_octets w"] by (simp add: dec)
  show "decode (sent_view p) = Inr v" if v: "holds v" and p: "encode v = Inr p" for v p
  proof -
    have "valid v" "p = payload_of (f v)"
      using p v len size by (auto simp: enc payload_octets_fit split: if_splits)
    with v show ?thesis using same len size by (simp add: dec sent_view_of)
  qed
qed

lemma and_masks: "(b :: byte) AND 0x1F = take_bit 5 b" "b AND 0x0F = take_bit 4 b" "b AND 0x3F = take_bit 6 b" "b AND 0x7F = take_bit 7 b"
  by (simp_all add: take_bit_eq_mask mask_eq_exp_minus_1)

lemma byte_positive: "(1 :: byte) \<le> b \<longleftrightarrow> b \<noteq> 0"
  by (simp add: word_le_nat_alt Suc_le_eq unat_gt_0)

lemma octet_below:
  "(b :: byte) \<le> 31 \<Longrightarrow> b AND 0x1F = b" "b \<le> 15 \<Longrightarrow> b AND 0x0F = b" "b \<le> 63 \<Longrightarrow> b AND 0x3F = b" "b \<le> 127 \<Longrightarrow> b AND 0x7F = b"
  by (simp_all add: small_take_bit and_masks)

lemma weekday_octet:
  assumes "(d :: byte) \<le> 7" "(h :: byte) \<le> 31"
  shows "drop_bit 5 (push_bit 5 d OR h) = d" "(push_bit 5 d OR h) AND 0x1F = h"
proof -
  have d: "take_bit 3 d = d" and h: "take_bit 5 h = h" using assms by (simp_all add: small_take_bit)
  have "drop_bit 5 (push_bit 5 (take_bit 3 d) OR take_bit 5 h) = take_bit 3 d"
    by (rule bit_eqI) (auto simp: bit_simps)
  then show "drop_bit 5 (push_bit 5 d OR h) = d" using d h by simp
  have "(push_bit 5 d OR take_bit 5 h) AND mask 5 = take_bit 5 h"
    by (rule bit_eqI) (auto simp: bit_simps)
  then show "(push_bit 5 d OR h) AND 0x1F = h" using h by (simp add: octet_masks)
qed

lemma drop_five: "drop_bit 5 (b :: byte) \<le> 7"
  unfolding small_take_bit by (rule bit_eqI) (auto simp: bit_simps dest: bit_imp_le_length)

interpretation main_10: exact_datapoint 10 "\<lambda>v. True" time_ok encode_10 decode_10
proof (rule octets_exact [where n = 3 and h = read_time
      and f = "\<lambda>v. [push_bit 5 (td_weekday v) OR td_hour v, td_minute v, td_second v]"])
  show "(\<exists>v. read_time xs = Inr v \<and> True \<and> time_ok v) \<or> read_time xs = Inl Value_out_of_range" for xs
    using drop_five [of "xs ! 0"] by (auto simp: read_time_def time_ok_def not_less)
  show "read_time [push_bit 5 (td_weekday v) OR td_hour v, td_minute v, td_second v] = Inr v" if "True" "time_ok v" for v
  proof -
    have "td_hour v \<le> 31" "td_minute v \<le> 63" "td_second v \<le> 63"
      using that by (auto simp: time_ok_def elim: order_trans)
    with that weekday_octet [of "td_weekday v" "td_hour v"] show ?thesis
      by (simp add: read_time_def time_ok_def octet_below not_less)
  qed
qed (auto simp: encode_10_def decode_10_def read_time_def time_ok_def Let_def not_less)

lemma unat_year_octet:
  assumes "1990 \<le> y" "y \<le> 2089"
  shows "unat (year_octet y) = (if 2000 \<le> unat y then unat y - 2000 else unat y - 1900)"
  using assms
  by (simp add: year_octet_def word_le_nat_alt unat_sub_if' unsigned_ucast_eq take_bit_eq_mod)

lemma year_octet_back:
  assumes "1990 \<le> y" "y \<le> 2089"
  shows "year_octet y \<le> 99"
    "(if year_octet y < 90 then 2000 + ucast (year_octet y) else 1900 + ucast (year_octet y)) = y"
  using assms unat_year_octet [OF assms]
  by (auto simp: word_le_nat_alt word_less_nat_alt word_unat_eq_iff unat_word_ariths unsigned_ucast_eq take_bit_eq_mod split: if_splits)

lemma year_range:
  assumes "(b :: byte) \<le> 99"
  shows "1990 \<le> (if b < 90 then 2000 + ucast b else 1900 + ucast b :: u16)"
    "(if b < 90 then 2000 + ucast b else 1900 + ucast b :: u16) \<le> 2089"
  using assms by (auto simp: word_le_nat_alt word_less_nat_alt unat_word_ariths unsigned_ucast_eq take_bit_eq_mod split: if_splits)

interpretation main_11: exact_datapoint 11 "\<lambda>v. True" date_ok encode_11 decode_11
proof (rule octets_exact [where n = 3 and h = read_date
      and f = "\<lambda>v. [dt_day v, dt_month v, year_octet (dt_year v)]"])
  show "(\<exists>v. read_date xs = Inr v \<and> True \<and> date_ok v) \<or> read_date xs = Inl Value_out_of_range" for xs
    using year_range [of "xs ! 2 AND 0x7F"] by (auto simp: read_date_def date_ok_def Let_def not_less byte_positive)
  show "read_date [dt_day v, dt_month v, year_octet (dt_year v)] = Inr v" if "True" "date_ok v" for v
  proof -
    have y: "1990 \<le> dt_year v" "dt_year v \<le> 2089" "dt_month v \<le> 15"
      using that by (auto simp: date_ok_def elim: order_trans)
    have "year_octet (dt_year v) \<le> 127" using year_octet_back(1) [OF y(1,2)] by (rule order_trans) simp
    with that y year_octet_back [OF y(1,2)] show ?thesis
      by (simp add: read_date_def date_ok_def octet_below byte_positive not_less Let_def)
  qed
qed (auto simp: encode_11_def decode_11_def read_date_def date_ok_def Let_def not_less year_octet_def byte_positive)

lemma all_nth: "length xs = n \<Longrightarrow> map ((!) xs) [0..<n] = xs"
  by (rule nth_equalityI) simp_all

interpretation main_16: exact_datapoint 16 "\<lambda>v. length (sv_data v) = 14" "\<lambda>v. True" encode_16 decode_16
  by (rule octets_exact [where n = 14 and f = "\<lambda>v. map ((!) (sv_data v)) [0..<14]"
        and h = "\<lambda>xs. Inr \<lparr> sv_data = map ((!) xs) [0..<14] \<rparr>"])
    (simp_all add: encode_16_def decode_16_def string_capacity_def all_nth del: upt_rec_numeral upt_conv_Cons_Cons)

interpretation main_232: exact_datapoint 232 "\<lambda>v. True" "\<lambda>v. True" encode_232 decode_232
  by (rule octets_exact [where n = 3 and f = "\<lambda>v. [rgb_red v, rgb_green v, rgb_blue v]"
        and h = "\<lambda>xs. Inr \<lparr> rgb_red = xs ! 0, rgb_green = xs ! 1, rgb_blue = xs ! 2 \<rparr>"])
    (auto simp: encode_232_def decode_232_def)

lemma round_even_eq: "of_int k - 1 / 2 < x \<Longrightarrow> x < of_int k + 1 / 2 \<Longrightarrow> round_even x = k"
proof -
  assume x: "of_int k - 1 / 2 < x" "x < of_int k + 1 / 2"
  have "\<bar>rat_of_int (round_even x) - x\<bar> \<le> 1 / 2" by (rule round_even_near)
  with x have "rat_of_int (round_even x) < of_int (k + 1)" "rat_of_int (k - 1) < of_int (round_even x)"
    unfolding abs_le_iff by auto
  then have "round_even x < k + 1" "k - 1 < round_even x" unfolding of_int_less_iff .
  then show ?thesis by simp
qed

lemma float_limits: "min_value = -671088.625" "max_value = 670760.9375"
proof -
  have "round_even (- 67108864 / 100 * 16) = -10737418" "round_even (67076096 / 100 * 16) = 10732175"
    by (rule round_even_eq; simp)+
  moreover have "min_value = of_int (round_even (- 67108864 / 100 * 16)) / 16"
    "max_value = of_int (round_even (67076096 / 100 * 16)) / 16"
    unfolding min_value_def max_value_def by (rule single_round_large; simp)+
  ultimately show "min_value = -671088.625" "max_value = 670760.9375" by simp_all
qed

lemma float_in_limits: "(at_least v min_value \<and> at_most v max_value) \<longleftrightarrow> float_ok v"
  by (cases v) (auto simp: float_limits)

lemma round_to_int_near:
  assumes "-67108864 \<le> x" "x \<le> 67108864"
  shows "x - (1 / 2 + 1 / 33554432) \<le> of_int (round_to_int x)" "of_int (round_to_int x) \<le> x + (1 / 2 + 1 / 33554432)"
proof -
  have "x - (1 / 2 + 1 / 33554432) \<le> of_int (round_to_int x) \<and> of_int (round_to_int x) \<le> x + (1 / 2 + 1 / 33554432)"
  proof (cases "0 \<le> x")
    case True
    let ?y = "double_round (x + 1 / 2)"
    have y: "x + 1 / 2 - 1 / 33554432 \<le> ?y" "?y \<le> x + 1 / 2 + 1 / 33554432"
      using assms by (intro double_round_near; linarith)+
    then have "0 \<le> ?y" using True by linarith
    then have r: "round_to_int x = \<lfloor>?y\<rfloor>" using True by (simp add: round_to_int_def to_integer_def)
    have "of_int \<lfloor>?y\<rfloor> \<le> ?y" "?y < of_int \<lfloor>?y\<rfloor> + 1" using floor_correct [of ?y] by auto
    then show ?thesis unfolding r using y by (intro conjI; linarith)
  next
    case False
    let ?y = "double_round (x - 1 / 2)"
    have y: "x - 1 / 2 - 1 / 33554432 \<le> ?y" "?y \<le> x - 1 / 2 + 1 / 33554432"
      using assms by (intro double_round_near; linarith)+
    then have "\<not> 0 \<le> ?y" using False by linarith
    then have r: "round_to_int x = \<lceil>?y\<rceil>" using False by (simp add: round_to_int_def to_integer_def)
    have "of_int \<lceil>?y\<rceil> - 1 < ?y" "?y \<le> of_int \<lceil>?y\<rceil>" using ceiling_correct [of ?y] by auto
    then show ?thesis unfolding r using y by (intro conjI; linarith)
  qed
  then show "x - (1 / 2 + 1 / 33554432) \<le> of_int (round_to_int x)" "of_int (round_to_int x) \<le> x + (1 / 2 + 1 / 33554432)"
    by blast+
qed

lemma round_to_int_eq:
  assumes "-67108864 \<le> x" "x \<le> 67108864" "of_int k - 1 / 4 \<le> x" "x \<le> of_int k + 1 / 4"
  shows "round_to_int x = k"
proof -
  have "rat_of_int (round_to_int x) < of_int (k + 1)" "rat_of_int (k - 1) < of_int (round_to_int x)"
    using round_to_int_near [OF assms(1,2)] assms(3,4) by auto
  then have "round_to_int x < k + 1" "k - 1 < round_to_int x" unfolding of_int_less_iff .
  then show ?thesis by simp
qed

lemma shrunk:
  assumes "-134217725 / 2 \<le> (a :: rat)" "a \<le> 268304375 / 4"
  shows "-134217725 / 2 \<le> a / 2 ^ e" "a / 2 ^ e \<le> 268304375 / 4"
proof -
  have p: "1 \<le> (2 :: rat) ^ e" by simp
  have "-134217725 / 2 * 2 ^ e \<le> (-134217725 / 2 * 1 :: rat)" using p by (intro mult_left_mono_neg) simp_all
  with assms(1) have "-134217725 / 2 * 2 ^ e \<le> a" by linarith
  then show "-134217725 / 2 \<le> a / 2 ^ e" by (simp add: le_divide_eq)
  have "(268304375 / 4 * 1 :: rat) \<le> 268304375 / 4 * 2 ^ e" using p by (intro mult_left_mono) simp_all
  with assms(2) have "a \<le> 268304375 / 4 * 2 ^ e" by linarith
  then show "a / 2 ^ e \<le> 268304375 / 4" by (simp add: divide_le_eq)
qed

lemma scale_loop_finds:
  assumes "-134217725 / 2 \<le> a" "a \<le> 268304375 / 4" "e \<le> 15"
    "a / 2 ^ e - 1 / 16777216 \<le> scaled" "scaled \<le> a / 2 ^ e + 1 / 16777216"
  shows "\<exists>E m. scale_loop scaled e (round_to_int scaled) = Inr (E, m) \<and> e \<le> E \<and> E \<le> 15 \<and> fits a E m \<and>
    (\<forall>i. e \<le> i \<longrightarrow> i < E \<longrightarrow> too_large a i)"
  using assms(3-)
proof (induction "15 - e" arbitrary: e scaled)
  case 0
  then have e: "e = 15" by simp
  have a: "-2048 \<le> a / 2 ^ e" "a / 2 ^ e \<le> 2047" using assms(1,2) e by simp_all
  have s: "-67108864 \<le> scaled" "scaled \<le> 67108864" using 0 a by linarith+
  note near = round_to_int_near [OF s]
  have "-2049 < rat_of_int (round_to_int scaled)" "rat_of_int (round_to_int scaled) < 2048"
    using near 0 a by linarith+
  then have "rat_of_int (-2049) < of_int (round_to_int scaled)" "rat_of_int (round_to_int scaled) < of_int 2048"
    by simp_all
  then have m: "-2049 < round_to_int scaled" "round_to_int scaled < 2048" unfolding of_int_less_iff .
  then have "fits a e (round_to_int scaled)" using near 0 by (simp add: fits_def)
  moreover have "scale_loop scaled e (round_to_int scaled) = Inr (e, round_to_int scaled)"
    using m by (subst scale_loop.simps) simp
  ultimately show ?case using e by auto
next
  case (Suc n)
  then have e: "e < 15" by simp
  have s: "-67108864 \<le> scaled" "scaled \<le> 67108864" using Suc(4,5) shrunk [OF assms(1,2), of e] by linarith+
  note near = round_to_int_near [OF s]
  show ?case
  proof (cases "-2048 \<le> round_to_int scaled \<and> round_to_int scaled \<le> 2047")
    case True
    then have "fits a e (round_to_int scaled)" using near Suc(4,5) by (simp add: fits_def)
    moreover have "scale_loop scaled e (round_to_int scaled) = Inr (e, round_to_int scaled)"
      using True by (subst scale_loop.simps) simp
    ultimately show ?thesis using e by auto
  next
    case False
    let ?h = "double_round (scaled / 2)"
    have h: "scaled / 2 - 1 / 33554432 \<le> ?h" "?h \<le> scaled / 2 + 1 / 33554432"
      using s by (intro double_round_near; linarith)+
    define b where "b = a / 2 ^ e"
    have half: "a / 2 ^ Suc e = b / 2" by (simp add: b_def)
    have hb: "a / 2 ^ Suc e - 1 / 16777216 \<le> ?h" "?h \<le> a / 2 ^ Suc e + 1 / 16777216"
      unfolding half using h Suc(4,5) unfolding b_def [symmetric] by linarith+
    have n: "n = 15 - Suc e" "Suc e \<le> 15" using Suc(2) e by simp_all
    obtain E m where E: "scale_loop ?h (Suc e) (round_to_int ?h) = Inr (E, m)" "Suc e \<le> E" "E \<le> 15"
        "fits a E m" "\<forall>i. Suc e \<le> i \<longrightarrow> i < E \<longrightarrow> too_large a i"
      using Suc(1) [OF n hb] by blast
    have "scale_loop scaled e (round_to_int scaled) = Inr (E, m)"
      using False e E(1) by (subst scale_loop.simps) auto
    moreover have "too_large a e"
    proof -
      have "round_to_int scaled \<le> -2049 \<or> 2048 \<le> round_to_int scaled" using False by auto
      then have "rat_of_int (round_to_int scaled) \<le> of_int (-2049) \<or> of_int 2048 \<le> rat_of_int (round_to_int scaled)"
        unfolding of_int_le_iff .
      then show ?thesis unfolding too_large_def using near Suc(4,5) by auto
    qed
    then have "\<forall>i. e \<le> i \<longrightarrow> i < E \<longrightarrow> too_large a i"
      using E(5) by (metis Suc_leI le_neq_implies_less)
    ultimately show ?thesis using E by (intro exI [of _ E] exI [of _ m]) simp
  qed
qed

subsection \<open>The two-octet float on the wire\<close>

lemma bit_float_masks: "bit (0x8000 :: int) n \<longleftrightarrow> n = 15" "bit (0x7FF :: int) n \<longleftrightarrow> n < 11"
  using bit_exp_iff [of 15 n, where 'a = int] bit_mask_iff [of 11 n, where 'a = int]
  by (simp_all add: mask_eq_exp_minus_1)

lemma bit_float_word:
  "bit (float_word e m) n \<longleftrightarrow> (n = 15 \<and> m < 0) \<or> (11 \<le> n \<and> n < 16 \<and> bit e (n - 11)) \<or> (n < 11 \<and> bit m n)"
  by (auto simp: float_word_def bit_simps bit_float_masks)

lemma and_float_masks:
  "(w :: u16) AND 0x07FF = take_bit 11 w" "w AND 0x0F = take_bit 4 w" "w AND 0x8000 \<noteq> 0 \<longleftrightarrow> bit w 15"
  using and_exp_eq_0_iff_not_bit [of w 15] by (simp_all add: take_bit_eq_mask mask_eq_exp_minus_1 del: and_exp_eq_0_iff_not_bit)

lemma small_bits:
  assumes "(e :: nat) \<le> 15"
  shows "bit e k \<Longrightarrow> k < (4 :: nat)"
proof -
  have "take_bit 4 e = e" using assms by (simp add: take_bit_nat_eq_self_iff)
  then show "bit e k \<Longrightarrow> k < 4" by (metis bit_take_bit_iff)
qed

lemma float_word_fields:
  assumes "e \<le> 15" "-2048 \<le> m" "m \<le> 2047"
  shows "word_exponent (float_word e m) = e" "word_mantissa (float_word e m) = m"
proof -
  have "take_bit 4 (drop_bit 11 (float_word e m)) = word_of_nat e"
    by (intro bit_eqI) (auto simp: bit_simps bit_float_word dest: small_bits [OF assms(1)])
  then show "word_exponent (float_word e m) = e"
    unfolding word_exponent_def and_float_masks using assms(1) unat_u16_of_nat [of e] by simp
  have "take_bit 11 (float_word e m) = word_of_int (take_bit 11 m)"
    by (intro bit_eqI) (auto simp: bit_simps bit_float_word)
  moreover have "uint (word_of_int (take_bit 11 m) :: u16) = take_bit 11 m"
    by (simp add: unsigned_of_int)
  ultimately have "uint (float_word e m AND 0x07FF) = m mod 2048"
    unfolding and_float_masks by (simp add: take_bit_eq_mod)
  moreover have "m mod 2048 = (if m < 0 then m + 2048 else m)"
    using assms(2,3) mod_pos_pos_trivial [of "m + 2048" 2048] mod_pos_pos_trivial [of m 2048] by auto
  moreover have "float_word e m AND 0x8000 \<noteq> 0 \<longleftrightarrow> m < 0"
    unfolding and_float_masks using small_bits [OF assms(1), of 4] by (auto simp: bit_float_word)
  ultimately show "word_mantissa (float_word e m) = m" by (simp add: word_mantissa_def Let_def)
qed

lemma encode_9_exact:
  assumes "float_ok (Finite v)"
  obtains E m where "encode_9 (Finite v) = Inr (write_unsigned 2 (ucast (float_word E m)))" "E \<le> 15"
    "fits (v * 100) E m" "\<forall>i < E. too_large (v * 100) i"
proof -
  have v: "-134217725 / 2 \<le> v * 100" "v * 100 \<le> 268304375 / 4" using assms by simp_all
  let ?s = "double_round (v * 100)"
  have "v * 100 - 1 / 33554432 \<le> ?s" "?s \<le> v * 100 + 1 / 33554432"
    using v by (intro double_round_near; linarith)+
  then have s: "v * 100 / 2 ^ 0 - 1 / 16777216 \<le> ?s" "?s \<le> v * 100 / 2 ^ 0 + 1 / 16777216"
    by simp_all
  from scale_loop_finds [OF v _ s] obtain E m where
      E: "scale_loop ?s 0 (round_to_int ?s) = Inr (E, m)" "E \<le> 15" "fits (v * 100) E m" "\<forall>i < E. too_large (v * 100) i"
    by auto
  have "at_least (Finite v) min_value \<and> at_most (Finite v) max_value" unfolding float_in_limits by (rule assms)
  then have "encode_9 (Finite v) = Inr (write_unsigned 2 (ucast (float_word E m)))"
    using E(1) by (simp add: encode_9_def Let_def del: at_least.simps at_most.simps)
  then show ?thesis using E(2-4) by (rule that)
qed

lemma word_mantissa_range: "-2048 \<le> word_mantissa w" "word_mantissa w \<le> 2047"
proof -
  define u where "u = uint (w AND 0x07FF)"
  have "u = uint w mod 2048"
    unfolding u_def and_float_masks unsigned_take_bit_eq by (simp add: take_bit_eq_mod)
  then have "0 \<le> u" "u < 2048" by simp_all
  then show "-2048 \<le> word_mantissa w" "word_mantissa w \<le> 2047"
    unfolding word_mantissa_def Let_def u_def [symmetric] by simp_all
qed

lemma word_exponent_range: "word_exponent w \<le> 15"
proof -
  have "word_exponent w = unat (drop_bit 11 w) mod 16"
    unfolding word_exponent_def and_float_masks unsigned_take_bit_eq by (simp add: take_bit_eq_mod)
  then show ?thesis by simp
qed

lemma decode_9_value:
  "decode_9 w = (case read_unsigned 2 w of Inl e \<Rightarrow> Inl e | Inr raw \<Rightarrow> Inr (Finite (word_value (ucast raw))))"
proof -
  have "\<bar>word_mantissa x\<bar> < 2 ^ 24" for x using word_mantissa_range [of x] by simp
  then have "single_round (of_int (word_mantissa x * 2 ^ word_exponent x)) = of_int (word_hundredths x)" for x
    unfolding word_hundredths_def by (rule single_round_scaled)
  then show ?thesis by (simp add: decode_9_def word_value_def Let_def del: of_int_mult split: sum.split)
qed

lemma hundredths_range: "-67108864 \<le> word_hundredths w" "word_hundredths w \<le> 67076096"
proof -
  have p: "(2 :: int) ^ word_exponent w \<le> 2 ^ 15" using word_exponent_range by (intro power_increasing) simp_all
  have "word_mantissa w * 2 ^ word_exponent w \<le> 2047 * 2 ^ word_exponent w"
    using word_mantissa_range by (intro mult_right_mono) simp_all
  also have "\<dots> \<le> 2047 * 2 ^ 15" using p by simp
  finally show "word_hundredths w \<le> 67076096" by (simp add: word_hundredths_def)
  have "- 2048 * 2 ^ 15 \<le> (- 2048 :: int) * 2 ^ word_exponent w" using p by simp
  also have "\<dots> \<le> word_mantissa w * 2 ^ word_exponent w"
    using word_mantissa_range by (intro mult_right_mono) simp_all
  finally show "-67108864 \<le> word_hundredths w" by (simp add: word_hundredths_def)
qed

lemma word_value_ok: "float_ok (Finite (word_value w))"
proof -
  let ?x = "rat_of_int (word_hundredths w) / 100"
  have "rat_of_int (-67108864) \<le> of_int (word_hundredths w)" "rat_of_int (word_hundredths w) \<le> of_int 67076096"
    unfolding of_int_le_iff by (rule hundredths_range)+
  then have x: "-671088.64 \<le> ?x" "?x \<le> 670760.96" by simp_all
  show ?thesis
  proof (cases "2 ^ 19 \<le> \<bar>?x\<bar>")
    case True
    then have "word_value w = of_int (round_even (?x * 16)) / 16"
      unfolding word_value_def using x by (intro single_round_large) (simp_all add: abs_less_iff)
    moreover have "round_even (?x * 16) \<le> round_even (670760.96 * 16)" using x by (intro round_even_mono) simp
    moreover have "round_even (-671088.64 * 16) \<le> round_even (?x * 16)" using x by (intro round_even_mono) simp
    moreover have "round_even (670760.96 * 16) = 10732175" "round_even (-671088.64 * 16) = -10737418"
      by (rule round_even_eq; simp)+
    ultimately have "rat_of_int (round_even (?x * 16)) \<le> of_int 10732175" "of_int (-10737418) \<le> rat_of_int (round_even (?x * 16))"
      unfolding of_int_le_iff by simp_all
    with \<open>word_value w = _\<close> show ?thesis by simp
  next
    case False
    have "\<bar>word_value w - ?x\<bar> \<le> \<bar>?x\<bar> / 2 ^ 24 + 1 / 2 ^ 150" unfolding word_value_def by (rule single_round_near)
    also have "\<dots> \<le> 2 ^ 19 / 2 ^ 24 + 1" using False by (intro add_mono divide_right_mono) simp_all
    also have "\<dots> \<le> 2" by simp
    finally have "\<bar>word_value w - ?x\<bar> \<le> 2" .
    moreover have "- 524288 \<le> ?x" "?x \<le> 524288" using False by (simp_all add: not_le abs_less_iff)
    ultimately have "-600000 \<le> word_value w" "word_value w \<le> 600000" unfolding abs_le_iff by linarith+
    then show ?thesis by simp
  qed
qed

text \<open>
  A word whose value is encoded again comes back as a word of the same number of hundredths (a word
  need not be normalised, so it need not come back itself).
\<close>

lemma word_value_near:
  "\<bar>word_value w * 100 - of_int (word_hundredths w)\<bar> \<le> \<bar>of_int (word_hundredths w)\<bar> / 16777216 + 1 / 16777216"
proof -
  let ?n = "rat_of_int (word_hundredths w)"
  have "\<bar>word_value w - ?n / 100\<bar> \<le> \<bar>?n / 100\<bar> / 2 ^ 24 + 1 / 2 ^ 150"
    unfolding word_value_def by (rule single_round_near)
  then have "\<bar>word_value w - ?n / 100\<bar> * 100 \<le> (\<bar>?n / 100\<bar> / 2 ^ 24 + 1 / 2 ^ 150) * 100"
    by (rule mult_right_mono) simp
  moreover have "\<bar>word_value w - ?n / 100\<bar> * 100 = \<bar>word_value w * 100 - ?n\<bar>"
    by (simp add: abs_if field_simps)
  moreover have "(\<bar>?n / 100\<bar> / 2 ^ 24 + 1 / 2 ^ 150) * 100 \<le> \<bar>?n\<bar> / 16777216 + 1 / 16777216"
    by (simp add: abs_divide field_simps)
  ultimately show ?thesis by linarith
qed

lemma near_scaled:
  fixes n :: rat
  assumes "\<bar>a - n\<bar> \<le> \<bar>n\<bar> / 16777216 + 1 / 16777216"
  shows "\<bar>a / 2 ^ e - n / 2 ^ e\<bar> \<le> \<bar>n / 2 ^ e\<bar> / 16777216 + 1 / 16777216"
proof -
  have "1 / 16777216 / 2 ^ e \<le> (1 / 16777216 :: rat)"
    using divide_left_mono [of 1 "2 ^ e" "1 / 16777216 :: rat"] by simp
  moreover have "\<bar>a - n\<bar> / 2 ^ e \<le> (\<bar>n\<bar> / 16777216 + 1 / 16777216) / 2 ^ e"
    using assms by (rule divide_right_mono) simp
  moreover have "\<bar>a / 2 ^ e - n / 2 ^ e\<bar> = \<bar>a - n\<bar> / 2 ^ e" by (simp add: abs_divide flip: diff_divide_distrib)
  moreover have "(\<bar>n\<bar> / 16777216 + 1 / 16777216) / 2 ^ e = \<bar>n / 2 ^ e\<bar> / 16777216 + 1 / 16777216 / 2 ^ e"
    by (simp add: abs_divide add_divide_distrib ac_simps)
  ultimately show ?thesis by linarith
qed

lemma same_hundredths:
  assumes E: "E \<le> 15" and fit: "fits (word_value w * 100) E m"
    and first: "\<forall>i < E. too_large (word_value w * 100) i"
  shows "m * 2 ^ E = word_hundredths w"
proof -
  let ?a = "word_value w * 100" and ?n = "rat_of_int (word_hundredths w)" and ?k = "word_exponent w"
  note near = near_scaled [OF word_value_near [of w]]
  have nk: "?n / 2 ^ ?k = of_int (word_mantissa w)" by (simp add: word_hundredths_def)
  have mk: "rat_of_int (-2048) \<le> of_int (word_mantissa w)" "rat_of_int (word_mantissa w) \<le> of_int 2047"
    unfolding of_int_le_iff by (rule word_mantissa_range)+
  have "E \<le> ?k"
  proof (rule ccontr)
    assume "\<not> E \<le> ?k"
    then have "too_large ?a ?k" using first by simp
    moreover have "\<bar>rat_of_int (word_mantissa w)\<bar> \<le> 2048" unfolding abs_le_iff using mk by simp
    then have "\<bar>?a / 2 ^ ?k - of_int (word_mantissa w)\<bar> \<le> 1 / 8" using near [of ?k] unfolding nk by linarith
    ultimately show False unfolding too_large_def abs_le_iff using mk by auto
  qed
  then have "word_hundredths w = word_mantissa w * 2 ^ (?k - E) * 2 ^ E"
    by (simp add: word_hundredths_def flip: power_add)
  then obtain j where j: "word_hundredths w = j * 2 ^ E" by blast
  then have nE: "?n / 2 ^ E = of_int j" by simp
  let ?b = "?a / 2 ^ E"
  have m: "rat_of_int (-2048) \<le> of_int m" "rat_of_int m \<le> of_int 2047"
    "?b - (1 / 2 + 1 / 8388608) \<le> of_int m" "of_int m \<le> ?b + (1 / 2 + 1 / 8388608)"
    using fit unfolding fits_def of_int_le_iff by blast+
  have "\<bar>?b - of_int j\<bar> \<le> \<bar>of_int j\<bar> / 16777216 + 1 / 16777216" using near [of E] unfolding nE .
  then have "\<bar>?b - of_int j\<bar> \<le> 1 / 8" using m by (simp add: abs_if split: if_splits)
  then have "rat_of_int (j - 1) < of_int m" "rat_of_int m < of_int (j + 1)"
    unfolding abs_le_iff using m by auto
  then have "j - 1 < m" "m < j + 1" unfolding of_int_less_iff .
  then show ?thesis using j by simp
qed

text \<open>The scalings.\<close>

lemma scaling_step:
  assumes "0 \<le> x" "x \<le> hi" "hi = 100 \<or> hi = 360"
  defines "r \<equiv> round_to_int (double_round (double_round (x * 255) / hi))"
  shows "0 \<le> r" "r \<le> 255" "x * 255 / hi - (1 / 2 + 1 / 8388608) \<le> of_int r" "of_int r \<le> x * 255 / hi + (1 / 2 + 1 / 8388608)"
proof -
  define y where "y = double_round (x * 255)"
  define z where "z = double_round (y / hi)"
  have hi: "0 < hi" "hi \<le> 360" "100 \<le> hi" using assms(3) by auto
  have y: "x * 255 - 1 / 33554432 \<le> y" "y \<le> x * 255 + 1 / 33554432"
    unfolding y_def using assms(1,2) hi by (intro double_round_near; linarith)+
  define q where "q = x * 255 / hi"
  have q: "0 \<le> q" "q \<le> 255" unfolding q_def using assms(1,2) hi by (simp_all add: divide_le_eq)
  have yh: "q - 1 / 33554432 \<le> y / hi \<and> y / hi \<le> q + 1 / 33554432"
  proof -
    from assms(3) have "q = x * 255 / 100 \<and> y / hi = y / 100 \<or> q = x * 255 / 360 \<and> y / hi = y / 360"
      by (auto simp: q_def)
    then show ?thesis using y by (elim disjE conjE; intro conjI; linarith)
  qed
  then have z: "q - 1 / 16777216 \<le> z" "z \<le> q + 1 / 16777216"
    using double_round_near [of "y / hi"] q unfolding z_def by linarith+
  have r: "r = round_to_int z" by (simp add: r_def y_def z_def)
  have zb: "-67108864 \<le> z" "z \<le> 67108864" using z q by linarith+
  have b: "q - (1 / 2 + 1 / 8388608) \<le> of_int r" "of_int r \<le> q + (1 / 2 + 1 / 8388608)"
    unfolding r using round_to_int_near [OF zb] z by linarith+
  then have "rat_of_int (-1) < of_int r" "rat_of_int r < of_int 256" using q by auto
  then have "-1 < r" "r < 256" unfolding of_int_less_iff .
  with b show "0 \<le> r" "r \<le> 255" "x * 255 / hi - (1 / 2 + 1 / 8388608) \<le> of_int r" "of_int r \<le> x * 255 / hi + (1 / 2 + 1 / 8388608)"
    unfolding q_def by simp_all
qed

lemma scaling_back:
  fixes raw :: byte and hi :: int
  assumes "hi = 100 \<or> hi = 360"
  defines "x \<equiv> double_round (double_round (of_int (uint raw) * of_int hi) / 255)"
  shows "0 \<le> x" "x \<le> of_int hi" "round_to_int (double_round (double_round (x * 255) / of_int hi)) = uint raw"
proof -
  have hi: "0 < hi" "hi \<le> 360" "100 \<le> hi" using assms(1) by auto
  have raw: "0 \<le> uint raw" "uint raw \<le> 255" using uint_lt2p [of raw] by simp_all
  have "uint raw * hi \<le> 255 * 360" using raw hi by (intro mult_mono) simp_all
  then have "\<bar>uint raw * hi\<bar> < 2 ^ 53" using raw hi by simp
  then have prod: "double_round (of_int (uint raw) * of_int hi) = of_int (uint raw) * of_int hi"
    using double_round_int [of "uint raw * hi"] by simp
  define q where "q = rat_of_int (uint raw) * of_int hi / 255"
  have x: "x = double_round q" unfolding x_def q_def prod ..
  have raw': "rat_of_int 0 \<le> of_int (uint raw)" "rat_of_int (uint raw) \<le> of_int 255" unfolding of_int_le_iff by (rule raw)+
  have qb: "0 \<le> q \<and> q \<le> of_int hi" using assms(1) raw' unfolding q_def by (elim disjE) simp_all
  have near: "q - 1 / 33554432 \<le> x" "x \<le> q + 1 / 33554432"
    unfolding x using qb assms(1) by (intro double_round_near; auto)+
  consider "uint raw = 0" | "uint raw = 255" | "1 \<le> uint raw" "uint raw \<le> 254" using raw by linarith
  then have "0 \<le> x \<and> x \<le> of_int hi"
  proof cases
    case 3
    then have "rat_of_int 1 \<le> of_int (uint raw)" "rat_of_int (uint raw) \<le> of_int 254" unfolding of_int_le_iff .
    then show ?thesis using near assms(1) unfolding q_def by auto
  qed (use hi assms(1) double_round_int [of hi] double_round_int [of 0] in \<open>auto simp: x q_def\<close>)
  then show b: "0 \<le> x" "x \<le> of_int hi" by blast+
  show "round_to_int (double_round (double_round (x * 255) / of_int hi)) = uint raw"
  proof -
    let ?r = "round_to_int (double_round (double_round (x * 255) / of_int hi))"
    have "x * 255 / of_int hi - (1 / 2 + 1 / 8388608) \<le> of_int ?r" "of_int ?r \<le> x * 255 / of_int hi + (1 / 2 + 1 / 8388608)"
      using scaling_step(3,4) [of x "of_int hi"] b assms(1) by auto
    moreover have "of_int (uint raw) - 1 / 4 \<le> x * 255 / of_int hi \<and> x * 255 / of_int hi \<le> of_int (uint raw) + 1 / 4"
    proof -
      from assms(1) have "q = of_int (uint raw) * 100 / 255 \<and> x * 255 / of_int hi = x * 255 / 100 \<or>
          q = of_int (uint raw) * 360 / 255 \<and> x * 255 / of_int hi = x * 255 / 360" by (auto simp: q_def)
      then show ?thesis using near by (elim disjE conjE; intro conjI; linarith)
    qed
    ultimately have "rat_of_int ?r < of_int (uint raw + 1)" "rat_of_int (uint raw - 1) < of_int ?r" by auto
    then have "?r < uint raw + 1" "uint raw - 1 < ?r" unfolding of_int_less_iff .
    then show ?thesis by simp
  qed
qed

interpretation main_9: datapoint_type 9 "\<lambda>v. True" float_ok encode_9 decode_9
proof unfold_locales
  fix v
  show "\<exists>p. encode_9 v = Inr p \<and> carries 9 p" if "float_ok v"
  proof (cases v)
    case (Finite x)
    with that have "float_ok (Finite x)" by simp
    then obtain E m where "encode_9 (Finite x) = Inr (write_unsigned 2 (ucast (float_word E m)))"
      by (rule encode_9_exact)
    with Finite show ?thesis by (simp add: carries_unsigned)
  qed (use that in simp_all)
  show "encode_9 v = Inl Value_out_of_range" if "\<not> float_ok v"
    using that float_in_limits [of v] by (auto simp: encode_9_def)
next
  fix w
  show "decode_9 w = Inl Unsupported_datapoint" if "\<not> readable 9 w"
    using read_unsigned_form(1) [of 9 2 w] that by (simp add: decode_9_def)
  show "(\<exists>v. decode_9 w = Inr v \<and> True \<and> float_ok v) \<or> decode_9 w = Inl Value_out_of_range" if "readable 9 w"
    using read_unsigned_form(2) [of 9 2 w] that word_value_ok by (auto simp: decode_9_value)
qed

lemma decode_9_sent:
  "decode_9 (sent_view (write_unsigned 2 (ucast w))) = Inr (Finite (word_value w))"
  by (simp add: decode_9_value read_write_unsigned)

lemma word_value_stable:
  "\<exists>p. encode_9 (Finite (word_value w)) = Inr p \<and> decode_9 (sent_view p) = Inr (Finite (word_value w))"
proof -
  obtain E m where E: "encode_9 (Finite (word_value w)) = Inr (write_unsigned 2 (ucast (float_word E m)))" "E \<le> 15"
      "fits (word_value w * 100) E m" "\<forall>i < E. too_large (word_value w * 100) i"
    using encode_9_exact [OF word_value_ok] by metis
  then have "m * 2 ^ E = word_hundredths w" by (intro same_hundredths)
  moreover have "-2048 \<le> m" "m \<le> 2047" using E(3) by (simp_all add: fits_def)
  ultimately have "word_value (float_word E m) = word_value w"
    using float_word_fields [OF E(2)] by (simp add: word_value_def word_hundredths_def)
  with E(1) show ?thesis by (simp add: decode_9_sent)
qed

lemma telegram_view:
  assumes "dpt_payload_wf p" "delivers m f bs" "lm_payload m = payload_apdu p"
  shows "make_value_view f bs = sent_view p"
proof (cases "pl_compacted p")
  case True
  then show ?thesis using assms
    by (simp add: make_value_view_def sent_view_def delivers_def payload_apdu_def apdu_compact_def apdu_default_def
      dpt_payload_wf_def payload_view_def)
next
  case False
  then have n: "1 \<le> unat (pl_size p)" "unat (pl_size p) \<le> 14" "length (pl_storage p) = 14"
    using assms(1) by (simp_all add: dpt_payload_wf_def word_le_nat_alt)
  then have "length (payload_view p) = unat (pl_size p)" by (simp add: payload_view_def)
  then have v: "payload_view p \<noteq> []" "length (payload_view p) \<le> 254" using n by auto
  then show ?thesis using assms False
    by (simp add: make_value_view_def sent_view_def delivers_def payload_apdu_def apdu_extended_def apdu_default_def
      dpt_payload_wf_def max_octets_def)
qed

lemma payload_apdu_ok: "apdu_ok (payload_apdu p)"
  using apdu_constructors_ok
  by (auto simp: payload_apdu_def split: sum.split)

lemma group_write_delivers:
  assumes "dpt_payload_wf p" "opt_hop_count opts \<le> 7" "25 \<le> length dest"
  shows "\<exists>n dest' f. encode_group_value_write dest
      \<lparr> gt_destination = ga, gt_payload = payload_apdu p, gt_source = src, gt_options = opts \<rparr> = (Inr n, dest') \<and>
    cemi_decode (take n dest') = Inr f \<and> cf_source f = src \<and> group_addressed f \<and> group_destination f = ga \<and>
    make_value_view f (take n dest') = sent_view p"
proof -
  let ?m = "group_write ga src opts (payload_apdu p)"
  have "group_value_write AND 0x3FF = group_value_write" "service_of group_value_write = group_value_write"
    "\<not> escaped_service group_value_write" "is_l_data l_data_req"
    by code_simp+
  then have ok: "message_ok ?m"
    using assms(2) payload_apdu_ok [of p] by (simp add: message_ok_def group_write_def default_message_def)
  have "length (ap_octets (payload_apdu p)) \<le> 14"
    using assms(1) by (auto simp: payload_apdu_def apdu_compact_def apdu_default_def apdu_extended_def payload_view_def
      dpt_payload_wf_def word_le_nat_alt split: sum.split if_splits)
  then have "length (cemi_image ?m) \<le> length dest"
    using assms(3) by (simp add: length_cemi_image group_write_def)
  with ok obtain n dest' where e: "cemi_encode dest ?m = (Inr n, dest')" "take n dest' = cemi_image ?m"
    using cemi_encode_image [of ?m dest] by (auto simp: message_ok_def)
  have d: "cemi_decode (take n dest') = Inr (frame_of ?m)" "delivers ?m (frame_of ?m) (take n dest')"
    using cemi_decode_image [OF ok] frame_of_delivers [OF ok] e(2) by simp_all
  moreover have "make_value_view (frame_of ?m) (take n dest') = sent_view p"
    by (rule telegram_view [OF assms(1) d(2)]) (simp add: group_write_def)
  moreover have "encode_group_value_write dest
      \<lparr> gt_destination = ga, gt_payload = payload_apdu p, gt_source = src, gt_options = opts \<rparr> = (Inr n, dest')"
    using e(1) by (simp add: encode_group_value_write_def group_write_def)
  moreover have "cf_source (frame_of ?m) = src" "cf_destination (frame_of ?m) = ga_value ga"
    "frame_address_type (frame_of ?m) = Group_type"
    using d(2) by (simp_all add: delivers_def group_write_def default_message_def)
  ultimately show ?thesis by (auto simp: group_addressed_def group_destination_def)
qed

lemmas encode_facts =
    main_1.encode_valid main_2.encode_valid main_3.encode_valid main_4.encode_valid main_5.encode_valid
    main_6.encode_valid main_7.encode_valid main_8.encode_valid main_9.encode_valid main_10.encode_valid
    main_11.encode_valid main_12.encode_valid main_13.encode_valid main_14.encode_valid
    main_16.encode_valid main_17.encode_valid main_18.encode_valid main_20.encode_valid
    main_232.encode_valid
    main_3.encode_invalid main_9.encode_invalid main_10.encode_invalid main_11.encode_invalid
    main_17.encode_invalid main_18.encode_invalid

lemmas decode_facts =
    main_1.decode_foreign main_2.decode_foreign main_3.decode_foreign main_4.decode_foreign
    main_5.decode_foreign main_6.decode_foreign main_7.decode_foreign main_8.decode_foreign
    main_9.decode_foreign main_10.decode_foreign main_11.decode_foreign main_12.decode_foreign
    main_13.decode_foreign main_14.decode_foreign main_16.decode_foreign main_17.decode_foreign
    main_18.decode_foreign main_20.decode_foreign main_232.decode_foreign

lemmas exact_facts =
    main_1.decode_encode main_2.decode_encode main_3.decode_encode main_4.decode_encode
    main_5.decode_encode main_6.decode_encode main_7.decode_encode main_8.decode_encode
    main_10.decode_encode main_11.decode_encode main_12.decode_encode main_13.decode_encode
    main_14.decode_encode main_16.decode_encode main_17.decode_encode main_18.decode_encode
    main_20.decode_encode main_232.decode_encode

lemma datapoint_encode_cases:
  assumes "representable v"
  shows "if in_range v then \<exists>p. dpt_encode v = Inr p \<and> carries (main_number (main_of v)) p
    else dpt_encode v = Inl Value_out_of_range"
  using assms by (cases v) (simp_all add: encode_facts)

lemma decode_dispatch_foreign: "\<not> readable (main_number t) w \<Longrightarrow> dpt_decode t w = Inl Unsupported_datapoint"
  by (cases t) (simp_all add: decode_facts)

lemma exact_dispatch:
  assumes "representable v" "main_of v \<noteq> Main_9" "dpt_encode v = Inr p"
  shows "dpt_decode (main_of v) (sent_view p) = Inr v"
  using assms by (cases v) (simp_all add: exact_facts)

lemma decode_result_cases:
  assumes "(\<exists>v. d = Inr v \<and> h v \<and> ok v) \<or> d = Inl Value_out_of_range"
    "\<And>v. h v \<Longrightarrow> ok v \<Longrightarrow> main_of (c v) = t \<and> representable (c v) \<and> in_range (c v)"
  shows "(\<exists>v. map_sum id c d = Inr v \<and> main_of v = t \<and> representable v \<and> in_range v) \<or> map_sum id c d = Inl Value_out_of_range"
  using assms by auto

lemma datapoint_decode_cases:
  assumes "readable (main_number t) w"
  shows "(\<exists>v. dpt_decode t w = Inr v \<and> main_of v = t \<and> representable v \<and> in_range v) \<or>
    dpt_decode t w = Inl Value_out_of_range"
proof (cases t)
  case Main_1
  with assms show ?thesis by (simp only: dpt_decode.simps main_number.simps) (rule decode_result_cases [OF main_1.decode_readable], simp_all)
next
  case Main_2
  with assms show ?thesis by (simp only: dpt_decode.simps main_number.simps) (rule decode_result_cases [OF main_2.decode_readable], simp_all)
next
  case Main_3
  with assms show ?thesis by (simp only: dpt_decode.simps main_number.simps) (rule decode_result_cases [OF main_3.decode_readable], simp_all)
next
  case Main_4
  with assms show ?thesis by (simp only: dpt_decode.simps main_number.simps) (rule decode_result_cases [OF main_4.decode_readable], simp_all)
next
  case Main_5
  with assms show ?thesis by (simp only: dpt_decode.simps main_number.simps) (rule decode_result_cases [OF main_5.decode_readable], simp_all)
next
  case Main_6
  with assms show ?thesis by (simp only: dpt_decode.simps main_number.simps) (rule decode_result_cases [OF main_6.decode_readable], simp_all)
next
  case Main_7
  with assms show ?thesis by (simp only: dpt_decode.simps main_number.simps) (rule decode_result_cases [OF main_7.decode_readable], simp_all)
next
  case Main_8
  with assms show ?thesis by (simp only: dpt_decode.simps main_number.simps) (rule decode_result_cases [OF main_8.decode_readable], simp_all)
next
  case Main_9
  with assms show ?thesis by (simp only: dpt_decode.simps main_number.simps) (rule decode_result_cases [OF main_9.decode_readable], simp_all)
next
  case Main_10
  with assms show ?thesis by (simp only: dpt_decode.simps main_number.simps) (rule decode_result_cases [OF main_10.decode_readable], simp_all)
next
  case Main_11
  with assms show ?thesis by (simp only: dpt_decode.simps main_number.simps) (rule decode_result_cases [OF main_11.decode_readable], simp_all)
next
  case Main_12
  with assms show ?thesis by (simp only: dpt_decode.simps main_number.simps) (rule decode_result_cases [OF main_12.decode_readable], simp_all)
next
  case Main_13
  with assms show ?thesis by (simp only: dpt_decode.simps main_number.simps) (rule decode_result_cases [OF main_13.decode_readable], simp_all)
next
  case Main_14
  with assms show ?thesis by (simp only: dpt_decode.simps main_number.simps) (rule decode_result_cases [OF main_14.decode_readable], simp_all)
next
  case Main_16
  with assms show ?thesis by (simp only: dpt_decode.simps main_number.simps) (rule decode_result_cases [OF main_16.decode_readable], simp_all)
next
  case Main_17
  with assms show ?thesis by (simp only: dpt_decode.simps main_number.simps) (rule decode_result_cases [OF main_17.decode_readable], simp_all)
next
  case Main_18
  with assms show ?thesis by (simp only: dpt_decode.simps main_number.simps) (rule decode_result_cases [OF main_18.decode_readable], simp_all)
next
  case Main_20
  with assms show ?thesis by (simp only: dpt_decode.simps main_number.simps) (rule decode_result_cases [OF main_20.decode_readable], simp_all)
next
  case Main_232
  with assms show ?thesis by (simp only: dpt_decode.simps main_number.simps) (rule decode_result_cases [OF main_232.decode_readable], simp_all)
qed

subsection \<open>Properties\<close>

text \<open>
  C21: a value of any main type but the two-octet float that its encoder accepts, written to a group
  in a cEMI telegram, is what a receiver of the telegram decodes: the message fits 25 octets, it is
  addressed to the group, and decoding its payload as the same main type gives back the value.
\<close>

theorem datapoint_telegram_roundtrip:
  assumes "representable v" "main_of v \<noteq> Main_9" "dpt_encode v = Inr p"
    "opt_hop_count opts \<le> 7" "25 \<le> length dest"
  shows "\<exists>n dest' f. encode_group_value_write dest
      \<lparr> gt_destination = ga, gt_payload = payload_apdu p, gt_source = src, gt_options = opts \<rparr> = (Inr n, dest') \<and>
    cemi_decode (take n dest') = Inr f \<and> cf_source f = src \<and> group_addressed f \<and> group_destination f = ga \<and>
    dpt_decode_frame (main_of v) f (take n dest') = Inr v"
proof -
  have "carries (main_number (main_of v)) p"
    using datapoint_encode_cases [OF assms(1)] assms(3) by (cases "in_range v") auto
  then have "dpt_payload_wf p" by (simp add: carries_def)
  with assms(4,5) group_write_delivers [of p opts dest ga src] exact_dispatch [OF assms(1-3)]
  show ?thesis by (auto simp: dpt_decode_frame_def)
qed

lemma sample_time:
  "dpt_encode (Value_10 \<lparr> td_weekday = 3, td_hour = 14, td_minute = 30, td_second = 5 \<rparr>) = Inr (payload_of [0x6E, 30, 5])"
  by (simp add: encode_10_def payload_octets_fit)

theorem datapoint_telegram_roundtrip_witness:
  "\<exists>n dest' f. encode_group_value_write (replicate 25 0)
      \<lparr> gt_destination = Group_address 0x0901, gt_payload = payload_apdu (payload_of [0x6E, 30, 5]),
        gt_source = Individual_address 0, gt_options = default_options \<rparr> = (Inr n, dest') \<and>
    cemi_decode (take n dest') = Inr f \<and> cf_source f = Individual_address 0 \<and> group_addressed f \<and>
    group_destination f = Group_address 0x0901 \<and>
    dpt_decode_frame (main_of (Value_10 \<lparr> td_weekday = 3, td_hour = 14, td_minute = 30, td_second = 5 \<rparr>)) f (take n dest') =
      Inr (Value_10 \<lparr> td_weekday = 3, td_hour = 14, td_minute = 30, td_second = 5 \<rparr>)"
  by (rule datapoint_telegram_roundtrip [OF _ _ sample_time]) (simp_all add: default_options_def)

text \<open>
  An encoder accepts exactly the values its main type can represent and refuses any other as out
  of range; what it produces has the width the table of main types gives, in six bits or in octets.
\<close>

theorem datapoint_encoding_exact:
  assumes "representable v"
  shows "(\<exists>p. dpt_encode v = Inr p \<and> carries (main_number (main_of v)) p) \<and> in_range v \<or>
    dpt_encode v = Inl Value_out_of_range \<and> \<not> in_range v"
  using datapoint_encode_cases [OF assms] by (cases "in_range v") auto

theorem datapoint_encoding_exact_witness:
  "(\<exists>p. dpt_encode (Value_11 \<lparr> dt_day = 30, dt_month = 2, dt_year = 2089 \<rparr>) = Inr p \<and>
      carries (main_number (main_of (Value_11 \<lparr> dt_day = 30, dt_month = 2, dt_year = 2089 \<rparr>))) p) \<and>
     in_range (Value_11 \<lparr> dt_day = 30, dt_month = 2, dt_year = 2089 \<rparr>) \<or>
   dpt_encode (Value_11 \<lparr> dt_day = 30, dt_month = 2, dt_year = 2089 \<rparr>) = Inl Value_out_of_range \<and>
     \<not> in_range (Value_11 \<lparr> dt_day = 30, dt_month = 2, dt_year = 2089 \<rparr>)"
  by (rule datapoint_encoding_exact) simp

text \<open>
  Whatever arrives, a decoder refuses a value of the wrong width as an unsupported datapoint, and
  of the right width returns either an error or a value of its own type within the range of its main
  type, which its encoder therefore accepts.
\<close>

theorem datapoint_decoding_sound:
  "if readable (main_number t) w
   then (\<exists>v. dpt_decode t w = Inr v \<and> main_of v = t \<and> representable v \<and> in_range v) \<or>
     dpt_decode t w = Inl Value_out_of_range
   else dpt_decode t w = Inl Unsupported_datapoint"
  using datapoint_decode_cases [of t w] decode_dispatch_foreign [of t w] by (cases "readable (main_number t) w") auto

text \<open>
  C22: the two-octet float encoder returns for every number in its range, with the smallest exponent
  whose mantissa fits, and the mantissa is within half a step (and the rounding of the double
  arithmetic, a fraction of 2 to the 23rd of a step) of the number; a receiver reads the same mantissa
  and exponent and returns the nearest \<open>float\<close> to what they denote.
\<close>

theorem float_encoding_nearest:
  assumes "float_ok (Finite v)"
  shows "\<exists>p E m. encode_9 (Finite v) = Inr p \<and> E \<le> 15 \<and> -2048 \<le> m \<and> m \<le> 2047 \<and>
    \<bar>of_int m - v * 100 / 2 ^ E\<bar> \<le> 1 / 2 + 1 / 2 ^ 23 \<and>
    (\<forall>i < E. v * 100 / 2 ^ i < -2048.25 \<or> 2047.25 < v * 100 / 2 ^ i) \<and>
    decode_9 (sent_view p) = Inr (Finite (single_round (of_int (m * 2 ^ E) / 100)))"
proof -
  obtain E m where E: "encode_9 (Finite v) = Inr (write_unsigned 2 (ucast (float_word E m)))" "E \<le> 15"
      "fits (v * 100) E m" "\<forall>i < E. too_large (v * 100) i"
    using assms by (rule encode_9_exact)
  have m: "-2048 \<le> m" "m \<le> 2047" "\<bar>of_int m - v * 100 / 2 ^ E\<bar> \<le> 1 / 2 + 1 / 8388608"
    using E(3) unfolding fits_def abs_le_iff by auto
  have "word_value (float_word E m) = single_round (of_int (m * 2 ^ E) / 100)"
    using float_word_fields [OF E(2) m(1,2)] by (simp add: word_value_def word_hundredths_def)
  with E m show ?thesis
    by (intro exI [of _ "write_unsigned 2 (ucast (float_word E m))"] exI [of _ E] exI [of _ m])
      (auto simp: decode_9_sent too_large_def)
qed

theorem float_encoding_nearest_witness:
  "\<exists>p E m. encode_9 (Finite 21.5) = Inr p \<and> E \<le> 15 \<and> -2048 \<le> m \<and> m \<le> 2047 \<and>
    \<bar>of_int m - 21.5 * 100 / 2 ^ E\<bar> \<le> (1 / 2 + 1 / 2 ^ 23 :: rat) \<and>
    (\<forall>i < E. 21.5 * 100 / 2 ^ i < (-2048.25 :: rat) \<or> (2047.25 :: rat) < 21.5 * 100 / 2 ^ i) \<and>
    decode_9 (sent_view p) = Inr (Finite (single_round (of_int (m * 2 ^ E) / 100)))"
  by (rule float_encoding_nearest) simp

text \<open>
  C23: a received two-octet float can be sent on: the value the decoder returns for any two octets is
  one the encoder accepts, and decoding its encoding gives the same value again.
\<close>

theorem float_decoding_stable:
  assumes "decode_9 w = Inr v"
  shows "\<exists>p. encode_9 v = Inr p \<and> decode_9 (sent_view p) = Inr v"
proof -
  obtain x where "v = Finite (word_value x)" using assms by (auto simp: decode_9_value split: sum.splits)
  with word_value_stable [of x] show ?thesis by simp
qed

theorem float_decoding_stable_witness:
  "\<exists>v. decode_9 \<lparr> vv_compacted = False, vv_compact_value = 0, vv_octets = [0x0C, 0x33] \<rparr> = Inr v \<and>
     (\<exists>p. encode_9 v = Inr p \<and> decode_9 (sent_view p) = Inr v)"
proof -
  let ?w = "\<lparr> vv_compacted = False, vv_compact_value = 0, vv_octets = [0x0C, 0x33 :: byte] \<rparr>"
  obtain v where "decode_9 ?w = Inr v" by (simp add: decode_9_value read_unsigned_def)
  with float_decoding_stable [OF this] show ?thesis by blast
qed

text \<open>
  C24: percentages and angles.  A percentage of 0 to 100 is encoded as the octet nearest to its share
  of 255, up to the rounding of the double arithmetic, without overflow of the octet; any octet read
  as a percentage is encoded again as that octet; and the same holds for angles of 0 to 360 degrees.
\<close>

theorem scaling_exact:
  assumes "0 \<le> x" "x \<le> 100" "0 \<le> y" "y \<le> 360" "decode_5 w = Inr raw"
  shows "(\<exists>r. encode_scaling (Finite x) = encode_5 (word_of_int r) \<and> 0 \<le> r \<and> r \<le> 255 \<and>
      \<bar>of_int r - x * 255 / 100\<bar> \<le> 1 / 2 + 1 / 2 ^ 23) \<and>
    (\<exists>r. encode_angle (Finite y) = encode_5 (word_of_int r) \<and> 0 \<le> r \<and> r \<le> 255 \<and>
      \<bar>of_int r - y * 255 / 360\<bar> \<le> 1 / 2 + 1 / 2 ^ 23) \<and>
    (\<exists>p. decode_scaling w = Inr p \<and> encode_scaling p = encode_5 raw) \<and>
    (\<exists>a. decode_angle w = Inr a \<and> encode_angle a = encode_5 raw)"
proof -
  note s = scaling_step [OF assms(1,2)] and a = scaling_step [OF assms(3,4)]
  have "\<exists>r. encode_scaling (Finite x) = encode_5 (word_of_int r) \<and> 0 \<le> r \<and> r \<le> 255 \<and>
      \<bar>of_int r - x * 255 / 100\<bar> \<le> 1 / 2 + 1 / 8388608"
    using assms(1,2) s unfolding abs_le_iff encode_scaling_def
    by (intro exI [of _ "round_to_int (double_round (double_round (x * 255) / 100))"]) auto
  moreover have "\<exists>r. encode_angle (Finite y) = encode_5 (word_of_int r) \<and> 0 \<le> r \<and> r \<le> 255 \<and>
      \<bar>of_int r - y * 255 / 360\<bar> \<le> 1 / 2 + 1 / 8388608"
    using assms(3,4) a unfolding abs_le_iff encode_angle_def
    by (intro exI [of _ "round_to_int (double_round (double_round (y * 255) / 360))"]) auto
  moreover have "\<exists>p. decode_scaling w = Inr p \<and> encode_scaling p = encode_5 raw"
    using scaling_back [of 100 raw] assms(5) by (simp add: decode_scaling_def encode_scaling_def)
  moreover have "\<exists>a. decode_angle w = Inr a \<and> encode_angle a = encode_5 raw"
    using scaling_back [of 360 raw] assms(5) by (simp add: decode_angle_def encode_angle_def)
  ultimately show ?thesis by simp
qed

theorem scaling_exact_witness:
  "(\<exists>r. encode_scaling (Finite 50) = encode_5 (word_of_int r) \<and> 0 \<le> r \<and> r \<le> 255 \<and>
      \<bar>of_int r - 50 * 255 / 100\<bar> \<le> (1 / 2 + 1 / 2 ^ 23 :: rat)) \<and>
    (\<exists>r. encode_angle (Finite 90) = encode_5 (word_of_int r) \<and> 0 \<le> r \<and> r \<le> 255 \<and>
      \<bar>of_int r - 90 * 255 / 360\<bar> \<le> (1 / 2 + 1 / 2 ^ 23 :: rat)) \<and>
    (\<exists>p. decode_scaling \<lparr> vv_compacted = False, vv_compact_value = 0, vv_octets = [128] \<rparr> = Inr p \<and>
      encode_scaling p = encode_5 128) \<and>
    (\<exists>a. decode_angle \<lparr> vv_compacted = False, vv_compact_value = 0, vv_octets = [128] \<rparr> = Inr a \<and>
      encode_angle a = encode_5 128)"
  by (rule scaling_exact) (simp_all add: decode_5_def read_unsigned_def)

end
