(* ===== verification/Modbus.thy ===== *)
theory Modbus
  imports Prelude
begin

text \<open>
  Modbus TCP (\<open>modbus/\<close>): the frame codecs of \<open>frame.cpp\<close>, the exchange of a request and its
  response over a stream (\<open>detail/session.hpp\<close>), the client operations (\<open>detail/client_ops.hpp\<close>,
  \<open>client.cpp\<close>) and the server's handling of a connection (\<open>detail/server_ops.hpp\<close>,
  \<open>server.cpp\<close>).  The TLS client and server run the same operations over another stream.

  A stream is its environment: the results its reads will give, in order, as chunks of octets or
  errors, what was written to it, and whether writing fails.  How the peer's octets are cut into
  chunks is arbitrary, and every theorem holds for all of them.  The handlers of a server are the
  application's and are parameters.
\<close>

subsection \<open>Errors and types\<close>

datatype modbus_error =
    Mb_success | Mb_feature_disabled | Mb_invalid_configuration | Mb_connection_failed | Mb_disconnected
  | Mb_exception_response | Mb_unexpected_function_code | Mb_unexpected_transaction_id | Mb_frame_too_large
  | Mb_malformed_frame | Mb_invalid_unit_id | Mb_tls_handshake_failed | Mb_timed_out | Mb_internal_error

text \<open>A \<open>std::error_code\<close>: one of the Modbus category or a system error number.\<close>

datatype error_code = Modbus_error modbus_error | System_error int

type_synonym 'a mb_result = "error_code + 'a"

type_synonym function_code = byte

definition read_coils_code :: function_code where "read_coils_code = 0x01"
definition read_discrete_inputs_code :: function_code where "read_discrete_inputs_code = 0x02"
definition read_holding_registers_code :: function_code where "read_holding_registers_code = 0x03"
definition read_input_registers_code :: function_code where "read_input_registers_code = 0x04"
definition write_single_coil_code :: function_code where "write_single_coil_code = 0x05"
definition write_single_register_code :: function_code where "write_single_register_code = 0x06"
definition write_multiple_coils_code :: function_code where "write_multiple_coils_code = 0x0F"
definition write_multiple_registers_code :: function_code where "write_multiple_registers_code = 0x10"

type_synonym exception_code = byte

definition illegal_function :: exception_code where "illegal_function = 0x01"

definition broadcast_unit_id :: byte where "broadcast_unit_id = 0xFF"

record mbap_header =
  mh_transaction_id :: u16
  mh_protocol_id :: u16
  mh_length :: u16
  mh_unit_id :: byte

subsection \<open>Frames\<close>

definition mbap_size :: nat where "mbap_size = 7"
definition max_pdu_size :: nat where "max_pdu_size = 253"
definition max_read_registers :: u16 where "max_read_registers = 125"
definition max_write_registers :: nat where "max_write_registers = 123"
definition max_read_coils :: u16 where "max_read_coils = 2000"
definition max_write_coils :: nat where "max_write_coils = 1968"
definition exception_fc_flag :: byte where "exception_fc_flag = 0x80"
definition bits_per_byte :: nat where "bits_per_byte = 8"
definition coil_on_value :: u16 where "coil_on_value = 0xFF00"
definition mbap_length_offset :: nat where "mbap_length_offset = 4"
definition mbap_unit_id_offset :: nat where "mbap_unit_id_offset = 6"
definition single_pdu_size :: nat where "single_pdu_size = 5"
definition pdu_value_offset :: nat where "pdu_value_offset = 3"
definition write_multi_byte_count_offset :: nat where "write_multi_byte_count_offset = 5"
definition pdu_data_offset :: nat where "pdu_data_offset = 6"

definition write_be16 :: "bytes \<Rightarrow> nat \<Rightarrow> u16 \<Rightarrow> bytes" where
  "write_be16 dest offset v = write_at dest offset [hi8 v, lo8 v]"

definition read_be16 :: "bytes \<Rightarrow> nat \<Rightarrow> u16" where
  "read_be16 src offset = be16 (src ! offset) (src ! (offset + 1))"

definition max_read_count :: "function_code \<Rightarrow> u16" where
  "max_read_count fc =
     (if fc = read_coils_code \<or> fc = read_discrete_inputs_code then max_read_coils
      else if fc = read_holding_registers_code \<or> fc = read_input_registers_code then max_read_registers
      else 0)"

definition encode_mbap :: "bytes \<Rightarrow> u16 \<Rightarrow> u16 \<Rightarrow> byte \<Rightarrow> bytes" where
  "encode_mbap dest tid pdu_length unit_id =
     (let length_field = 1 + pdu_length;
          dest = write_be16 dest 0 tid;
          dest = write_be16 dest 2 0;
          dest = write_be16 dest mbap_length_offset length_field
      in write_at dest mbap_unit_id_offset [unit_id])"

definition decode_mbap :: "bytes \<Rightarrow> mbap_header mb_result" where
  "decode_mbap src =
     (if length src < mbap_size then Inl (Modbus_error Mb_malformed_frame)
      else let protocol_id = read_be16 src 2
           in if protocol_id \<noteq> 0 then Inl (Modbus_error Mb_malformed_frame)
              else Inr \<lparr> mh_transaction_id = read_be16 src 0, mh_protocol_id = protocol_id,
                         mh_length = read_be16 src mbap_length_offset, mh_unit_id = src ! mbap_unit_id_offset \<rparr>)"

definition encode_read_request :: "function_code \<Rightarrow> u16 \<Rightarrow> u16 \<Rightarrow> bytes mb_result" where
  "encode_read_request fc address count =
     (let limit = max_read_count fc
      in if limit = 0 \<or> count = 0 \<or> count > limit then Inl (Modbus_error Mb_frame_too_large)
         else let pdu = write_at (replicate single_pdu_size 0) 0 [fc];
                  pdu = write_be16 pdu 1 address
              in Inr (write_be16 pdu pdu_value_offset count))"

definition encode_write_single_register :: "u16 \<Rightarrow> u16 \<Rightarrow> bytes" where
  "encode_write_single_register address v =
     (let pdu = write_at (replicate single_pdu_size 0) 0 [write_single_register_code];
          pdu = write_be16 pdu 1 address
      in write_be16 pdu pdu_value_offset v)"

definition encode_write_single_coil :: "u16 \<Rightarrow> bool \<Rightarrow> bytes" where
  "encode_write_single_coil address on =
     (let pdu = write_at (replicate single_pdu_size 0) 0 [write_single_coil_code];
          pdu = write_be16 pdu 1 address
      in write_be16 pdu pdu_value_offset (if on then coil_on_value else 0))"

definition encode_write_multiple_registers :: "u16 \<Rightarrow> u16 list \<Rightarrow> bytes mb_result" where
  "encode_write_multiple_registers address values =
     (if values = [] \<or> length values > max_write_registers then Inl (Modbus_error Mb_frame_too_large)
      else
        let n = word_of_nat (length values) :: u16;
            byte_count = ucast (n * 2) :: byte;
            pdu = replicate (pdu_data_offset + unat byte_count) 0;
            pdu = write_at pdu 0 [write_multiple_registers_code];
            pdu = write_be16 pdu 1 address;
            pdu = write_be16 pdu pdu_value_offset n;
            pdu = write_at pdu write_multi_byte_count_offset [byte_count]
        in Inr (foldl (\<lambda>pdu i. write_be16 pdu (pdu_data_offset + i * 2) (values ! i)) pdu [0..<length values]))"

definition set_coil :: "bytes \<Rightarrow> bytes \<Rightarrow> nat \<Rightarrow> bytes" where
  "set_coil values pdu i =
     (if values ! i \<noteq> 0
      then write_at pdu (pdu_data_offset + i div bits_per_byte)
             [pdu ! (pdu_data_offset + i div bits_per_byte) OR push_bit (i mod bits_per_byte) 1]
      else pdu)"

definition encode_write_multiple_coils :: "u16 \<Rightarrow> bytes \<Rightarrow> bytes mb_result" where
  "encode_write_multiple_coils address values =
     (if values = [] \<or> length values > max_write_coils then Inl (Modbus_error Mb_frame_too_large)
      else
        let n = word_of_nat (length values) :: u16;
            byte_count = word_of_nat ((unat n + bits_per_byte - 1) div bits_per_byte) :: byte;
            pdu = replicate (pdu_data_offset + unat byte_count) 0;
            pdu = write_at pdu 0 [write_multiple_coils_code];
            pdu = write_be16 pdu 1 address;
            pdu = write_be16 pdu pdu_value_offset n;
            pdu = write_at pdu write_multi_byte_count_offset [byte_count]
        in Inr (foldl (set_coil values) pdu [0..<length values]))"

definition is_exception_pdu :: "bytes \<Rightarrow> bool" where
  "is_exception_pdu pdu \<longleftrightarrow> pdu \<noteq> [] \<and> pdu ! 0 AND exception_fc_flag \<noteq> 0"

definition decode_exception_pdu :: "bytes \<Rightarrow> exception_code mb_result" where
  "decode_exception_pdu pdu = (if length pdu < 2 then Inl (Modbus_error Mb_malformed_frame) else Inr (pdu ! 1))"

definition decode_read_registers_response :: "bytes \<Rightarrow> function_code \<Rightarrow> u16 \<Rightarrow> u16 list mb_result" where
  "decode_read_registers_response pdu expected_fc count =
     (if pdu = [] then Inl (Modbus_error Mb_malformed_frame)
      else if is_exception_pdu pdu then Inl (Modbus_error Mb_exception_response)
      else if pdu ! 0 \<noteq> expected_fc then Inl (Modbus_error Mb_unexpected_function_code)
      else if length pdu < 2 then Inl (Modbus_error Mb_malformed_frame)
      else let byte_count = pdu ! 1; expected_bytes = unat count * 2
           in if unat byte_count \<noteq> expected_bytes \<or> length pdu < 2 + expected_bytes
              then Inl (Modbus_error Mb_malformed_frame)
              else Inr (map (\<lambda>i. read_be16 pdu (2 + i * 2)) [0..<unat count]))"

definition decode_read_coils_response :: "bytes \<Rightarrow> function_code \<Rightarrow> u16 \<Rightarrow> bytes mb_result" where
  "decode_read_coils_response pdu expected_fc count =
     (if pdu = [] then Inl (Modbus_error Mb_malformed_frame)
      else if is_exception_pdu pdu then Inl (Modbus_error Mb_exception_response)
      else if pdu ! 0 \<noteq> expected_fc then Inl (Modbus_error Mb_unexpected_function_code)
      else if length pdu < 2 then Inl (Modbus_error Mb_malformed_frame)
      else let byte_count = pdu ! 1; expected_bytes = (unat count + bits_per_byte - 1) div bits_per_byte
           in if unat byte_count \<noteq> expected_bytes \<or> length pdu < 2 + expected_bytes
              then Inl (Modbus_error Mb_malformed_frame)
              else Inr (map (\<lambda>i. drop_bit (i mod bits_per_byte) (pdu ! (2 + i div bits_per_byte)) AND 0x01)
                     [0..<unat count]))"

definition decode_write_single_response :: "bytes \<Rightarrow> function_code \<Rightarrow> unit mb_result" where
  "decode_write_single_response pdu expected_fc =
     (if pdu = [] then Inl (Modbus_error Mb_malformed_frame)
      else if is_exception_pdu pdu then Inl (Modbus_error Mb_exception_response)
      else if pdu ! 0 \<noteq> expected_fc then Inl (Modbus_error Mb_unexpected_function_code)
      else if length pdu < single_pdu_size then Inl (Modbus_error Mb_malformed_frame)
      else Inr ())"

definition decode_write_multiple_response :: "bytes \<Rightarrow> function_code \<Rightarrow> unit mb_result" where
  "decode_write_multiple_response pdu expected_fc =
     (if pdu = [] then Inl (Modbus_error Mb_malformed_frame)
      else if is_exception_pdu pdu then Inl (Modbus_error Mb_exception_response)
      else if pdu ! 0 \<noteq> expected_fc then Inl (Modbus_error Mb_unexpected_function_code)
      else if length pdu < single_pdu_size then Inl (Modbus_error Mb_malformed_frame)
      else Inr ())"

subsection \<open>Streams\<close>

datatype read_event = Chunk bytes | Read_error int

text \<open>One \<open>read\<close> into a buffer of \<open>n\<close> octets: no more than that many, none at the end of the stream.\<close>

fun stream_read :: "nat \<Rightarrow> read_event list \<Rightarrow> bytes mb_result \<times> read_event list" where
  "stream_read n [] = (Inr [], [])"
| "stream_read n (Read_error e # es) = (Inl (System_error e), es)"
| "stream_read n (Chunk bs # es) =
     (if length bs \<le> n then (Inr bs, es) else (Inr (take n bs), Chunk (drop n bs) # es))"

record stream =
  st_incoming :: "read_event list"
  st_outgoing :: bytes
  st_write_error :: "int option"

definition write_all :: "bytes \<Rightarrow> stream \<Rightarrow> unit mb_result \<times> stream" where
  "write_all bs s =
     (case st_write_error s of Some e \<Rightarrow> (Inl (System_error e), s)
      | None \<Rightarrow> (Inr (), s\<lparr> st_outgoing := st_outgoing s @ bs \<rparr>))"

text \<open>
  The loop of \<open>read_exactly\<close>, for the octets still wanted.  It ends because a read that gives
  nothing is an error.
\<close>

function read_chunks :: "nat \<Rightarrow> read_event list \<Rightarrow> bytes mb_result \<times> read_event list" where
  "read_chunks wanted es =
     (if wanted = 0 then (Inr [], es)
      else
        case stream_read wanted es of
          (Inl e, es) \<Rightarrow> (Inl e, es)
        | (Inr bs, es) \<Rightarrow>
            if bs = [] then (Inl (Modbus_error Mb_disconnected), es)
            else case read_chunks (wanted - length bs) es of
                   (Inl e, es) \<Rightarrow> (Inl e, es)
                 | (Inr rest, es) \<Rightarrow> (Inr (bs @ rest), es))"
  by auto

termination read_chunks
  by (relation "measure fst") auto

declare read_chunks.simps [simp del]

definition read_exactly :: "nat \<Rightarrow> stream \<Rightarrow> bytes mb_result \<times> stream" where
  "read_exactly n s =
     (case read_chunks n (st_incoming s) of (r, es) \<Rightarrow> (r, s\<lparr> st_incoming := es \<rparr>))"

definition exchange :: "bytes \<Rightarrow> u16 \<Rightarrow> byte \<Rightarrow> stream \<Rightarrow> bytes mb_result \<times> stream" where
  "exchange adu expected_tid expected_unit s =
     (case write_all adu s of (Inl e, s) \<Rightarrow> (Inl e, s) | (Inr _, s) \<Rightarrow>
      (case read_exactly mbap_size s of (Inl e, s) \<Rightarrow> (Inl e, s) | (Inr hdr_buf, s) \<Rightarrow>
       (case decode_mbap hdr_buf of Inl e \<Rightarrow> (Inl e, s) | Inr hdr \<Rightarrow>
          if mh_transaction_id hdr \<noteq> expected_tid then (Inl (Modbus_error Mb_unexpected_transaction_id), s)
          else if mh_unit_id hdr \<noteq> expected_unit then (Inl (Modbus_error Mb_invalid_unit_id), s)
          else if mh_length hdr < 1 then (Inl (Modbus_error Mb_malformed_frame), s)
          else let pdu_len = unat (mh_length hdr) - 1
               in if pdu_len > 0 then read_exactly pdu_len s else (Inr [], s))))"

subsection \<open>The client\<close>

record modbus_client =
  mc_unit_id :: byte
  mc_stream :: "stream option"
  mc_next_tid :: u16

definition client_adu :: "modbus_client \<Rightarrow> bytes \<Rightarrow> bytes" where
  "client_adu c pdu =
     (let pdu_len = word_of_nat (length pdu) :: u16;
          adu = encode_mbap (replicate (mbap_size + unat pdu_len) 0) (mc_next_tid c) pdu_len (mc_unit_id c)
      in write_at adu mbap_size pdu)"

definition exchange_pdu :: "bytes \<Rightarrow> modbus_client \<Rightarrow> bytes mb_result \<times> modbus_client" where
  "exchange_pdu pdu c =
     (case mc_stream c of None \<Rightarrow> (Inl (Modbus_error Mb_disconnected), c)
      | Some s \<Rightarrow>
          (case exchange (client_adu c pdu) (mc_next_tid c) (mc_unit_id c) s of
             (r, s) \<Rightarrow> (r, c\<lparr> mc_stream := Some s, mc_next_tid := mc_next_tid c + 1 \<rparr>)))"

definition read_registers :: "function_code \<Rightarrow> u16 \<Rightarrow> u16 \<Rightarrow> modbus_client \<Rightarrow> u16 list mb_result \<times> modbus_client" where
  "read_registers fc address count c =
     (case encode_read_request fc address count of Inl e \<Rightarrow> (Inl e, c)
      | Inr pdu \<Rightarrow>
          (case exchange_pdu pdu c of (Inl e, c) \<Rightarrow> (Inl e, c)
           | (Inr response, c) \<Rightarrow> (decode_read_registers_response response fc count, c)))"

definition read_coils_impl :: "function_code \<Rightarrow> u16 \<Rightarrow> u16 \<Rightarrow> modbus_client \<Rightarrow> bytes mb_result \<times> modbus_client" where
  "read_coils_impl fc address count c =
     (case encode_read_request fc address count of Inl e \<Rightarrow> (Inl e, c)
      | Inr pdu \<Rightarrow>
          (case exchange_pdu pdu c of (Inl e, c) \<Rightarrow> (Inl e, c)
           | (Inr response, c) \<Rightarrow> (decode_read_coils_response response fc count, c)))"

definition disconnect :: "modbus_client \<Rightarrow> unit mb_result \<times> modbus_client" where
  "disconnect c = (Inr (), c\<lparr> mc_stream := None \<rparr>)"

definition is_connected :: "modbus_client \<Rightarrow> bool" where
  "is_connected c \<longleftrightarrow> mc_stream c \<noteq> None"

definition read_holding_registers :: "u16 \<Rightarrow> u16 \<Rightarrow> modbus_client \<Rightarrow> u16 list mb_result \<times> modbus_client" where
  "read_holding_registers = read_registers read_holding_registers_code"

definition read_input_registers :: "u16 \<Rightarrow> u16 \<Rightarrow> modbus_client \<Rightarrow> u16 list mb_result \<times> modbus_client" where
  "read_input_registers = read_registers read_input_registers_code"

definition read_coils :: "u16 \<Rightarrow> u16 \<Rightarrow> modbus_client \<Rightarrow> bytes mb_result \<times> modbus_client" where
  "read_coils = read_coils_impl read_coils_code"

definition read_discrete_inputs :: "u16 \<Rightarrow> u16 \<Rightarrow> modbus_client \<Rightarrow> bytes mb_result \<times> modbus_client" where
  "read_discrete_inputs = read_coils_impl read_discrete_inputs_code"

definition write_single_register :: "u16 \<Rightarrow> u16 \<Rightarrow> modbus_client \<Rightarrow> unit mb_result \<times> modbus_client" where
  "write_single_register address v c =
     (case exchange_pdu (encode_write_single_register address v) c of (Inl e, c) \<Rightarrow> (Inl e, c)
      | (Inr response, c) \<Rightarrow> (decode_write_single_response response write_single_register_code, c))"

definition write_single_coil :: "u16 \<Rightarrow> bool \<Rightarrow> modbus_client \<Rightarrow> unit mb_result \<times> modbus_client" where
  "write_single_coil address on c =
     (case exchange_pdu (encode_write_single_coil address on) c of (Inl e, c) \<Rightarrow> (Inl e, c)
      | (Inr response, c) \<Rightarrow> (decode_write_single_response response write_single_coil_code, c))"

definition write_multiple_registers :: "u16 \<Rightarrow> u16 list \<Rightarrow> modbus_client \<Rightarrow> unit mb_result \<times> modbus_client" where
  "write_multiple_registers address values c =
     (case encode_write_multiple_registers address values of Inl e \<Rightarrow> (Inl e, c)
      | Inr pdu \<Rightarrow>
          (case exchange_pdu pdu c of (Inl e, c) \<Rightarrow> (Inl e, c)
           | (Inr response, c) \<Rightarrow> (decode_write_multiple_response response write_multiple_registers_code, c)))"

definition write_multiple_coils :: "u16 \<Rightarrow> bytes \<Rightarrow> modbus_client \<Rightarrow> unit mb_result \<times> modbus_client" where
  "write_multiple_coils address values c =
     (case encode_write_multiple_coils address values of Inl e \<Rightarrow> (Inl e, c)
      | Inr pdu \<Rightarrow>
          (case exchange_pdu pdu c of (Inl e, c) \<Rightarrow> (Inl e, c)
           | (Inr response, c) \<Rightarrow> (decode_write_multiple_response response write_multiple_coils_code, c)))"

subsection \<open>The server\<close>

record server_request =
  rq_unit_id :: byte
  rq_pdu :: bytes

type_synonym request_handler = "server_request \<Rightarrow> bytes"
type_synonym handlers = "byte \<rightharpoonup> request_handler"

definition set_handler :: "function_code \<Rightarrow> request_handler \<Rightarrow> handlers \<Rightarrow> handlers" where
  "set_handler fc handler hs = hs(fc \<mapsto> handler)"

definition make_exception_response :: "byte \<Rightarrow> exception_code \<Rightarrow> bytes" where
  "make_exception_response request_fc ec = [request_fc OR exception_fc_flag, ec]"

definition read_header :: "stream \<Rightarrow> mbap_header option \<times> stream" where
  "read_header s =
     (case read_exactly mbap_size s of (Inl e, s) \<Rightarrow> (None, s)
      | (Inr hdr_buf, s) \<Rightarrow> (case decode_mbap hdr_buf of Inl e \<Rightarrow> (None, s) | Inr hdr \<Rightarrow> (Some hdr, s)))"

definition addressed_to_us :: "mbap_header \<Rightarrow> byte \<Rightarrow> bool" where
  "addressed_to_us hdr unit_id \<longleftrightarrow> unit_id = broadcast_unit_id \<or> mh_unit_id hdr = unit_id"

definition read_pdu :: "u16 \<Rightarrow> stream \<Rightarrow> bytes option \<times> stream" where
  "read_pdu mbap_length s =
     (if mbap_length < 2 then (None, s)
      else case read_exactly (unat mbap_length - 1) s of (Inl e, s) \<Rightarrow> (None, s) | (Inr pdu, s) \<Rightarrow> (Some pdu, s))"

definition dispatch :: "handlers \<Rightarrow> mbap_header \<Rightarrow> bytes \<Rightarrow> bytes" where
  "dispatch hs hdr pdu =
     (let request_fc = pdu ! 0
      in case hs request_fc of None \<Rightarrow> make_exception_response request_fc illegal_function
         | Some handler \<Rightarrow> handler \<lparr> rq_unit_id = mh_unit_id hdr, rq_pdu = pdu \<rparr>)"

definition build_response_adu :: "mbap_header \<Rightarrow> bytes \<Rightarrow> bytes" where
  "build_response_adu hdr response_pdu =
     (let pdu_len = word_of_nat (length response_pdu) :: u16;
          adu = encode_mbap (replicate (mbap_size + unat pdu_len) 0) (mh_transaction_id hdr) pdu_len (mh_unit_id hdr)
      in write_at adu mbap_size response_pdu)"

definition process_request :: "handlers \<Rightarrow> byte \<Rightarrow> stream \<Rightarrow> bool \<times> stream" where
  "process_request hs unit_id s =
     (case read_header s of (None, s) \<Rightarrow> (False, s)
      | (Some hdr, s) \<Rightarrow>
          if \<not> addressed_to_us hdr unit_id then (False, s)
          else
            case read_pdu (mh_length hdr) s of (None, s) \<Rightarrow> (False, s)
            | (Some pdu, s) \<Rightarrow>
                (case write_all (build_response_adu hdr (dispatch hs hdr pdu)) s of
                   (r, s) \<Rightarrow> (r = Inr (), s)))"

text \<open>The octets a stream still holds.\<close>

definition event_size :: "read_event list \<Rightarrow> nat" where
  "event_size es = sum_list (map (\<lambda>e. case e of Chunk bs \<Rightarrow> length bs | Read_error e \<Rightarrow> 0) es)"

subsection \<open>What the streams carry\<close>

text \<open>
  \<open>available\<close> is what the reads of a stream give up to the first error or end, however it is cut into
  chunks; \<open>request_adu\<close> and \<open>register_octets\<close> are the octets of a unit and of a list of registers.
\<close>

fun available :: "read_event list \<Rightarrow> bytes" where
  "available [] = []"
| "available (Read_error e # es) = []"
| "available (Chunk bs # es) = (if bs = [] then [] else bs @ available es)"

definition mbap_octets :: "u16 \<Rightarrow> u16 \<Rightarrow> byte \<Rightarrow> bytes" where
  "mbap_octets tid len u = [hi8 tid, lo8 tid, 0, 0, hi8 (1 + len), lo8 (1 + len), u]"

definition request_adu :: "u16 \<Rightarrow> byte \<Rightarrow> bytes \<Rightarrow> bytes" where
  "request_adu tid u pdu = mbap_octets tid (word_of_nat (length pdu)) u @ pdu"

definition header_of :: "u16 \<Rightarrow> byte \<Rightarrow> bytes \<Rightarrow> mbap_header" where
  "header_of tid u pdu = \<lparr> mh_transaction_id = tid, mh_protocol_id = 0, mh_length = 1 + word_of_nat (length pdu), mh_unit_id = u \<rparr>"

definition register_octets :: "u16 list \<Rightarrow> bytes" where
  "register_octets values = concat (map (\<lambda>v. [hi8 v, lo8 v]) values)"

text \<open>A client with one outstanding request, and a server whose handler echoes what it is asked.\<close>

definition sample_stream :: stream where
  "sample_stream = \<lparr> st_incoming = [Chunk [0, 7, 0, 0, 0, 6, 1, 6, 0, 1], Chunk [0xAB, 0xCD]], st_outgoing = [],
     st_write_error = None \<rparr>"

definition sample_modbus_client :: modbus_client where
  "sample_modbus_client = \<lparr> mc_unit_id = 1, mc_stream = Some sample_stream, mc_next_tid = 7 \<rparr>"

definition echo_handlers :: handlers where
  "echo_handlers = [6 \<mapsto> rq_pdu]"

subsection \<open>Reading a stream, and the loop over a connection\<close>

lemma stream_read_available:
  "stream_read n es = (Inr bs, es') \<Longrightarrow> bs \<noteq> [] \<Longrightarrow> length bs \<le> n \<and> available es = bs @ available es'"
  by (induction n es rule: stream_read.induct) (auto split: if_splits)

lemma stream_read_cases:
  assumes "0 < n"
  obtains (more) bs es' where "stream_read n es = (Inr bs, es')" "bs \<noteq> []" "length bs \<le> n" "available es = bs @ available es'"
    | (none) "available es = []" "\<exists>e. fst (stream_read n es) = Inl e" | (ended) "available es = []" "\<exists>es'. stream_read n es = (Inr [], es')"
  using assms by (induction n es rule: stream_read.induct) (force split: if_splits)+

lemma read_chunks_enough:
  "wanted \<le> length (available es) \<Longrightarrow>
   \<exists>es'. read_chunks wanted es = (Inr (take wanted (available es)), es') \<and> available es' = drop wanted (available es)"
proof (induction wanted es rule: read_chunks.induct)
  case (1 wanted es)
  show ?case
  proof (cases "wanted = 0")
    case True
    then show ?thesis by (simp add: read_chunks.simps [of 0])
  next
    case False
    then have "0 < wanted" by simp
    then show ?thesis
    proof (cases rule: stream_read_cases [of wanted es])
      case (more bs es')
      then have "\<exists>es''. read_chunks (wanted - length bs) es' =
          (Inr (take (wanted - length bs) (available es')), es'') \<and> available es'' = drop (wanted - length bs) (available es')"
        using 1 False by auto
      with more False show ?thesis by (auto simp: read_chunks.simps [of wanted es])
    qed (use 1 False in auto)
  qed
qed

lemma read_chunks_short:
  "length (available es) < wanted \<Longrightarrow> \<exists>e. fst (read_chunks wanted es) = Inl e"
proof (induction wanted es rule: read_chunks.induct)
  case (1 wanted es)
  then have "0 < wanted" by auto
  then show ?case
  proof (cases rule: stream_read_cases [of wanted es])
    case (more bs es')
    then have "\<exists>e. fst (read_chunks (wanted - length bs) es') = Inl e" using 1 \<open>0 < wanted\<close> by auto
    with more \<open>0 < wanted\<close> show ?thesis by (auto simp: read_chunks.simps [of wanted es] split: prod.split)
  next
    case none
    with \<open>0 < wanted\<close> show ?thesis by (auto simp: read_chunks.simps [of wanted es] split: prod.split)
  next
    case ended
    with \<open>0 < wanted\<close> show ?thesis by (auto simp: read_chunks.simps [of wanted es])
  qed
qed

lemma stream_read_size: "stream_read n es = (Inr bs, es') \<Longrightarrow> event_size es = length bs + event_size es'"
  by (induction n es rule: stream_read.induct) (auto simp: event_size_def split: if_splits)

lemma read_chunks_size:
  "read_chunks wanted es = (Inr bs, es') \<Longrightarrow> length bs = wanted \<and> event_size es = wanted + event_size es'"
proof (induction wanted es arbitrary: bs es' rule: read_chunks.induct)
  case (1 wanted es)
  show ?case
  proof (cases "wanted = 0")
    case True
    then show ?thesis using 1(2) by (simp add: read_chunks.simps [of 0])
  next
    case False
    obtain r es1 where r: "stream_read wanted es = (r, es1)" by (cases "stream_read wanted es")
    obtain cs where cs: "r = Inr cs" "cs \<noteq> []"
      using 1(2) False r by (cases r) (auto simp: read_chunks.simps [of wanted es] split: if_splits)
    obtain q es2 where q: "read_chunks (wanted - length cs) es1 = (q, es2)"
      by (cases "read_chunks (wanted - length cs) es1")
    obtain rest where "q = Inr rest" "bs = cs @ rest" "es2 = es'"
      using 1(2) False r cs q by (cases q) (simp_all add: read_chunks.simps [of wanted es])
    with r cs q have s: "stream_read wanted es = (Inr cs, es1)" "cs \<noteq> []"
        "read_chunks (wanted - length cs) es1 = (Inr rest, es')" "bs = cs @ rest" by simp_all
    then have "length rest = wanted - length cs \<and> event_size es1 = wanted - length cs + event_size es'"
      using 1(1) [OF False s(1) [symmetric] refl s(2,3)] by simp
    with s show ?thesis using stream_read_size [OF s(1)] stream_read_available [OF s(1,2)] by auto
  qed
qed

lemma read_exactly_size:
  "read_exactly n s = (Inr bs, t) \<Longrightarrow> length bs = n \<and> event_size (st_incoming s) = n + event_size (st_incoming t)"
  using read_chunks_size by (fastforce simp: read_exactly_def split: prod.splits)

lemma process_request_consumes:
  assumes "process_request hs u s = (True, t)"
  shows "event_size (st_incoming t) < event_size (st_incoming s)"
proof -
  obtain hdr s1 where h: "read_header s = (Some hdr, s1)"
    using assms by (cases "read_header s") (auto simp: process_request_def split: option.splits)
  obtain bs where "read_exactly mbap_size s = (Inr bs, s1)"
    using h by (auto simp: read_header_def split: prod.splits sum.splits)
  then have 1: "event_size (st_incoming s1) < event_size (st_incoming s)"
    using read_exactly_size by (auto simp: mbap_size_def)
  obtain pdu s2 where p: "read_pdu (mh_length hdr) s1 = (Some pdu, s2)"
    using assms h by (cases "read_pdu (mh_length hdr) s1") (auto simp: process_request_def split: option.splits if_splits)
  have 2: "event_size (st_incoming s2) \<le> event_size (st_incoming s1)"
    using p read_exactly_size by (fastforce simp: read_pdu_def split: prod.splits sum.splits if_splits)
  have "st_incoming t = st_incoming s2"
    using assms h p by (auto simp: process_request_def write_all_def split: option.splits if_splits)
  with 1 2 show ?thesis by simp
qed

text \<open>
  The loop of \<open>handle_connection\<close>.  Each element of the list is what the stop token says before one
  more request; past its end no stop is requested.  The octets still to be read bound the number of
  requests, because every served request consumes its header and its payload.
\<close>

function handle_connection :: "handlers \<Rightarrow> byte \<Rightarrow> bool list \<Rightarrow> stream \<Rightarrow> stream" where
  "handle_connection hs unit_id stops s =
     (if stops \<noteq> [] \<and> hd stops then s
      else case process_request hs unit_id s of
             (False, s) \<Rightarrow> s
           | (True, s) \<Rightarrow> handle_connection hs unit_id (tl stops) s)"
  by auto

termination handle_connection
  by (relation "measure (\<lambda>(hs, u, stops, s). event_size (st_incoming s))") (auto dest!: process_request_consumes [OF sym])

declare handle_connection.simps [simp del]

subsection \<open>Lemmas\<close>

lemma mbap_octets_length [simp]: "length (mbap_octets tid len u) = 7"
  by (simp add: mbap_octets_def)

lemmas mbap_offsets = mbap_size_def mbap_length_offset_def mbap_unit_id_offset_def

lemma encode_mbap_layout:
  assumes "7 \<le> length dest"
  shows "encode_mbap dest tid len u = mbap_octets tid len u @ drop 7 dest"
proof -
  have "hi8 0 = 0" "lo8 0 = 0" by (simp_all add: hi8_def lo8_def)
  then show ?thesis
    using assms by (simp add: encode_mbap_def write_be16_def mbap_offsets Let_def write_at_def mbap_octets_def
      numeral_eq_Suc take_Suc_conv_app_nth drop_Suc)
qed

lemma decode_mbap_octets:
  "decode_mbap (mbap_octets tid len u) =
     Inr \<lparr> mh_transaction_id = tid, mh_protocol_id = 0, mh_length = 1 + len, mh_unit_id = u \<rparr>"
proof -
  have "be16 0 0 = 0" by (simp add: be16_def)
  then show ?thesis
    by (simp add: decode_mbap_def mbap_octets_def read_be16_def mbap_offsets del: be16_hi_lo)
      (simp add: numeral_eq_Suc)
qed

lemma adu_layout:
  assumes "length pdu < 65536"
  shows "write_at (encode_mbap (replicate (mbap_size + unat (word_of_nat (length pdu) :: u16)) 0) tid
      (word_of_nat (length pdu)) u) mbap_size pdu = request_adu tid u pdu"
proof -
  have "unat (word_of_nat (length pdu) :: u16) = length pdu" using assms by (intro unat_u16_of_nat) simp
  then show ?thesis by (simp add: encode_mbap_layout mbap_size_def request_adu_def write_at_def)
qed

lemma client_adu_layout: "length pdu < 65536 \<Longrightarrow> client_adu c pdu = request_adu (mc_next_tid c) (mc_unit_id c) pdu"
  using adu_layout by (simp add: client_adu_def Let_def)

lemma build_response_adu_layout:
  "length pdu < 65536 \<Longrightarrow> build_response_adu hdr pdu = request_adu (mh_transaction_id hdr) (mh_unit_id hdr) pdu"
  using adu_layout by (simp add: build_response_adu_def Let_def)

lemma length_field:
  assumes "length pdu < 65535"
  shows "unat (1 + word_of_nat (length pdu) :: u16) = 1 + length pdu"
proof -
  have "(1 + word_of_nat (length pdu) :: u16) = word_of_nat (1 + length pdu)" by simp
  moreover have "unat (word_of_nat (1 + length pdu) :: u16) = 1 + length pdu" using assms by (intro unat_u16_of_nat) simp
  ultimately show ?thesis by simp
qed

lemma read_exactly_enough:
  assumes "available (st_incoming s) = bs @ rest" "length bs = n"
  shows "\<exists>t. read_exactly n s = (Inr bs, t) \<and> available (st_incoming t) = rest \<and> st_outgoing t = st_outgoing s \<and>
    st_write_error t = st_write_error s"
  using read_chunks_enough [of n "st_incoming s"] assms by (auto simp: read_exactly_def)

lemma read_header_request:
  assumes "available (st_incoming s) = request_adu tid u pdu @ rest"
  shows "\<exists>t. read_header s = (Some (header_of tid u pdu), t) \<and> available (st_incoming t) = pdu @ rest \<and>
    st_outgoing t = st_outgoing s \<and> st_write_error t = st_write_error s"
  using read_exactly_enough [of s "mbap_octets tid (word_of_nat (length pdu)) u" "pdu @ rest" 7] assms
  by (auto simp: read_header_def request_adu_def header_of_def mbap_size_def decode_mbap_octets)

lemma read_pdu_request:
  assumes "available (st_incoming s) = pdu @ rest" "pdu \<noteq> []" "length pdu < 65535"
  shows "\<exists>t. read_pdu (mh_length (header_of tid u pdu)) s = (Some pdu, t) \<and> available (st_incoming t) = rest \<and>
    st_outgoing t = st_outgoing s \<and> st_write_error t = st_write_error s"
proof -
  have "\<not> (1 + word_of_nat (length pdu) :: u16) < 2"
    using assms(2,3) length_field [OF assms(3)] by (simp add: word_less_nat_alt not_less Suc_le_eq)
  then show ?thesis
    using read_exactly_enough [OF assms(1), of "length pdu"] length_field [OF assms(3)]
    by (auto simp: read_pdu_def header_of_def)
qed

lemma process_request_served:
  assumes "available (st_incoming s) = request_adu tid u pdu @ rest" "pdu \<noteq> []" "length pdu < 65535"
    "unit_id = broadcast_unit_id \<or> unit_id = u" "st_write_error s = None"
  shows "\<exists>t. process_request hs unit_id s = (True, t) \<and> available (st_incoming t) = rest \<and> st_write_error t = None \<and>
    st_outgoing t = st_outgoing s @ build_response_adu (header_of tid u pdu) (dispatch hs (header_of tid u pdu) pdu)"
proof -
  obtain s1 where h: "read_header s = (Some (header_of tid u pdu), s1)" "available (st_incoming s1) = pdu @ rest"
      "st_outgoing s1 = st_outgoing s" "st_write_error s1 = None"
    using read_header_request [OF assms(1)] assms(5) by auto
  obtain s2 where p: "read_pdu (mh_length (header_of tid u pdu)) s1 = (Some pdu, s2)" "available (st_incoming s2) = rest"
      "st_outgoing s2 = st_outgoing s" "st_write_error s2 = None"
    using read_pdu_request [OF h(2) assms(2,3)] h(3,4) by auto
  have "addressed_to_us (header_of tid u pdu) unit_id"
    using assms(4) by (auto simp: addressed_to_us_def header_of_def)
  then show ?thesis using h(1) p by (simp add: process_request_def write_all_def)
qed

lemma exchange_reply:
  assumes "available (st_incoming s) = request_adu tid u r @ rest" "length r < 65535" "st_write_error s = None"
  shows "\<exists>t. exchange adu tid u s = (Inr r, t) \<and> available (st_incoming t) = rest \<and>
    st_outgoing t = st_outgoing s @ adu \<and> st_write_error t = None"
proof -
  let ?s = "s\<lparr> st_outgoing := st_outgoing s @ adu \<rparr>"
  have "available (st_incoming ?s) = mbap_octets tid (word_of_nat (length r)) u @ (r @ rest)"
    using assms(1) by (simp add: request_adu_def)
  then obtain s1 where h: "read_exactly 7 ?s = (Inr (mbap_octets tid (word_of_nat (length r)) u), s1)"
      "available (st_incoming s1) = r @ rest" "st_outgoing s1 = st_outgoing s @ adu" "st_write_error s1 = None"
    using read_exactly_enough [of ?s _ "r @ rest" 7] assms(3) by auto
  obtain s2 where p: "read_exactly (length r) s1 = (Inr r, s2)" "available (st_incoming s2) = rest"
      "st_outgoing s2 = st_outgoing s @ adu" "st_write_error s2 = None"
    using read_exactly_enough [OF h(2), of "length r"] h(3,4) by auto
  have len: "unat (1 + word_of_nat (length r) :: u16) = 1 + length r" using assms(2) by (rule length_field)
  then have "\<not> (1 + word_of_nat (length r) :: u16) < 1" by (simp add: word_less_nat_alt)
  then show ?thesis
    using h p assms(3) len
    by (cases "r = []") (auto simp: exchange_def write_all_def mbap_size_def decode_mbap_octets)
qed

lemma request_pipeline:
  assumes "available (st_incoming s) = concat (map (\<lambda>(tid, pdu). request_adu tid u pdu) requests)"
    "\<forall>(tid, pdu) \<in> set requests. pdu \<noteq> [] \<and> length pdu < 65535"
    "unit_id = broadcast_unit_id \<or> unit_id = u" "st_write_error s = None"
  shows "st_outgoing (handle_connection hs unit_id [] s) = st_outgoing s @
    concat (map (\<lambda>(tid, pdu). build_response_adu (header_of tid u pdu) (dispatch hs (header_of tid u pdu) pdu)) requests)"
  using assms
proof (induction requests arbitrary: s)
  case Nil
  have "\<exists>e. fst (read_chunks mbap_size (st_incoming s)) = Inl e"
    by (rule read_chunks_short) (use Nil(1) in \<open>simp add: mbap_size_def\<close>)
  then have "fst (read_header s) = None" "st_outgoing (snd (read_header s)) = st_outgoing s"
    by (auto simp: read_header_def read_exactly_def split: prod.splits sum.splits)
  then have "\<exists>t. process_request hs unit_id s = (False, t) \<and> st_outgoing t = st_outgoing s"
    by (cases "read_header s") (auto simp: process_request_def)
  then show ?case by (auto simp: handle_connection.simps [of hs unit_id "[]" s])
next
  case (Cons r requests)
  obtain tid pdu where r: "r = (tid, pdu)" by (cases r)
  have a: "available (st_incoming s) = request_adu tid u pdu @ concat (map (\<lambda>(tid, pdu). request_adu tid u pdu) requests)"
    using Cons(2) r by simp
  have pdu: "pdu \<noteq> []" "length pdu < 65535" using Cons(3) r by auto
  obtain t where t: "process_request hs unit_id s = (True, t)" "st_write_error t = None"
      "available (st_incoming t) = concat (map (\<lambda>(tid, pdu). request_adu tid u pdu) requests)"
      "st_outgoing t = st_outgoing s @ build_response_adu (header_of tid u pdu) (dispatch hs (header_of tid u pdu) pdu)"
    using process_request_served [OF a pdu Cons(4,5)] by auto
  have "st_outgoing (handle_connection hs unit_id [] t) = st_outgoing t @
      concat (map (\<lambda>(tid, pdu). build_response_adu (header_of tid u pdu) (dispatch hs (header_of tid u pdu) pdu)) requests)"
    using Cons(1) [OF t(3) _ Cons(4) t(2)] Cons(3) by simp
  then show ?case using t(1,4) r by (simp add: handle_connection.simps [of hs unit_id "[]" s])
qed

lemma length_register_octets [simp]: "length (register_octets vs) = 2 * length vs"
  by (induction vs) (simp_all add: register_octets_def)

lemma register_octets_snoc: "register_octets (vs @ [v]) = register_octets vs @ [hi8 v, lo8 v]"
  by (simp add: register_octets_def)

lemma register_octets_nth:
  "i < length vs \<Longrightarrow> be16 (register_octets vs ! (i * 2)) (register_octets vs ! Suc (i * 2)) = vs ! i"
proof (induction vs arbitrary: i)
  case (Cons v vs)
  then show ?case by (cases i) (simp_all add: register_octets_def)
qed simp

lemma write_registers_loop:
  assumes "length head = 6" "k \<le> length vs"
  shows "foldl (\<lambda>pdu i. write_be16 pdu (pdu_data_offset + i * 2) (vs ! i))
      (head @ replicate (2 * length vs) 0) [0..<k] =
    head @ register_octets (take k vs) @ replicate (2 * (length vs - k)) 0"
  using assms(2)
proof (induction k)
  case 0
  then show ?case by (simp add: register_octets_def)
next
  case (Suc k)
  have "2 * (length vs - k) = Suc (Suc (2 * (length vs - Suc k)))" using Suc(2) by simp
  then show ?case using Suc assms(1)
    by (simp add: write_be16_def write_at_def pdu_data_offset_def take_Suc_conv_app_nth register_octets_snoc)
qed

lemmas pdu_offsets = single_pdu_size_def pdu_value_offset_def write_multi_byte_count_offset_def pdu_data_offset_def

lemma hi_lo_count:
  assumes "n < 65536"
  shows "unat (word_of_nat n :: u16) = n"
  using assms by (intro unat_u16_of_nat) simp

lemma multiple_head:
  "write_at (write_be16 (write_be16 (write_at (replicate (pdu_data_offset + c) 0) 0 [fc]) 1 address) pdu_value_offset n)
     write_multi_byte_count_offset [bc] = [fc, hi8 address, lo8 address, hi8 n, lo8 n, bc] @ replicate c 0"
  by (simp add: write_be16_def write_at_def pdu_offsets numeral_eq_Suc)

lemma write_registers_layout:
  assumes "vs \<noteq> []" "length vs \<le> 123"
  shows "encode_write_multiple_registers address vs =
    Inr ([0x10, hi8 address, lo8 address, hi8 (word_of_nat (length vs)), lo8 (word_of_nat (length vs)),
      word_of_nat (2 * length vs)] @ register_octets vs)"
proof -
  let ?n = "word_of_nat (length vs) :: u16"
  have "(?n * 2 :: u16) = word_of_nat (2 * length vs)" by simp
  then have "unat (?n * 2) = 2 * length vs" using assms(2) hi_lo_count [of "2 * length vs"] by (simp add: mult.commute)
  then have bc: "(ucast (?n * 2) :: byte) = word_of_nat (2 * length vs)"
    by (metis of_nat_unat)
  have ubc: "unat (word_of_nat (2 * length vs) :: byte) = 2 * length vs"
    using assms(2) by (intro unat_byte_of_nat) simp
  let ?head = "[0x10, hi8 address, lo8 address, hi8 ?n, lo8 ?n, word_of_nat (2 * length vs) :: byte]"
  have "write_at (write_be16 (write_be16 (write_at (replicate (pdu_data_offset + unat (word_of_nat (2 * length vs) :: byte)) 0) 0
      [write_multiple_registers_code]) 1 address) pdu_value_offset ?n) write_multi_byte_count_offset [word_of_nat (2 * length vs)] =
    ?head @ replicate (2 * length vs) 0"
    unfolding ubc multiple_head by (simp add: write_multiple_registers_code_def)
  then show ?thesis
    using assms write_registers_loop [of ?head "length vs" vs]
    by (simp add: encode_write_multiple_registers_def Let_def bc max_write_registers_def del: of_nat_mult of_nat_numeral)
qed

lemma registers_response:
  assumes "fc AND exception_fc_flag = 0" "length vs \<le> 125"
  shows "decode_read_registers_response ([fc, word_of_nat (2 * length vs)] @ register_octets vs) fc
    (word_of_nat (length vs)) = Inr vs"
proof -
  have "unat (word_of_nat (2 * length vs) :: byte) = 2 * length vs"
    using assms(2) by (intro unat_byte_of_nat) simp
  moreover have "unat (word_of_nat (length vs) :: u16) = length vs" using assms(2) by (intro hi_lo_count) simp
  moreover have "map (\<lambda>i. be16 (register_octets vs ! (i * 2)) (register_octets vs ! Suc (i * 2))) [0..<length vs] = vs"
    by (rule nth_equalityI) (simp_all add: register_octets_nth)
  ultimately show ?thesis
    using assms(1) by (simp add: decode_read_registers_response_def is_exception_pdu_def read_be16_def)
qed

text \<open>Bit \<open>b\<close> of octet \<open>j\<close> of the packed coils, after the first \<open>k\<close> of them.\<close>

lemma write_at_single: "i < length d \<Longrightarrow> write_at d i [x] = d[i := x]"
  by (simp add: write_at_def upd_conv_take_nth_drop)

lemma coils_loop:
  assumes "length head = 6" "k \<le> length vs"
  defines "pdu \<equiv> foldl (set_coil vs) (head @ replicate ((length vs + 7) div 8) 0) [0..<k]"
  shows "length pdu = 6 + (length vs + 7) div 8 \<and> take 6 pdu = head \<and>
    (\<forall>j < (length vs + 7) div 8. \<forall>b. bit (pdu ! (6 + j)) b \<longleftrightarrow> b < 8 \<and> 8 * j + b < k \<and> vs ! (8 * j + b) \<noteq> 0)"
  using assms(2) unfolding pdu_def
proof (induction k)
  case 0
  then show ?case using assms(1) by (simp add: nth_append)
next
  case (Suc k)
  let ?p = "foldl (set_coil vs) (head @ replicate ((length vs + 7) div 8) 0) [0..<k]"
  have IH: "length ?p = 6 + (length vs + 7) div 8" "take 6 ?p = head"
    "\<And>j b. j < (length vs + 7) div 8 \<Longrightarrow> bit (?p ! (6 + j)) b \<longleftrightarrow> b < 8 \<and> 8 * j + b < k \<and> vs ! (8 * j + b) \<noteq> 0"
    using Suc by auto
  have jk: "k div 8 < (length vs + 7) div 8" using Suc(2) by simp
  have step: "foldl (set_coil vs) (head @ replicate ((length vs + 7) div 8) 0) [0..<Suc k] = set_coil vs ?p k"
    by simp
  show ?case unfolding step
  proof (cases "vs ! k = 0")
    case True
    then have "8 * j + b < Suc k \<and> vs ! (8 * j + b) \<noteq> 0 \<longleftrightarrow> 8 * j + b < k \<and> vs ! (8 * j + b) \<noteq> 0" for j b
      by (metis less_Suc_eq)
    then show "length (set_coil vs ?p k) = 6 + (length vs + 7) div 8 \<and> take 6 (set_coil vs ?p k) = head \<and>
        (\<forall>j < (length vs + 7) div 8. \<forall>b. bit (set_coil vs ?p k ! (6 + j)) b \<longleftrightarrow>
          b < 8 \<and> 8 * j + b < Suc k \<and> vs ! (8 * j + b) \<noteq> 0)"
      using IH True by (simp add: set_coil_def)
  next
    case False
    have set: "set_coil vs ?p k = ?p[6 + k div 8 := ?p ! (6 + k div 8) OR push_bit (k mod 8) 1]"
      using False IH(1) jk by (simp add: set_coil_def write_at_single pdu_data_offset_def bits_per_byte_def)
    have "bit (set_coil vs ?p k ! (6 + j)) b \<longleftrightarrow> b < 8 \<and> 8 * j + b < Suc k \<and> vs ! (8 * j + b) \<noteq> 0"
      if j: "j < (length vs + 7) div 8" for j b
    proof (cases "j = k div 8")
      case True
      have "bit (push_bit (k mod 8) 1 :: byte) b \<longleftrightarrow> b = k mod 8" using mod_less_divisor [of 8 k]
        by (auto simp: bit_simps)
      moreover have "b = k mod 8 \<longleftrightarrow> 8 * j + b = k" using True mult_div_mod_eq [of 8 k] by linarith
      moreover have "k mod 8 < 8" by simp
      ultimately show ?thesis using True IH(1,3) j False set
        by (auto simp: bit_simps less_Suc_eq)
    next
      case other: False
      then have "8 * j + b \<noteq> k" if "b < 8" using that div_mult_self4 [of 8 b j] by auto
      then show ?thesis using other IH(1,3) j set by (auto simp: less_Suc_eq)
    qed
    then show "length (set_coil vs ?p k) = 6 + (length vs + 7) div 8 \<and> take 6 (set_coil vs ?p k) = head \<and>
        (\<forall>j < (length vs + 7) div 8. \<forall>b. bit (set_coil vs ?p k ! (6 + j)) b \<longleftrightarrow>
          b < 8 \<and> 8 * j + b < Suc k \<and> vs ! (8 * j + b) \<noteq> 0)"
      using IH set by simp
  qed
qed

lemma write_coils_layout:
  assumes "vs \<noteq> []" "length vs \<le> 1968"
  shows "\<exists>packed. encode_write_multiple_coils address vs =
      Inr ([0x0F, hi8 address, lo8 address, hi8 (word_of_nat (length vs)), lo8 (word_of_nat (length vs)),
        word_of_nat ((length vs + 7) div 8)] @ packed) \<and> length packed = (length vs + 7) div 8 \<and>
    (\<forall>i < length vs. bit (packed ! (i div 8)) (i mod 8) \<longleftrightarrow> vs ! i \<noteq> 0)"
proof -
  let ?n = "word_of_nat (length vs) :: u16" and ?c = "(length vs + 7) div 8"
  have n: "unat ?n = length vs" using assms(2) by (intro hi_lo_count) simp
  have ubc: "unat (word_of_nat ?c :: byte) = ?c" using assms(2) by (intro unat_byte_of_nat) simp
  let ?head = "[0x0F, hi8 address, lo8 address, hi8 ?n, lo8 ?n, word_of_nat ?c :: byte]"
  have head: "write_at (write_be16 (write_be16 (write_at (replicate (pdu_data_offset + unat (word_of_nat ?c :: byte)) 0) 0
      [write_multiple_coils_code]) 1 address) pdu_value_offset ?n) write_multi_byte_count_offset [word_of_nat ?c] =
    ?head @ replicate ?c 0"
    unfolding ubc multiple_head by (simp add: write_multiple_coils_code_def)
  let ?pdu = "foldl (set_coil vs) (?head @ replicate ?c 0) [0..<length vs]"
  have p: "length ?pdu = 6 + ?c" "take 6 ?pdu = ?head"
    "\<And>j b. j < ?c \<Longrightarrow> bit (?pdu ! (6 + j)) b \<longleftrightarrow> b < 8 \<and> 8 * j + b < length vs \<and> vs ! (8 * j + b) \<noteq> 0"
    using coils_loop [of ?head "length vs" vs] by auto
  have "encode_write_multiple_coils address vs = Inr ?pdu"
  proof -
    have "\<not> (vs = [] \<or> length vs > max_write_coils)" using assms by (simp add: max_write_coils_def)
    moreover have "(unat ?n + bits_per_byte - 1) div bits_per_byte = ?c" using n by (simp add: bits_per_byte_def)
    ultimately show ?thesis unfolding encode_write_multiple_coils_def Let_def by (simp only: if_False head)
  qed
  moreover have "?pdu = ?head @ drop 6 ?pdu" using p(2) by (metis append_take_drop_id)
  moreover have "bit (drop 6 ?pdu ! (i div 8)) (i mod 8) \<longleftrightarrow> vs ! i \<noteq> 0" if i: "i < length vs" for i
  proof -
    have "i div 8 < ?c" using i by simp
    then show ?thesis using p(1) p(3) [of "i div 8" "i mod 8"] i by simp
  qed
  ultimately show ?thesis using p(1) by (intro exI [of _ "drop 6 ?pdu"]) simp
qed

lemma coils_response:
  assumes "fc AND exception_fc_flag = 0" "length vs \<le> 2000" "length packed = (length vs + 7) div 8"
    "\<forall>i < length vs. bit (packed ! (i div 8)) (i mod 8) \<longleftrightarrow> vs ! i \<noteq> 0"
  shows "decode_read_coils_response ([fc, word_of_nat (length packed)] @ packed) fc (word_of_nat (length vs)) =
    Inr (map (\<lambda>v. if v \<noteq> 0 then 1 else 0) (vs :: bytes))"
proof -
  have "unat (word_of_nat (length packed) :: byte) = length packed"
    using assms(2,3) by (intro unat_byte_of_nat) simp
  moreover have n: "unat (word_of_nat (length vs) :: u16) = length vs" using assms(2) by (intro hi_lo_count) simp
  moreover have "drop_bit k (x :: byte) AND 1 = (if bit x k then 1 else 0)" for k x
    by (simp add: and_one_eq mod_2_eq_odd bit_iff_odd_drop_bit)
  then have "map (\<lambda>i. drop_bit (i mod 8) (packed ! (i div 8)) AND 1) [0..<length vs] = map (\<lambda>v. if v \<noteq> 0 then 1 else 0) vs"
    using assms(4) by (intro nth_equalityI) simp_all
  ultimately show ?thesis
    using assms(1,3) by (simp add: decode_read_coils_response_def is_exception_pdu_def bits_per_byte_def)
qed





subsection \<open>Properties\<close>

text \<open>
  C25: a request reaches the handler and its answer the client.  Whatever chunks the network cuts the
  octets into, a server that receives the request a client sends serves it, leaves what follows it
  unread, and the client whose stream carries what the server wrote returns exactly the answer the
  server's handler gave (or the illegal-function exception, where it has none).
\<close>

theorem request_answered:
  assumes "mc_stream c = Some s" "st_write_error s = None" "pdu \<noteq> []" "length pdu < 65535"
    and "available (st_incoming t) = client_adu c pdu @ later" "st_write_error t = None"
    and "unit_id = broadcast_unit_id \<or> unit_id = mc_unit_id c"
    and "answer = dispatch hs (header_of (mc_next_tid c) (mc_unit_id c) pdu) pdu" "length answer < 65535"
    and "process_request hs unit_id t = (ok, t')"
    and "available (st_incoming s) = drop (length (st_outgoing t)) (st_outgoing t') @ rest"
  shows "ok \<and> available (st_incoming t') = later \<and>
    (\<exists>s'. exchange_pdu pdu c = (Inr answer, c\<lparr> mc_stream := Some s', mc_next_tid := mc_next_tid c + 1 \<rparr>) \<and>
       st_outgoing s' = st_outgoing s @ client_adu c pdu \<and> available (st_incoming s') = rest)"
proof -
  let ?h = "header_of (mc_next_tid c) (mc_unit_id c) pdu"
  have adu: "client_adu c pdu = request_adu (mc_next_tid c) (mc_unit_id c) pdu"
    using assms(4) by (intro client_adu_layout) simp
  have t': "ok" "available (st_incoming t') = later" "st_outgoing t' = st_outgoing t @ build_response_adu ?h answer"
    using process_request_served [of t "mc_next_tid c" "mc_unit_id c" pdu later unit_id hs] assms(3-8,10) adu by auto
  have "build_response_adu ?h answer = request_adu (mc_next_tid c) (mc_unit_id c) answer"
    using build_response_adu_layout [of answer ?h] assms(9) by (simp add: header_of_def)
  then have "available (st_incoming s) = request_adu (mc_next_tid c) (mc_unit_id c) answer @ rest"
    using assms(11) t'(3) by simp
  from exchange_reply [OF this assms(9,2), of "client_adu c pdu"] show ?thesis
    using t' assms(1) by (auto simp: exchange_pdu_def)
qed

lemma sample_exchange:
  "client_adu sample_modbus_client [6, 0, 1, 0xAB, 0xCD] = [0, 7, 0, 0, 0, 6, 1, 6, 0, 1, 0xAB, 0xCD]"
  "dispatch echo_handlers (header_of (mc_next_tid sample_modbus_client) (mc_unit_id sample_modbus_client) [6, 0, 1, 0xAB, 0xCD])
     [6, 0, 1, 0xAB, 0xCD] = [6, 0, 1, 0xAB, 0xCD]"
  "process_request echo_handlers 255
     \<lparr> st_incoming = [Chunk [0, 7, 0], Chunk [0, 0, 6, 1, 6, 0], Chunk [1, 0xAB, 0xCD]], st_outgoing = [], st_write_error = None \<rparr> =
   (True, \<lparr> st_incoming = [], st_outgoing = [0, 7, 0, 0, 0, 6, 1, 6, 0, 1, 0xAB, 0xCD], st_write_error = None \<rparr>)"
  by code_simp+

lemma sample_facts:
  "mc_stream sample_modbus_client = Some sample_stream" "st_write_error sample_stream = None"
  "available (st_incoming sample_stream) = [0, 7, 0, 0, 0, 6, 1, 6, 0, 1, 0xAB, 0xCD]"
  by (simp_all add: sample_modbus_client_def sample_stream_def)

theorem request_answered_witness:
  "True \<and> available (st_incoming
      \<lparr> st_incoming = [], st_outgoing = [0, 7, 0, 0, 0, 6, 1, 6, 0, 1, 0xAB, 0xCD], st_write_error = None \<rparr>) = [] \<and>
   (\<exists>s'. exchange_pdu [6, 0, 1, 0xAB, 0xCD] sample_modbus_client =
      (Inr [6, 0, 1, 0xAB, 0xCD], sample_modbus_client\<lparr> mc_stream := Some s', mc_next_tid := mc_next_tid sample_modbus_client + 1 \<rparr>) \<and>
      st_outgoing s' = st_outgoing sample_stream @ client_adu sample_modbus_client [6, 0, 1, 0xAB, 0xCD] \<and> available (st_incoming s') = [])"
  by (rule request_answered [OF _ _ _ _ _ _ _ sample_exchange(2) [symmetric] _ sample_exchange(3)])
    (simp_all add: sample_exchange(1) sample_facts broadcast_unit_id_def)

text \<open>
  C26: requests sent one after another are answered one after another.  A connection that carries any
  number of well-formed requests, in whatever chunks, ends with one response written for each, in
  the order of the requests, and with the transaction identifier of its request.
\<close>

theorem requests_answered_in_order:
  assumes "available (st_incoming s) = concat (map (\<lambda>(tid, pdu). request_adu tid u pdu) requests)"
    "\<forall>(tid, pdu) \<in> set requests. pdu \<noteq> [] \<and> length pdu < 65535"
    "\<forall>(tid, pdu) \<in> set requests. length (dispatch hs (header_of tid u pdu) pdu) < 65536"
    "unit_id = broadcast_unit_id \<or> unit_id = u" "st_write_error s = None"
  shows "st_outgoing (handle_connection hs unit_id [] s) = st_outgoing s @
    concat (map (\<lambda>(tid, pdu). request_adu tid u (dispatch hs (header_of tid u pdu) pdu)) requests)"
proof -
  have "map (\<lambda>(tid, pdu). build_response_adu (header_of tid u pdu) (dispatch hs (header_of tid u pdu) pdu)) requests =
      map (\<lambda>(tid, pdu). request_adu tid u (dispatch hs (header_of tid u pdu) pdu)) requests"
    using assms(3) by (auto simp: build_response_adu_layout header_of_def)
  with request_pipeline [OF assms(1,2,4,5), of hs] show ?thesis by simp
qed

theorem requests_answered_in_order_witness:
  "st_outgoing (handle_connection Map.empty 1 []
      \<lparr> st_incoming = [Chunk (request_adu 1 1 [3, 0] @ [0]), Chunk (tl (request_adu 2 1 [9]))], st_outgoing = [], st_write_error = None \<rparr>) =
   [] @ concat (map (\<lambda>(tid, pdu). request_adu tid 1 (dispatch Map.empty (header_of tid 1 pdu) pdu)) [(1, [3, 0]), (2, [9])])"
  using requests_answered_in_order [of
      "\<lparr> st_incoming = [Chunk (request_adu 1 1 [3, 0] @ [0]), Chunk (tl (request_adu 2 1 [9]))], st_outgoing = [], st_write_error = None \<rparr>"
      1 "[(1, [3, 0]), (2, [9])]" Map.empty 1]
  by (simp add: request_adu_def mbap_octets_def hi8_def lo8_def dispatch_def make_exception_response_def)



text \<open>
  C28: a request to write coils is accepted for 1 to 1968 of them, fits the largest payload unit, and
  its packed bits, read as the answer to a read of as many coils, are the coils that were given.
\<close>

theorem coils_roundtrip:
  assumes "vs \<noteq> []" "length vs \<le> 1968"
  shows "\<exists>packed. encode_write_multiple_coils address vs =
      Inr ([0x0F, hi8 address, lo8 address, hi8 (word_of_nat (length vs)), lo8 (word_of_nat (length vs)),
        word_of_nat (length packed)] @ packed) \<and> 6 + length packed \<le> max_pdu_size \<and>
    decode_read_coils_response ([0x01, word_of_nat (length packed)] @ packed) read_coils_code (word_of_nat (length vs)) =
      Inr (map (\<lambda>v. if v \<noteq> 0 then 1 else 0) vs)"
proof -
  obtain packed where p: "encode_write_multiple_coils address vs =
      Inr ([0x0F, hi8 address, lo8 address, hi8 (word_of_nat (length vs)), lo8 (word_of_nat (length vs)),
        word_of_nat ((length vs + 7) div 8)] @ packed)" "length packed = (length vs + 7) div 8"
      "\<forall>i < length vs. bit (packed ! (i div 8)) (i mod 8) \<longleftrightarrow> vs ! i \<noteq> 0"
    using write_coils_layout [OF assms] by blast
  moreover have "length packed \<le> 246" using p(2) assms(2) by simp
  moreover have "decode_read_coils_response ([read_coils_code, word_of_nat (length packed)] @ packed) read_coils_code
      (word_of_nat (length vs)) = Inr (map (\<lambda>v. if v \<noteq> 0 then 1 else 0) vs)"
    using assms(2) p(2,3) by (intro coils_response) (simp_all add: read_coils_code_def exception_fc_flag_def)
  ultimately show ?thesis
    by (intro exI [of _ packed]) (simp add: read_coils_code_def max_pdu_size_def)
qed

theorem coils_roundtrip_witness:
  "\<exists>packed. encode_write_multiple_coils 19 [1, 0, 1, 1, 0, 0, 1, 1, 1, 0] =
      Inr ([0x0F, hi8 19, lo8 19, hi8 (word_of_nat (length [1, 0, 1, 1, 0, 0, 1, 1, 1, 0 :: byte])),
        lo8 (word_of_nat (length [1, 0, 1, 1, 0, 0, 1, 1, 1, 0 :: byte])), word_of_nat (length packed)] @ packed) \<and>
    6 + length packed \<le> max_pdu_size \<and>
    decode_read_coils_response ([0x01, word_of_nat (length packed)] @ packed) read_coils_code
        (word_of_nat (length [1, 0, 1, 1, 0, 0, 1, 1, 1, 0 :: byte])) =
      Inr (map (\<lambda>v. if v \<noteq> 0 then 1 else 0) [1, 0, 1, 1, 0, 0, 1, 1, 1, 0 :: byte])"
  by (rule coils_roundtrip) simp_all

text \<open>
  A request to write registers is accepted for 1 to 123 of them, fits the largest payload unit, and
  its values, read as the answer to a read of as many registers, are the registers that were given.
\<close>

theorem registers_roundtrip:
  assumes "vs \<noteq> []" "length vs \<le> 123" "fc AND exception_fc_flag = 0"
  shows "encode_write_multiple_registers address vs =
      Inr ([0x10, hi8 address, lo8 address, hi8 (word_of_nat (length vs)), lo8 (word_of_nat (length vs)),
        word_of_nat (2 * length vs)] @ register_octets vs) \<and> 6 + length (register_octets vs) \<le> max_pdu_size \<and>
    decode_read_registers_response ([fc, word_of_nat (2 * length vs)] @ register_octets vs) fc (word_of_nat (length vs)) = Inr vs"
proof -
  have "length vs \<le> 125" using assms(2) by simp
  with write_registers_layout [OF assms(1,2)] registers_response [OF assms(3)] assms(2) show ?thesis
    by (simp add: max_pdu_size_def)
qed

theorem registers_roundtrip_witness:
  "encode_write_multiple_registers 1 [10, 258] =
      Inr ([0x10, hi8 1, lo8 1, hi8 (word_of_nat (length [10 :: u16, 258])), lo8 (word_of_nat (length [10 :: u16, 258])),
        word_of_nat (2 * length [10 :: u16, 258])] @ register_octets [10, 258]) \<and>
    6 + length (register_octets [10, 258]) \<le> max_pdu_size \<and>
    decode_read_registers_response ([3, word_of_nat (2 * length [10 :: u16, 258])] @ register_octets [10, 258]) 3
      (word_of_nat (length [10 :: u16, 258])) = Inr [10, 258]"
  by (rule registers_roundtrip) (simp_all add: exception_fc_flag_def)


end
