(* ===== verification/Spec2Isabelle.thy ===== *)
theory Spec2Isabelle
  imports Knx_Session Knx_Secure_Handshake Knx_Secure_Timer Knx_Dpt Modbus
begin

text \<open>
  A verification of the protocol code of kmx-aio, a C++ library of asynchronous I/O.  The library has
  two executors (over epoll and over io_uring), sockets and streams on top of them, and protocol
  implementations that run over either.  The KNXnet/IP and the Modbus TCP implementations keep their
  codecs and state machines apart from I/O: an operation takes octets, a time and drawn entropy and
  returns octets or an error.  That part is modelled here, in the order in which the code builds it.
  Paths below are those of \<open>source/library/{api,inc,src}/kmx/aio/\<close>.

  \<^bold>\<open>Conventions.\<close>  An octet is an \<open>8 word\<close>, and 16, 32 and 64 bit integers are words of their width, so
  arithmetic wraps where the code's does.  A span of octets is a list.  An encoder takes the buffer
  it writes into and returns its result with the new buffer: what it leaves alone is part of the
  result (\<open>write_at\<close> of \<open>Prelude\<close>).  \<open>std::expected\<close> is a sum with the error on the left, and
  every early return of the source is a branch.  A class is a record, and a member function that
  changes it returns the new one.  Entropy, clocks and the results of reads are arguments.

  \<^bold>\<open>Theories and sources.\<close>
  \<^item> \<open>Prelude\<close>: octets and words, buffers, lists, and the interfaces.  \<open>packet_codec\<close>, \<open>strict_codec\<close>,
    \<open>lossless_codec\<close> and \<open>canonical_codec\<close> state what an encoder and a decoder owe each other: which
    values are encoded, that nothing is written outside the packet, that decoding gives the value back,
    that the encoder refuses all else, that decoding loses nothing, that only images are decoded.  \<open>state_machine\<close>
    gives invariants of every reachable state and \<open>simulation\<close> the refinement of sequences of labelled steps.  Each is interpreted on the model's own
    operations, in the theory that defines them.
  \<^item> \<open>Knx_Address\<close>: \<open>knx/address.hpp\<close>, \<open>individual_address\<close>, \<open>group_address\<close>, \<open>knx/error.hpp\<close>.  Printing and
    parsing, ordering, construction.
  \<^item> \<open>Knx_Cemi\<close>: \<open>knx/cemi.hpp\<close>, \<open>cemi_frame.hpp\<close>, \<open>apdu_payload.hpp\<close>, \<open>property_frame.hpp\<close>.  Link layer and
    property messages.
  \<^item> \<open>Knx_Frame\<close>, \<open>Knx_Connection\<close>, \<open>Knx_Dib\<close>, \<open>Knx_Discovery\<close>, \<open>Knx_Routing\<close>: the packets of
    \<open>knx/frame.cpp\<close>, \<open>connection.cpp\<close>, \<open>dib.cpp\<close>, \<open>discovery.cpp\<close> and \<open>knx/routing.cpp\<close>.
  \<^item> \<open>Knx_Secure_Packets\<close>: the packets of KNX IP Secure (\<open>knx/secure/session.cpp\<close>, \<open>wrapper.cpp\<close>,
    \<open>timer_notify.cpp\<close>).
  \<^item> \<open>Knx_Secure_Crypto\<close>: the sealing and opening of wrappers (\<open>knx/secure/detail/ccm.cpp\<close>,
    \<open>wrapper_crypto.cpp\<close>, \<open>session_crypto.cpp\<close>) over a record of primitives.
  \<^item> \<open>Knx_Datagram\<close>: the dispatch on the service type, \<open>knx/datagram.cpp\<close>.
  \<^item> \<open>Knx_Session\<close>: the tunnelling session, \<open>knx/tunnelling_session.cpp\<close>; every public operation that
    changes it is a rule of \<open>session_does\<close>, labelled with the event it stands for.
  \<^item> \<open>Knx_Secure_Client\<close>, \<open>Knx_Secure_Server\<close>, \<open>Knx_Secure_Handshake\<close>, \<open>Knx_Secure_Timer\<close>:
    \<open>knx/secure/client_session.cpp\<close>, \<open>server_session_table.cpp\<close>, the two together, and
    \<open>routing_timer_state.cpp\<close>, with \<open>client_step\<close>, \<open>server_step\<close> and \<open>timer_step\<close>.
  \<^item> \<open>Floating\<close>, \<open>Knx_Dpt\<close>: rounding of IEEE values, and the datapoint types of \<open>knx/dpt/\<close>, one
    encoder and decoder for each specialisation of \<open>traits\<close>.  The interfaces \<open>datapoint_type\<close> and
    \<open>exact_datapoint\<close> are interpreted for every main type.
  \<^item> \<open>Modbus\<close>: \<open>modbus/frame.cpp\<close>, the client's operations and exchange (\<open>detail/session.hpp\<close>,
    \<open>detail/client_ops.hpp\<close>) and the server's handling of a connection (\<open>detail/server_ops.hpp\<close>).

  \<^bold>\<open>How the parts meet.\<close>  A datapoint value becomes the payload of a cEMI message; a session numbers the
  message and puts it into a tunnelling request; the dispatcher writes it as a datagram; a secure
  session wraps that datagram.  On the way back each layer checks what the one below gave it.  The
  theorems on telegrams (\<open>Knx_Dpt\<close>), on datagrams (\<open>Knx_Datagram\<close>) and on the handshake
  (\<open>Knx_Secure_Handshake\<close>) cross these layers.

  \<^bold>\<open>What is shown.\<close>
  \<^item> Codecs: for each packet, exactly which values are encoded, that the buffer outside the packet is
    untouched, that decoding returns the value, and, where the code is strict, that nothing else decodes.
  \<^item> Tunnelling session: its fields agree with its state in every reachable state; the events
    of every run are moves of the documented life cycle, which only a reset starts again; acknowledgements, retries, indications and answers behave as numbered.
  \<^item> KNX IP Secure: client and server that know the password agree on one key, and a session is
    authenticated in no other way; sequence numbers sent are fresh, those accepted increase; a forged
    or replayed wrapper changes no session and leaves no plaintext; the server's table keeps its limits and its search for an id ends; the
    routing timer accepts exactly what its window allows, its 64-bit sums never overflow for 48-bit timer
    values and instants below \<open>2 ^ 63 - 2 ^ 48\<close> ms, and its duplicate ring is a queue of the last frames.
  \<^item> Datapoints: exact types survive a telegram; the two-octet float and the scalings give the nearest
    representable value.
  \<^item> Modbus: requests are answered, in order, however the octets are cut into chunks; the client
    accepts exactly the response to its request.
  \<^item> Deviations found while modelling are stated as the code has them: the retry count that never ends
    (\<open>Knx_Session\<close>), the timekeeper's range (\<open>Knx_Secure_Timer\<close>), the frame a server leaves in the buffer when
    it refuses the service (\<open>Knx_Secure_Server\<close>), the device configuration services that are read but not
    written and the alternatives they decode to (\<open>Knx_Datagram\<close>), the meaning of \<open>message_length\<close>
    (\<open>Knx_Frame\<close>), the blocks that do not read back as themselves (\<open>Knx_Dib\<close>), the response buffer and the
    unread payload (\<open>Modbus\<close>).

  \<^bold>\<open>Loops and bounds.\<close>  No definition uses fuel.  Loops over octets and over read results end because the
  list gets shorter.  The rounding loop of \<open>Floating\<close> ends because the unit in the last place doubles,
  and the exponent loop of the two-octet float because the exponent is bounded by 15.  The search for a
  session id has no bound in the code and is a partial function; that it returns in every reachable
  table is a theorem.

  \<^bold>\<open>Assumptions.\<close>  The cryptographic primitives come from OpenSSL or BoringSSL and are parameters.  Where
  a theorem needs it, a hypothesis says that counter mode is its own inverse, that a code is one block,
  that the primitives succeed, and that both halves of the key agreement give one key.  No theorem
  assumes that a code cannot be forged: authenticity is stated as what the code verified.  A Modbus
  server's handlers are the application's and are parameters.

  \<^bold>\<open>Not modelled.\<close>
  \<^item> The executors, sockets, timers, channels, mutexes and tasks: system calls, threads and coroutine
    handles.  With them the KNX clients and server (\<open>tunnelling_client\<close>, \<open>generic_server\<close>,
    \<open>routing/client\<close>, \<open>discovery/client\<close>), the transports and the connecting and accepting of Modbus,
    which drive the modelled operations from coroutines.
  \<^item> TLS, QUIC, OPC UA, SOME/IP, GPU, storage and video capture: wrappers of libraries and devices.
  \<^item> Buffers and allocators: reference counts and free lists over raw storage.
  \<^item> KNX Data Secure, keyrings and their XML reader, the stream reassembler, HTTP/2 and HTTP/3 framing
    and audio video bridging: deterministic code that this development leaves out.
  \<^item> The wiping of secrets is modelled where the value is read again or returned, not as a property of
    memory; constant-time comparison is its result only.
\<close>

end
